(* ===== verification/Tap_Prelude.thy ===== *)
theory Tap_Prelude
  imports Main "HOL-Library.Word" "HOL-Library.Multiset"
begin

text \<open>
  The prelude of the TapSDK development: the machine types of
  \<^verbatim>\<open>source/base/types.h\<close>, the exceptions the SDK throws, byte strings, and the generic
  lemmas on lists, options and words that the component theories share.

  The SDK's \<^verbatim>\<open>std::string\<close> is a HOL \<^typ>\<open>string\<close> (a list of 8-bit characters), a byte buffer
  is a list of \<^verbatim>\<open>u8\<close>; \<open>bytes_of\<close> is the reinterpretation of one as the other.
\<close>

unbundle bit_operations_syntax

section \<open>Machine types\<close>

type_synonym u8 = "8 word"
type_synonym u16 = "16 word"
type_synonym u32 = "32 word"
type_synonym u64 = "64 word"

section \<open>Exceptions\<close>

text \<open>
  \<^verbatim>\<open>ASSERT\<close> and \<^verbatim>\<open>ASSERT_MSG\<close> (\<^verbatim>\<open>base/logging.h\<close>) call \<^verbatim>\<open>AssertFailed\<close>, which throws
  \<^verbatim>\<open>std::logic_error\<close>; other throwing code raises \<^verbatim>\<open>std::runtime_error\<close>; library code
  (JSON access, \<^verbatim>\<open>std::stoull\<close>, the file system) raises its own exceptions.
\<close>

datatype exn = LogicError string | RuntimeError string | LibraryError string

type_synonym 'a throws = "exn + 'a"

definition throws_bind :: "'a throws \<Rightarrow> ('a \<Rightarrow> 'b throws) \<Rightarrow> 'b throws" where
  "throws_bind m f = (case m of Inl e \<Rightarrow> Inl e | Inr a \<Rightarrow> f a)"

definition assert_that :: "bool \<Rightarrow> string \<Rightarrow> unit throws" where
  "assert_that c msg = (if c then Inr () else Inl (LogicError msg))"

named_theorems throws_simps "equations of the exception type"

lemma throws_bind_simps [simp, throws_simps]:
  "throws_bind (Inl e) f = Inl e"
  "throws_bind (Inr a) f = f a"
  by (simp_all add: throws_bind_def)

lemma throws_bind_Inr_iff [throws_simps]:
  "throws_bind m f = Inr b \<longleftrightarrow> (\<exists>a. m = Inr a \<and> f a = Inr b)"
  by (cases m) simp_all

lemma assert_that_simps [simp, throws_simps]:
  "assert_that True msg = Inr ()"
  "assert_that False msg = Inl (LogicError msg)"
  by (simp_all add: assert_that_def)

lemma assert_that_Inr_iff [throws_simps]: "assert_that c msg = Inr u \<longleftrightarrow> c"
  by (simp add: assert_that_def)

section \<open>Bytes and characters\<close>

definition bytes_of :: "string \<Rightarrow> u8 list" where
  "bytes_of s = map of_char s"

text \<open>The value of a \<^verbatim>\<open>char\<close> in an expression; \<^verbatim>\<open>char\<close> is signed on the SDK's targets.\<close>

definition char_val :: "char \<Rightarrow> int" where
  "char_val c = sint (of_char c :: u8)"

lemma length_bytes_of [simp]: "length (bytes_of s) = length s"
  by (simp add: bytes_of_def)

lemma bytes_of_append [simp]: "bytes_of (s @ t) = bytes_of s @ bytes_of t"
  by (simp add: bytes_of_def)

text \<open>Little-endian and big-endian readings of a run of bytes, as a number.\<close>

fun le_value :: "u8 list \<Rightarrow> nat" where
  "le_value [] = 0"
| "le_value (b # bs) = unat b + 256 * le_value bs"

fun le_digits :: "nat \<Rightarrow> nat \<Rightarrow> u8 list" where
  "le_digits 0 n = []"
| "le_digits (Suc k) n = of_nat (n mod 256) # le_digits k (n div 256)"

lemma length_le_digits [simp]: "length (le_digits k n) = k"
  by (induction k arbitrary: n) simp_all

lemma unat_u8_less: "unat (b :: u8) < 256"
  using unsigned_less [of b] by simp

lemma unat_of_nat_u8: "unat (of_nat n :: u8) = n mod 256"
  by (simp add: unat_of_nat)

lemma le_value_digits [simp]: "le_value (le_digits k n) = n mod 256 ^ k"
proof (induction k arbitrary: n)
  case 0
  then show ?case by simp
next
  case (Suc k)
  have "le_value (le_digits (Suc k) n) = n mod 256 + 256 * (n div 256 mod 256 ^ k)"
    by (simp add: Suc unat_of_nat_u8)
  also have "\<dots> = n mod (256 * 256 ^ k)"
    by (simp add: mod_mult2_eq)
  finally show ?case by simp
qed

lemma le_value_bound: "le_value bs < 256 ^ length bs"
proof (induction bs)
  case Nil
  then show ?case by simp
next
  case (Cons b bs)
  have "unat b + 256 * le_value bs < 256 * Suc (le_value bs)"
    using unat_u8_less [of b] by simp
  also have "\<dots> \<le> 256 * 256 ^ length bs"
    using Cons by simp
  finally show ?case by simp
qed

lemma le_digits_value [simp]: "le_digits (length bs) (le_value bs) = bs"
proof (induction bs)
  case Nil
  then show ?case by simp
next
  case (Cons b bs)
  have "(unat b + 256 * le_value bs) div 256 = le_value bs"
    using unat_u8_less [of b] by simp
  moreover have "(of_nat ((unat b + 256 * le_value bs) mod 256) :: u8) = b"
    using unat_u8_less [of b] by simp
  ultimately show ?case using Cons by simp
qed

lemma le_digits_mod [simp]: "le_digits k (n mod 256 ^ k) = le_digits k n"
  using le_digits_value [of "le_digits k n"] by simp

lemma of_nat_mod_u8 [simp]: "(of_nat (n mod 256) :: u8) = of_nat n"
  by (metis unat_of_nat_u8 mod_mod_trivial unsigned_word_eqI)

lemma le_digits_map: "le_digits k n = map (\<lambda>i. of_nat (n div 256 ^ i)) [0..<k]"
proof (induction k arbitrary: n)
  case 0
  then show ?case by simp
next
  case (Suc k)
  show ?case unfolding map_upt_Suc by (simp add: Suc div_mult2_eq)
qed

text \<open>Extracting a byte of a wider word by shifting and masking.\<close>

lemma ucast_low_byte: "(ucast ((x :: 'a::len word) AND 0xFF) :: u8) = ucast x"
proof -
  have "x AND 0xFF = take_bit 8 x" by (simp add: take_bit_eq_mask mask_eq_exp_minus_1)
  then show ?thesis by (auto intro: bit_word_eqI simp: bit_simps)
qed

lemma byte_of_drop: "(ucast (drop_bit s (w :: 'a::len word)) :: u8) = of_nat (unat w div 2 ^ s)"
  by (metis of_nat_unat unsigned_drop_bit_eq drop_bit_eq_div take_bit_nat_eq_self_iff unsigned_less)

lemma byte_of_shift:
  "(ucast (drop_bit s (w :: 'a::len word) AND 0xFF) :: u8) = of_nat (unat w div 2 ^ s)"
  unfolding ucast_low_byte by (rule byte_of_drop)

lemma byte_of_low: "(ucast ((w :: 'a::len word) AND 0xFF) :: u8) = of_nat (unat w)"
  using byte_of_shift [of 0 w] by simp

section \<open>Binary numerals, most significant digit first\<close>

fun bits_msb :: "nat \<Rightarrow> nat \<Rightarrow> bool list" where
  "bits_msb 0 n = []"
| "bits_msb (Suc k) n = bits_msb k (n div 2) @ [odd n]"

definition bits_value :: "bool list \<Rightarrow> nat" where
  "bits_value = foldl (\<lambda>v b. 2 * v + of_bool b) 0"

lemma length_bits_msb [simp]: "length (bits_msb k n) = k"
  by (induction k arbitrary: n) simp_all

lemma bits_value_Nil [simp]: "bits_value [] = 0"
  by (simp add: bits_value_def)

lemma bits_value_snoc [simp]: "bits_value (bs @ [b]) = 2 * bits_value bs + of_bool b"
  by (simp add: bits_value_def)

lemma bits_value_append: "bits_value (as @ bs) = bits_value as * 2 ^ length bs + bits_value bs"
  by (induction bs rule: rev_induct) (simp_all add: algebra_simps flip: append_assoc)

lemma bits_value_bound: "bits_value bs < 2 ^ length bs"
  by (induction bs rule: rev_induct) auto

lemma bits_value_msb [simp]: "bits_value (bits_msb k n) = n mod 2 ^ k"
proof (induction k arbitrary: n)
  case 0
  then show ?case by simp
next
  case (Suc k)
  have "2 * (n div 2 mod 2 ^ k) + of_bool (odd n) = n mod (2 * 2 ^ k)"
    by (simp add: mod_mult2_eq odd_iff_mod_2_eq_one mod2_eq_if)
  then show ?case by (simp add: Suc)
qed

lemma bits_msb_value [simp]: "bits_msb (length bs) (bits_value bs) = bs"
  by (induction bs rule: rev_induct) auto

lemma bits_msb_add: "bits_msb (j + k) n = bits_msb j (n div 2 ^ k) @ bits_msb k n"
proof (induction k arbitrary: n)
  case 0
  then show ?case by simp
next
  case (Suc k)
  have "bits_msb (j + Suc k) n = bits_msb (j + k) (n div 2) @ [odd n]" by simp
  also have "\<dots> = bits_msb j (n div 2 div 2 ^ k) @ bits_msb k (n div 2) @ [odd n]"
    by (simp add: Suc)
  also have "n div 2 div 2 ^ k = n div 2 ^ Suc k"
    by (simp add: div_mult2_eq)
  finally show ?case by simp
qed

lemma bits_msb_mod: "bits_msb k (n mod 2 ^ k) = bits_msb k n"
proof (induction k arbitrary: n)
  case 0
  then show ?case by simp
next
  case (Suc k)
  have "n mod (2 * 2 ^ k) div 2 = n div 2 mod 2 ^ k"
    by (simp add: mod_mult2_eq)
  moreover have "odd (n mod (2 * 2 ^ k)) = odd n"
    by (metis dvd_mod_iff dvd_triv_left)
  ultimately show ?case by (simp add: Suc)
qed

section \<open>Lists\<close>

fun chunks :: "nat \<Rightarrow> 'a list \<Rightarrow> 'a list list" where
  "chunks n xs = (if n = 0 \<or> xs = [] then [] else take n xs # chunks n (drop n xs))"

declare chunks.simps [simp del]

lemma chunks_Nil [simp]: "chunks n [] = []"
  by (subst chunks.simps) simp

lemma chunks_append:
  assumes "0 < n" and "n dvd length xs"
  shows "chunks n (xs @ ys) = chunks n xs @ chunks n ys"
  using assms
proof (induction n xs rule: chunks.induct)
  case (1 n xs)
  show ?case
  proof (cases "xs = []")
    case True
    then show ?thesis by simp
  next
    case False
    with "1.prems" have len: "n \<le> length xs"
      by (auto dest: dvd_imp_le)
    with "1.prems" have "n dvd length (drop n xs)" by (simp add: dvd_diff_nat)
    with "1" False have "chunks n (drop n xs @ ys) = chunks n (drop n xs) @ chunks n ys"
      by simp
    with False len "1.prems" show ?thesis
      by (simp add: chunks.simps [of n "xs @ ys"] chunks.simps [of n xs])
  qed
qed

lemma chunks_single:
  assumes "xs \<noteq> []" and "length xs \<le> n"
  shows "chunks n xs = [xs]"
  using assms by (cases xs) (simp_all add: chunks.simps [of n xs] chunks.simps [of n "_ # _"])

lemma dvd_pad:
  assumes "0 < (k :: nat)"
  shows "k dvd m + (k - m mod k) mod k"
proof (cases "m mod k = 0")
  case True
  then show ?thesis by (simp add: mod_eq_0_iff_dvd)
next
  case False
  then have "(k - m mod k) mod k = k - m mod k" using assms by simp
  moreover have "m + (k - m mod k) = m - m mod k + k"
    using assms mod_less_divisor [OF assms, of m] mod_less_eq_dividend [of m k] by linarith
  ultimately show ?thesis
    by (metis dvd_add dvd_minus_mod dvd_refl)
qed

lemma take_eq_length [simp]: "length xs = n \<Longrightarrow> take n xs = xs"
  by simp

end
