(* ===== verification/Md_Blocks.thy ===== *)
theory Md_Blocks
  imports Tap_Prelude
begin

text \<open>
  The block discipline MD5 and SHA-1 share: a message is absorbed in blocks of 64 bytes, the
  bytes after the last full block wait in a buffer, and the digest absorbs a padded tail.
  The lemmas here hold for any compression function; \<open>Sha1\<close> and \<open>Md5\<close> use them at their own.
\<close>

fun absorb :: "('s \<Rightarrow> u8 list \<Rightarrow> 's) \<Rightarrow> 's \<Rightarrow> u8 list \<Rightarrow> 's" where
  "absorb f h bs = (if length bs < 64 then h else absorb f (f h (take 64 bs)) (drop 64 bs))"

declare absorb.simps [simp del]

definition residue :: "u8 list \<Rightarrow> u8 list" where
  "residue bs = drop (length bs - length bs mod 64) bs"

text \<open>The tail of the padded message: a one bit, zeros, and the length field of eight bytes.\<close>

definition md_padding :: "nat \<Rightarrow> u8 list \<Rightarrow> u8 list" where
  "md_padding n len_field = 0x80 # replicate ((119 - n mod 64) mod 64) 0 @ len_field"

lemma length_residue [simp]: "length (residue bs) = length bs mod 64"
  by (simp add: residue_def)

lemma residue_short [simp]: "length bs < 64 \<Longrightarrow> residue bs = bs"
  by (simp add: residue_def)

lemma length_md_padding:
  "length len_field = 8 \<Longrightarrow> length (md_padding n len_field) = 9 + (119 - n mod 64) mod 64"
  by (simp add: md_padding_def)

lemma md_pad_count: 
  "n < 56 \<Longrightarrow> (119 - n) mod 64 = 55 - (n :: nat)"
  "56 \<le> n \<Longrightarrow> (119 - n) mod 64 = 119 - (n :: nat)"
  by (simp_all add: mod_if [of "119 - n"])

lemma md_padding_one_block:
  "n mod 64 < 56 \<Longrightarrow> md_padding n f = 0x80 # replicate (55 - n mod 64) 0 @ f"
  by (simp add: md_padding_def md_pad_count)

lemma md_padding_two_blocks:
  assumes "56 \<le> n mod 64"
  shows "md_padding n f = 0x80 # replicate (63 - n mod 64) 0 @ replicate 56 0 @ f"
proof -
  have "n mod 64 < 64" by simp
  then have "119 - n mod 64 = (63 - n mod 64) + 56" by linarith
  then have "replicate (119 - n mod 64) (0 :: u8) = replicate (63 - n mod 64) 0 @ replicate 56 0"
    by (simp only: replicate_add)
  then show ?thesis
    by (simp only: md_padding_def md_pad_count(2) [OF assms] append_assoc)
qed

lemma absorb_short: "length bs < 64 \<Longrightarrow> absorb compress h bs = h"
  by (simp add: absorb.simps [of compress h bs])

lemma absorb_block:
  "length b = 64 \<Longrightarrow> absorb compress h (b @ bs) = absorb compress (compress h b) bs"
  by (simp add: absorb.simps [of compress h "b @ bs"])

lemma absorb_take_block:
  "64 \<le> length bs \<Longrightarrow>
     absorb compress h bs = absorb compress (compress h (take 64 bs)) (drop 64 bs)"
  by (simp add: absorb.simps [of compress h bs])

lemma residue_drop_block: "64 \<le> length bs \<Longrightarrow> residue (drop 64 bs) = residue bs"
proof -
  assume le: "64 \<le> length bs"
  then have "(length bs - 64) mod 64 = length bs mod 64"
    by (simp add: le_mod_geq)
  moreover have "length bs mod 64 \<le> length bs - 64"
    using le calculation mod_less_eq_dividend [of "length bs - 64" 64] by simp
  ultimately show ?thesis
    using le by (simp add: residue_def algebra_simps)
qed

lemma absorb_append:
  "absorb compress h (xs @ ys) = absorb compress (absorb compress h xs) (residue xs @ ys)"
proof (induction "length xs" arbitrary: xs h rule: less_induct)
  case less
  show ?case
  proof (cases "length xs < 64")
    case True
    then show ?thesis by (simp add: absorb_short)
  next
    case False
    then have "absorb compress (compress h (take 64 xs)) (drop 64 xs @ ys)
      = absorb compress (absorb compress (compress h (take 64 xs)) (drop 64 xs))
          (residue (drop 64 xs) @ ys)"
      by (intro less) simp
    with False show ?thesis
      by (simp add: residue_drop_block absorb_take_block [of xs] absorb_take_block [of "xs @ ys"])
  qed
qed

lemma residue_append: "residue (residue xs @ ys) = residue (xs @ ys)"
proof (induction "length xs" arbitrary: xs rule: less_induct)
  case less
  show ?case
  proof (cases "length xs < 64")
    case True
    then show ?thesis by simp
  next
    case False
    then have "residue (residue (drop 64 xs) @ ys) = residue (drop 64 xs @ ys)"
      by (intro less) simp
    with False show ?thesis
      using residue_drop_block [of "xs @ ys"] by (simp add: residue_drop_block)
  qed
qed

lemma absorb_whole:
  assumes "64 dvd length bs"
  shows "absorb compress h (bs @ ys) = absorb compress (absorb compress h bs) ys"
proof -
  have "residue bs = []" using assms by (simp add: residue_def dvd_imp_mod_0)
  then show ?thesis by (simp add: absorb_append [of _ _ bs])
qed

lemma length_append_mod: "length (residue xs @ ys) mod 64 = length (xs @ ys) mod 64"
  by (simp add: mod_add_left_eq)

end
