(* ===== verification/Encoding.thy ===== *)
theory Encoding
  imports Tap_Prelude
begin

text \<open>
  Text encodings of \<^verbatim>\<open>source/base\<close>: the hexadecimal, binary and Base64 strings of
  \<^verbatim>\<open>base64.cpp\<close> that the tracker signs its uploads with, the hexadecimal printing shared by
  \<^verbatim>\<open>sha1.cpp\<close> and \<^verbatim>\<open>md5.cpp\<close>, the suffix test of \<^verbatim>\<open>common_funcs.h\<close>, the alignment
  helpers of \<^verbatim>\<open>alignment.h\<close>, the web paths of \<^verbatim>\<open>types.h\<close> and the random identifiers of
  \<^verbatim>\<open>uuid.cpp\<close>.
\<close>

section \<open>base64.cpp\<close>

definition Base64EncodeMap :: string where
  "Base64EncodeMap =
     ''ABCDEFGHIJKLMNOPQRSTUVWXYZ'' @ ''abcdefghijklmnopqrstuvwxyz'' @ ''0123456789+/''"

text \<open>
  \<open>BinToDecInt\<close> folds the digits of a binary string. The C++ accumulator is an \<^verbatim>\<open>int\<close>; the
  comment above the function restricts it to strings whose value fits, and its only caller
  passes six digits.
\<close>

definition BinToDecInt :: "string \<Rightarrow> int" where
  "BinToDecInt strBin = foldl (\<lambda>num c. num * 2 + (char_val c - char_val (CHR ''0''))) 0 strBin"

text \<open>The first loop of \<open>BinToBase64\<close>: append zeros up to a multiple of six digits.\<close>

function bin_pad :: "string \<Rightarrow> string" where
  "bin_pad binStr = (if length binStr mod 6 \<noteq> 0 then bin_pad (binStr @ ''0'') else binStr)"
  by pat_completeness auto
termination
proof (relation "measure (\<lambda>s. (6 - length s mod 6) mod 6)")
  fix s :: string
  assume "length s mod 6 \<noteq> 0"
  moreover have "length s mod 6 < 6" by simp
  ultimately show "(s @ ''0'', s) \<in> measure (\<lambda>s. (6 - length s mod 6) mod 6)"
    by (auto simp: mod_Suc)
qed simp

declare bin_pad.simps [simp del]

text \<open>
  The second loop: six digits at a time index the alphabet. A digit other than 0 and 1 can
  drive the index out of the table, which C++ leaves undefined: the model answers \<open>None\<close>.
\<close>

function base64_loop :: "nat \<Rightarrow> string \<Rightarrow> string \<Rightarrow> string option" where
  "base64_loop index binStr base64Str =
     (if index < length binStr then
        let tmp = take 6 (drop index binStr);
            num = BinToDecInt tmp
        in if 0 \<le> num \<and> num < 64
           then base64_loop (index + 6) binStr (base64Str @ [Base64EncodeMap ! nat num])
           else None
      else Some base64Str)"
  by pat_completeness auto
termination
  by (relation "measure (\<lambda>(i, s, acc). length s - i)") auto

declare base64_loop.simps [simp del]

definition BinToBase64 :: "string \<Rightarrow> string option" where
  "BinToBase64 binStr = map_option (\<lambda>s. s @ ''='') (base64_loop 0 (bin_pad binStr) [])"

text \<open>
  The two \<^verbatim>\<open>switch\<close> statements of \<open>HexToBin\<close>; the arms for \<^verbatim>\<open>f == 0\<close> and for later positions
  hold the same ten cases.
\<close>

definition hex_alpha_bits :: "int \<Rightarrow> string" where
  "hex_alpha_bits a =
     (if a = 10 then ''1010'' else if a = 11 then ''1011'' else if a = 12 then ''1100''
      else if a = 13 then ''1101'' else if a = 14 then ''1110'' else if a = 15 then ''1111''
      else [])"

definition hex_digit_bits :: "int \<Rightarrow> string" where
  "hex_digit_bits b =
     (if b = 0 then ''0000'' else if b = 1 then ''0001'' else if b = 2 then ''0010''
      else if b = 3 then ''0011'' else if b = 4 then ''0100'' else if b = 5 then ''0101''
      else if b = 6 then ''0110'' else if b = 7 then ''0111'' else if b = 8 then ''1000''
      else if b = 9 then ''1001'' else [])"

definition hex_char_bits :: "char \<Rightarrow> string" where
  "hex_char_bits e =
     (if char_val (CHR ''a'') \<le> char_val e \<and> char_val e \<le> char_val (CHR ''f'')
      then hex_alpha_bits (char_val e - char_val (CHR ''a'') + 10)
      else if char_val (CHR ''0'') \<le> char_val e \<and> char_val e \<le> char_val (CHR ''9'')
      then hex_digit_bits (char_val e - char_val (CHR ''0''))
      else [])"

definition HexToBin :: "string \<Rightarrow> string" where
  "HexToBin hexDight = foldl (\<lambda>binDight e. binDight @ hex_char_bits e) [] hexDight"

section \<open>Hexadecimal printing\<close>

definition dec2hex :: string where
  "dec2hex = ''0123456789abcdef''"

text \<open>The printing loop of \<^verbatim>\<open>SHA1::getHash()\<close>: the high nibble, then the low nibble.\<close>

definition hex_of_bytes :: "u8 list \<Rightarrow> string" where
  "hex_of_bytes bs =
     concat (map (\<lambda>b. [dec2hex ! unat (drop_bit 4 b AND 15), dec2hex ! unat (b AND 15)]) bs)"

section \<open>common\_funcs.h, alignment.h, types.h\<close>

definition EndWith :: "string \<Rightarrow> string \<Rightarrow> bool" where
  "EndWith str suffix \<longleftrightarrow>
     length suffix \<le> length str \<and> drop (length str - length suffix) str = suffix"

text \<open>
  \<open>AlignUp\<close> and \<open>AlignDown\<close> at an unsigned 64-bit type, where \<^verbatim>\<open>size_t\<close> arithmetic wraps.
  \<^verbatim>\<open>value % size\<close> traps for size zero: \<open>None\<close>.
\<close>

definition AlignUp :: "u64 \<Rightarrow> u64 \<Rightarrow> u64 option" where
  "AlignUp v sz =
     (if sz = 0 then None
      else let m = v mod sz; v' = v - m in Some (if m = 0 then v' else v' + sz))"

definition AlignDown :: "u64 \<Rightarrow> u64 \<Rightarrow> u64 option" where
  "AlignDown v sz = (if sz = 0 then None else Some (v - v mod sz))"

definition KB_literal :: "u64 \<Rightarrow> u64" where "KB_literal n = n * 1024"
definition MB_literal :: "u64 \<Rightarrow> u64" where "MB_literal n = KB_literal n * 1024"
definition GB_literal :: "u64 \<Rightarrow> u64" where "GB_literal n = MB_literal n * 1024"

definition WebPath_join :: "string \<Rightarrow> string \<Rightarrow> string" where
  "WebPath_join l r = l @ ''/'' @ r"

section \<open>uuid.cpp\<close>

text \<open>
  \<open>CreateUUID\<close> prints 31 draws of \<^verbatim>\<open>dis\<close> (uniform on 0..15) and one of \<^verbatim>\<open>dis2\<close> (uniform
  on 8..11) in hexadecimal. The draws are an argument, in the order of the source:
  \<open>gen\<close> gives the draws of \<^verbatim>\<open>dis\<close> and \<open>variant\<close> the draw of \<^verbatim>\<open>dis2\<close>.
\<close>

definition CreateUUID :: "(nat \<Rightarrow> nat) \<Rightarrow> nat \<Rightarrow> string" where
  "CreateUUID gen variant =
     (let h = (\<lambda>i. dec2hex ! gen i)
      in map h [0..<8] @ ''-'' @ map h [8..<12] @ ''-4'' @ map h [12..<15] @ ''-''
         @ [dec2hex ! variant] @ map h [15..<18] @ ''-'' @ map h [18..<30])"

section \<open>RFC 4648\<close>

text \<open>
  The reference: three bytes give four sextets; a final group of one or two bytes is padded
  with zero bits to a whole sextet, and the text with \<^verbatim>\<open>=\<close> to a multiple of four characters.
\<close>

text \<open>The alphabet of RFC 4648: the upper case letters, the lower case ones, the digits, plus and slash, by their codes.\<close>

definition sextet :: "nat \<Rightarrow> char" where
  "sextet n = char_of (if n < 26 then 65 + n else if n < 52 then 97 + (n - 26) else if n < 62 then 48 + (n - 52)
     else if n = 62 then 43 else 47)"

fun base64_body :: "u8 list \<Rightarrow> string" where
  "base64_body [] = []"
| "base64_body [a] = [sextet (unat a div 4), sextet (unat a mod 4 * 16)]"
| "base64_body [a, b] =
     [sextet (unat a div 4), sextet (unat a mod 4 * 16 + unat b div 16),
      sextet (unat b mod 16 * 4)]"
| "base64_body (a # b # c # bs) =
     [sextet (unat a div 4), sextet (unat a mod 4 * 16 + unat b div 16),
      sextet (unat b mod 16 * 4 + unat c div 64), sextet (unat c mod 64)] @ base64_body bs"

definition base64_ref :: "u8 list \<Rightarrow> string" where
  "base64_ref bs = base64_body bs @ replicate ((3 - length bs mod 3) mod 3) (CHR ''='')"

section \<open>Lemmas: binary strings\<close>

definition bin_digit :: "bool \<Rightarrow> char" where
  "bin_digit b = (if b then CHR ''1'' else CHR ''0'')"

definition byte_bits :: "u8 list \<Rightarrow> bool list" where
  "byte_bits bs = concat (map (\<lambda>b. bits_msb 8 (unat b)) bs)"

lemma char_val_digit [simp]:
  "char_val (bin_digit b) - char_val (CHR ''0'') = of_bool b"
  by (simp add: bin_digit_def char_val_def)

lemma BinToDecInt_digits: "BinToDecInt (map bin_digit bs) = int (bits_value bs)"
  by (induction bs rule: rev_induct) (simp_all add: BinToDecInt_def)

lemma hex_nibble_bits:
  "n < 16 \<Longrightarrow> hex_char_bits (dec2hex ! n) = map bin_digit (bits_msb 4 n)"
proof -
  have "\<forall>n\<in>set [0..<16]. hex_char_bits (dec2hex ! n) = map bin_digit (bits_msb 4 n)"
    by code_simp
  then show "n < 16 \<Longrightarrow> ?thesis" by simp
qed

lemma HexToBin_concat: "HexToBin s = concat (map hex_char_bits s)"
  by (induction s rule: rev_induct) (simp_all add: HexToBin_def)

lemma nibble_values:
  "unat ((b :: u8) AND 15) = unat b mod 16" "unat (drop_bit 4 b) mod 16 = unat b div 16"
proof -
  have "b AND 15 = take_bit 4 b"
    by (simp add: take_bit_eq_mask mask_eq_exp_minus_1)
  then show "unat (b AND 15) = unat b mod 16"
    by (simp only: unsigned_take_bit_eq) (simp add: take_bit_eq_mod)
  show "unat (drop_bit 4 b) mod 16 = unat b div 16"
    using unat_u8_less [of b] by (simp add: drop_bit_eq_div unat_div)
qed

lemma HexToBin_hex: "HexToBin (hex_of_bytes bs) = map bin_digit (byte_bits bs)"
proof (induction bs)
  case Nil
  then show ?case by (simp add: HexToBin_def hex_of_bytes_def byte_bits_def)
next
  case (Cons b bs)
  have "bits_msb 8 (unat b) = bits_msb 4 (unat b div 16) @ bits_msb 4 (unat b mod 16)"
    using bits_msb_add [of 4 4 "unat b"] bits_msb_mod [of 4 "unat b"] by simp
  moreover have "unat b div 16 < 16"
    using unat_u8_less [of b] by (simp add: less_mult_imp_div_less)
  ultimately show ?case
    using Cons
    unfolding hex_of_bytes_def byte_bits_def HexToBin_concat nibble_values
    by (simp add: hex_nibble_bits)
qed

lemma length_hex_of_bytes [simp]: "length (hex_of_bytes bs) = 2 * length bs"
  by (induction bs) (simp_all add: hex_of_bytes_def)

lemma length_byte_bits [simp]: "length (byte_bits bs) = 8 * length bs"
  by (induction bs) (simp_all add: byte_bits_def)

lemma bin_pad_eq:
  "bin_pad s = s @ replicate ((6 - length s mod 6) mod 6) (CHR ''0'')"
proof (induction s rule: bin_pad.induct)
  case (1 s)
  show ?case
  proof (cases "length s mod 6 = 0")
    case True
    then show ?thesis by (simp add: bin_pad.simps [of s])
  next
    case False
    moreover have "length s mod 6 < 6" by simp
    ultimately have "(6 - length s mod 6) mod 6 = Suc ((6 - Suc (length s) mod 6) mod 6)"
      by (auto simp: mod_Suc)
    with 1 False show ?thesis by (simp add: bin_pad.simps [of s])
  qed
qed

lemma Base64EncodeMap_sextet:
  assumes "n < 64"
  shows "Base64EncodeMap ! n = sextet n"
proof -
  have "Base64EncodeMap = map sextet [0..<64]" by code_simp
  moreover have "map sextet [0..<64] ! n = sextet ([0..<64] ! n)" by (rule nth_map) (use assms in simp)
  moreover have "[0..<64] ! n = n" using nth_upt [of 0 n 64] assms by simp
  ultimately show ?thesis by metis
qed

lemma base64_loop_chunks:
  assumes "6 dvd length bs"
  shows "base64_loop i (map bin_digit bs) acc
       = Some (acc @ map (\<lambda>c. sextet (bits_value c)) (chunks 6 (drop i bs)))"
proof (induction "length bs - i" arbitrary: i acc rule: less_induct)
  case less
  show ?case
  proof (cases "i < length bs")
    case False
    then show ?thesis by (simp add: base64_loop.simps [of i])
  next
    case True
    let ?c = "take 6 (drop i bs)"
    have "length bs - (i + 6) < length bs - i" using True by simp
    from less [OF this] have IH: "base64_loop (i + 6) (map bin_digit bs) a
        = Some (a @ map (\<lambda>c. sextet (bits_value c)) (chunks 6 (drop (i + 6) bs)))" for a .
    have num: "BinToDecInt (take 6 (drop i (map bin_digit bs))) = int (bits_value ?c)"
      by (simp add: take_map drop_map BinToDecInt_digits)
    have "bits_value ?c < 2 ^ length ?c" by (rule bits_value_bound)
    also have "\<dots> \<le> 2 ^ 6" by (intro power_increasing) auto
    finally have lt: "bits_value ?c < 64" by simp
    have ch: "chunks 6 (drop i bs) = ?c # chunks 6 (drop (i + 6) bs)"
      using True by (simp add: chunks.simps [of 6 "drop i bs"] add.commute)
    show ?thesis
      using True lt by (simp add: base64_loop.simps [of i] num IH ch Base64EncodeMap_sextet Let_def)
  qed
qed

section \<open>Lemmas: sextets of bytes\<close>

lemma chunks6_cons: "length s = 6 \<Longrightarrow> chunks 6 (s @ t) = s # chunks 6 t"
  by (auto simp: chunks.simps [of 6 "s @ t"])

lemma sextets_of_three:
  "map bits_value (chunks 6 (byte_bits [a, b, c] @ t)) =
     [unat a div 4, unat a mod 4 * 16 + unat b div 16,
      unat b mod 16 * 4 + unat c div 64, unat c mod 64] @ map bits_value (chunks 6 t)"
proof -
  have a: "bits_msb 8 (unat a) = bits_msb 6 (unat a div 4) @ bits_msb 2 (unat a)"
    using bits_msb_add [of 6 2 "unat a"] by simp
  have b: "bits_msb 8 (unat b) = bits_msb 4 (unat b div 16) @ bits_msb 4 (unat b)"
    using bits_msb_add [of 4 4 "unat b"] by simp
  have c: "bits_msb 8 (unat c) = bits_msb 2 (unat c div 64) @ bits_msb 6 (unat c)"
    using bits_msb_add [of 2 6 "unat c"] by simp
  have lt: "unat a div 4 < 64" "unat b div 16 < 16" "unat c div 64 < 4"
    using unat_u8_less [of a] unat_u8_less [of b] unat_u8_less [of c] by auto
  have "byte_bits [a, b, c] @ t =
      bits_msb 6 (unat a div 4) @ (bits_msb 2 (unat a) @ bits_msb 4 (unat b div 16))
      @ (bits_msb 4 (unat b) @ bits_msb 2 (unat c div 64)) @ bits_msb 6 (unat c) @ t"
    unfolding byte_bits_def by (simp only: list.map concat.simps a b c append_assoc append_Nil)
  then show ?thesis
    using lt by (simp only: chunks6_cons length_append length_bits_msb list.map
        bits_value_append bits_value_msb) simp
qed

lemma byte_bits_Cons: "byte_bits (b # bs) = bits_msb 8 (unat b) @ byte_bits bs"
  by (simp add: byte_bits_def)

lemma bits_value_zeros [simp]: "bits_value (replicate k False) = 0"
  by (induction k) (simp_all flip: replicate_append_same)

lemma sextets_of_one:
  "map bits_value (chunks 6 (byte_bits [a] @ replicate 4 False)) =
     [unat a div 4, unat a mod 4 * 16]"
proof -
  have "byte_bits [a] @ replicate 4 False =
      bits_msb 6 (unat a div 4) @ (bits_msb 2 (unat a) @ replicate 4 False) @ []"
    using bits_msb_add [of 6 2 "unat a"] by (simp add: byte_bits_def)
  moreover have "unat a div 4 < 64"
    using unat_u8_less [of a] by auto
  ultimately show ?thesis
    by (simp only: chunks6_cons length_append length_bits_msb length_replicate list.map
        bits_value_append bits_value_msb bits_value_zeros chunks_Nil) simp
qed

lemma sextets_of_two:
  "map bits_value (chunks 6 (byte_bits [a, b] @ replicate 2 False)) =
     [unat a div 4, unat a mod 4 * 16 + unat b div 16, unat b mod 16 * 4]"
proof -
  have "byte_bits [a, b] @ replicate 2 False =
      bits_msb 6 (unat a div 4) @ (bits_msb 2 (unat a) @ bits_msb 4 (unat b div 16))
      @ (bits_msb 4 (unat b) @ replicate 2 False) @ []"
    using bits_msb_add [of 6 2 "unat a"] bits_msb_add [of 4 4 "unat b"]
    by (simp add: byte_bits_def)
  moreover have "unat a div 4 < 64" "unat b div 16 < 16"
    using unat_u8_less [of a] unat_u8_less [of b] by auto
  ultimately show ?thesis
    by (simp only: chunks6_cons length_append length_bits_msb length_replicate list.map
        bits_value_append bits_value_msb bits_value_zeros chunks_Nil) simp
qed

lemma base64_body_chunks:
  "map (\<lambda>c. sextet (bits_value c))
     (chunks 6 (byte_bits bs @ replicate ((6 - 8 * length bs mod 6) mod 6) False))
   = base64_body bs"
proof (induction bs rule: base64_body.induct)
  case 1
  then show ?case by (simp add: byte_bits_def)
next
  case (2 a)
  have "map sextet (map bits_value (chunks 6 (byte_bits [a] @ replicate 4 False)))
      = base64_body [a]"
    unfolding sextets_of_one by simp
  then show ?case by (simp add: comp_def)
next
  case (3 a b)
  have "map sextet (map bits_value (chunks 6 (byte_bits [a, b] @ replicate 2 False)))
      = base64_body [a, b]"
    unfolding sextets_of_two by simp
  then show ?case by (simp add: comp_def)
next
  case (4 a b c bs)
  let ?t = "byte_bits bs @ replicate ((6 - 8 * length bs mod 6) mod 6) False"
  have pad: "(6 - 8 * length (a # b # c # bs) mod 6) mod 6 = (6 - 8 * length bs mod 6) mod 6"
    by (simp add: mod_add_eq [symmetric, of 24])
  have "map sextet (map bits_value (chunks 6 (byte_bits [a, b, c] @ ?t)))
      = base64_body (a # b # c # bs)"
    unfolding sextets_of_three using 4 by (simp add: comp_def)
  then show ?case unfolding pad by (simp add: comp_def byte_bits_def)
qed

lemma HexToBin_BinToBase64:
  "BinToBase64 (HexToBin (hex_of_bytes bs)) = Some (base64_body bs @ ''='')"
proof -
  let ?z = "(6 - 8 * length bs mod 6) mod 6"
  have "bin_pad (HexToBin (hex_of_bytes bs)) = map bin_digit (byte_bits bs @ replicate ?z False)"
    by (simp add: HexToBin_hex bin_pad_eq map_replicate bin_digit_def)
  moreover have "6 dvd length (byte_bits bs @ replicate ?z False)"
    using dvd_pad [of 6 "8 * length bs"] by simp
  ultimately show ?thesis
    using base64_loop_chunks [of "byte_bits bs @ replicate ?z False" 0 "[]"]
    by (simp add: BinToBase64_def base64_body_chunks)
qed

section \<open>Properties\<close>

text \<open>
  C31: the Base64 text of a digest. \<open>HashHmac\<close> (\<^verbatim>\<open>tracker_impl.cpp\<close>) turns the hexadecimal digest
  into binary digits with \<open>HexToBin\<close> and those into Base64 with \<open>BinToBase64\<close>. For a digest of
  any length that is two more than a multiple of three bytes, such as the 20 bytes of
  SHA-1, the result is exactly the RFC 4648 encoding of the raw digest bytes.
\<close>

theorem base64_of_digest:
  assumes "length digest mod 3 = 2"
  shows "BinToBase64 (HexToBin (hex_of_bytes digest)) = Some (base64_ref digest)"
  using assms by (simp add: HexToBin_BinToBase64 base64_ref_def)

theorem base64_of_digest_witness:
  "length [77, 97 :: u8] mod 3 = 2 \<and>
   BinToBase64 (HexToBin (hex_of_bytes [77, 97])) = Some ''TWE=''"
proof -
  have "base64_ref [77, 97] = ''TWE=''" by code_simp
  then show ?thesis using base64_of_digest [of "[77, 97]"] by simp
qed

text \<open>
  Outside that case the padding is wrong. \<open>BinToBase64\<close> appends one \<^verbatim>\<open>=\<close> whatever the
  length, so its result for the hexadecimal form of a byte string is the RFC 4648 text
  exactly when the byte count is two more than a multiple of three.
\<close>

theorem base64_padding_only_for_two:
  "BinToBase64 (HexToBin (hex_of_bytes bs)) = Some (base64_ref bs) \<longleftrightarrow> length bs mod 3 = 2"
proof -
  have "length bs mod 3 < 3" by simp
  then have "length bs mod 3 = 0 \<or> length bs mod 3 = 1 \<or> length bs mod 3 = 2" by linarith
  then show ?thesis by (auto simp: HexToBin_BinToBase64 base64_ref_def numeral_2_eq_2)
qed

text \<open>
  \<open>AlignDown\<close> and \<open>AlignUp\<close> round to the nearest multiples below and above the value, as
  long as rounding up stays in the 64-bit range.
\<close>

lemma AlignDown_value:
  assumes "sz \<noteq> 0" and "AlignDown v sz = Some d"
  shows "unat d = unat v - unat v mod unat sz"
proof -
  have "v mod sz \<le> v" by (simp add: word_le_nat_alt unat_mod)
  with assms show ?thesis by (auto simp: AlignDown_def unat_sub unat_mod)
qed

lemma AlignUp_value:
  assumes "unat v + unat sz < 2 ^ 64" and "sz \<noteq> 0" and "AlignUp v sz = Some u"
  shows "unat u = (if unat v mod unat sz = 0 then unat v
                   else unat v - unat v mod unat sz + unat sz)"
proof -
  have le: "v mod sz \<le> v" by (simp add: word_le_nat_alt unat_mod)
  have d: "unat (v - v mod sz) = unat v - unat v mod unat sz"
    by (simp only: unat_sub [OF le] unat_mod)
  have z: "v mod sz = 0 \<longleftrightarrow> unat v mod unat sz = 0"
    by (metis unat_mod unsigned_0 unsigned_word_eqI)
  have "unat (v - v mod sz + sz) = unat v - unat v mod unat sz + unat sz"
    using assms(1) by (simp add: unat_word_ariths(1) d)
  with assms d z show ?thesis by (auto simp: AlignUp_def Let_def)
qed

lemma length_CreateUUID [simp]: "length (CreateUUID gen variant) = 36"
  by (simp add: CreateUUID_def Let_def)

end
