(* ===== verification/Sha1.thy ===== *)
theory Sha1
  imports Md_Blocks Encoding
begin

text \<open>
  \<^verbatim>\<open>source/base/sha1.cpp\<close>: the streaming SHA-1 object the tracker's HMAC is computed with.
  The model keeps the object's four fields and every loop of its methods; the array
  \<^verbatim>\<open>m_buffer\<close> starts uninitialised, so the constructor takes its first content as an argument.
  The reference is FIPS 180-4: eighty uniform rounds per block over the padded message.
\<close>

section \<open>The object\<close>

record SHA1 =
  m_numBytes :: u64
  m_bufferSize :: nat
  m_buffer :: "u8 list"
  m_hash :: "u32 list"

definition SHA1_init :: "u32 list" where
  "SHA1_init = [0x67452301, 0xefcdab89, 0x98badcfe, 0x10325476, 0xc3d2e1f0]"

definition SHA1_reset :: "SHA1 \<Rightarrow> SHA1" where
  "SHA1_reset st = st\<lparr>m_numBytes := 0, m_bufferSize := 0, m_hash := SHA1_init\<rparr>"

definition SHA1_new :: "u8 list \<Rightarrow> SHA1" where
  "SHA1_new junk =
     SHA1_reset \<lparr>m_numBytes = 0, m_bufferSize = 0, m_buffer = junk, m_hash = []\<rparr>"

section \<open>Mixing functions\<close>

definition sha_f1 :: "u32 \<Rightarrow> u32 \<Rightarrow> u32 \<Rightarrow> u32" where
  "sha_f1 b c d = d XOR (b AND (c XOR d))"

definition sha_f2 :: "u32 \<Rightarrow> u32 \<Rightarrow> u32 \<Rightarrow> u32" where
  "sha_f2 b c d = b XOR c XOR d"

definition sha_f3 :: "u32 \<Rightarrow> u32 \<Rightarrow> u32 \<Rightarrow> u32" where
  "sha_f3 b c d = (b AND c) OR (b AND d) OR (c AND d)"

definition rotate32 :: "u32 \<Rightarrow> nat \<Rightarrow> u32" where
  "rotate32 a c = push_bit c a OR drop_bit (32 - c) a"

definition sha_swap :: "u32 \<Rightarrow> u32" where
  "sha_swap x = drop_bit 24 x OR (drop_bit 8 x AND 0x0000FF00)
     OR (push_bit 8 x AND 0x00FF0000) OR push_bit 24 x"

text \<open>A 32-bit load at byte offset \<open>i\<close>, on the little-endian targets of the SDK.\<close>

definition load32 :: "u8 list \<Rightarrow> nat \<Rightarrow> u32" where
  "load32 bs i = of_nat (le_value (take 4 (drop i bs)))"

section \<open>processBlock\<close>

definition sha_words16 :: "u8 list \<Rightarrow> u32 list" where
  "sha_words16 block = map (\<lambda>i. sha_swap (load32 block (4 * i))) [0..<16]"

definition sha_extend_step :: "u32 list \<Rightarrow> nat \<Rightarrow> u32 list" where
  "sha_extend_step w i =
     w @ [rotate32 (w ! (i - 3) XOR w ! (i - 8) XOR w ! (i - 14) XOR w ! (i - 16)) 1]"

definition sha_words80 :: "u8 list \<Rightarrow> u32 list" where
  "sha_words80 block = foldl sha_extend_step (sha_words16 block) [16..<80]"

type_synonym sha_regs = "u32 \<times> u32 \<times> u32 \<times> u32 \<times> u32"

text \<open>One iteration of a round's loop: five steps with the five registers in rotated roles.\<close>

definition sha_quint ::
    "(u32 \<Rightarrow> u32 \<Rightarrow> u32 \<Rightarrow> u32) \<Rightarrow> u32 \<Rightarrow> u32 list \<Rightarrow> sha_regs \<Rightarrow> nat \<Rightarrow> sha_regs" where
  "sha_quint f k w r i =
     (let (a, b, c, d, e) = r;
          offset = 5 * i;
          e = e + (rotate32 a 5 + f b c d + w ! offset + k);
          b = rotate32 b 30;
          d = d + (rotate32 e 5 + f a b c + w ! (offset + 1) + k);
          a = rotate32 a 30;
          c = c + (rotate32 d 5 + f e a b + w ! (offset + 2) + k);
          e = rotate32 e 30;
          b = b + (rotate32 c 5 + f d e a + w ! (offset + 3) + k);
          d = rotate32 d 30;
          a = a + (rotate32 b 5 + f c d e + w ! (offset + 4) + k);
          c = rotate32 c 30
      in (a, b, c, d, e))"

definition sha_rounds :: "u32 list \<Rightarrow> sha_regs \<Rightarrow> sha_regs" where
  "sha_rounds w r =
     foldl (sha_quint sha_f2 0xca62c1d6 w)
      (foldl (sha_quint sha_f3 0x8f1bbcdc w)
       (foldl (sha_quint sha_f2 0x6ed9eba1 w)
        (foldl (sha_quint sha_f1 0x5a827999 w) r [0..<4]) [4..<8]) [8..<12]) [12..<16]"

definition sha_update :: "u32 list \<Rightarrow> sha_regs \<Rightarrow> u32 list" where
  "sha_update h r =
     (let (a, b, c, d, e) = r
      in [h ! 0 + a, h ! 1 + b, h ! 2 + c, h ! 3 + d, h ! 4 + e])"

definition sha_compress :: "u32 list \<Rightarrow> u8 list \<Rightarrow> u32 list" where
  "sha_compress h block =
     sha_update h (sha_rounds (sha_words80 block) (h ! 0, h ! 1, h ! 2, h ! 3, h ! 4))"

definition SHA1_processBlock :: "SHA1 \<Rightarrow> u8 list \<Rightarrow> SHA1" where
  "SHA1_processBlock st data = st\<lparr>m_hash := sha_compress (m_hash st) data\<rparr>"

section \<open>add\<close>

text \<open>The loop that fills a partly filled buffer, one byte at a time.\<close>

fun SHA1_fill :: "SHA1 \<Rightarrow> u8 list \<Rightarrow> SHA1 \<times> u8 list" where
  "SHA1_fill st [] = (st, [])"
| "SHA1_fill st (x # xs) =
     (if m_bufferSize st < 64
      then SHA1_fill (st\<lparr>m_buffer := (m_buffer st)[m_bufferSize st := x],
                         m_bufferSize := m_bufferSize st + 1\<rparr>) xs
      else (st, x # xs))"

text \<open>The loop over full blocks.\<close>

fun SHA1_blocks :: "SHA1 \<Rightarrow> u8 list \<Rightarrow> SHA1 \<times> u8 list" where
  "SHA1_blocks st current =
     (if 64 \<le> length current
      then SHA1_blocks
             ((SHA1_processBlock st (take 64 current))\<lparr>m_numBytes := m_numBytes st + 64\<rparr>)
             (drop 64 current)
      else (st, current))"

declare SHA1_blocks.simps [simp del]

text \<open>The last loop keeps the remaining bytes.\<close>

fun SHA1_keep :: "SHA1 \<Rightarrow> u8 list \<Rightarrow> SHA1" where
  "SHA1_keep st [] = st"
| "SHA1_keep st (x # xs) =
     SHA1_keep (st\<lparr>m_buffer := (m_buffer st)[m_bufferSize st := x],
                   m_bufferSize := m_bufferSize st + 1\<rparr>) xs"

definition SHA1_add :: "SHA1 \<Rightarrow> u8 list \<Rightarrow> SHA1" where
  "SHA1_add st data =
     (let (st, current) = (if 0 < m_bufferSize st then SHA1_fill st data else (st, data));
          st = (if m_bufferSize st = 64
                then (SHA1_processBlock st (m_buffer st))
                       \<lparr>m_numBytes := m_numBytes st + 64, m_bufferSize := 0\<rparr>
                else st)
      in if current = [] then st
         else let (st, current) = SHA1_blocks st current in SHA1_keep st current)"

section \<open>processBuffer and getHash\<close>

definition sha_padded_length :: "nat \<Rightarrow> nat" where
  "sha_padded_length bufferSize =
     (let paddedLength = bufferSize * 8 + 1;
          lower11Bits = paddedLength mod 512;
          paddedLength = (if lower11Bits \<le> 448 then paddedLength + (448 - lower11Bits)
                          else paddedLength + (512 + 448 - lower11Bits))
      in paddedLength div 8)"

definition sha_length_bytes :: "u64 \<Rightarrow> u8 list" where
  "sha_length_bytes msgBits =
     map (\<lambda>s. ucast (drop_bit s msgBits AND 0xFF)) [56, 48, 40, 32, 24, 16, 8, 0]"

fun store_bytes :: "'a list \<Rightarrow> nat \<Rightarrow> 'a list \<Rightarrow> 'a list" where
  "store_bytes buf i [] = buf"
| "store_bytes buf i (x # xs) = store_bytes (buf[i := x]) (Suc i) xs"

text \<open>
  \<open>extra\<close> is the second, uninitialised block of \<^verbatim>\<open>processBuffer\<close>; \<open>junk\<close> is what it holds at
  entry. The loops that write zeros run over \<open>m_buffer[m_bufferSize + 1 ..< 64]\<close> and over
  \<open>extra[.. < paddedLength - 64]\<close>, starting where the first one stopped.
\<close>

definition SHA1_processBuffer :: "u8 list \<Rightarrow> SHA1 \<Rightarrow> SHA1" where
  "SHA1_processBuffer junk st =
     (let n = m_bufferSize st;
          paddedLength = sha_padded_length n;
          buf = (if n < 64 then (m_buffer st)[n := 128] else m_buffer st);
          extra = (if n < 64 then junk else junk[0 := 128]);
          i = max 64 (n + 1);
          buf = store_bytes buf (n + 1) (replicate (64 - (n + 1)) 0);
          extra = store_bytes extra (i - 64) (replicate (paddedLength - i) 0);
          msgBits = 8 * (m_numBytes st + of_nat n);
          buf = (if paddedLength < 64
                 then store_bytes buf paddedLength (sha_length_bytes msgBits) else buf);
          extra = (if paddedLength < 64 then extra
                   else store_bytes extra (paddedLength - 64) (sha_length_bytes msgBits));
          st = SHA1_processBlock (st\<lparr>m_buffer := buf\<rparr>) buf
      in if paddedLength > 64 then SHA1_processBlock st extra else st)"

definition sha_be_bytes :: "u32 \<Rightarrow> u8 list" where
  "sha_be_bytes w =
     [ucast (drop_bit 24 w AND 0xFF), ucast (drop_bit 16 w AND 0xFF),
      ucast (drop_bit 8 w AND 0xFF), ucast (w AND 0xFF)]"

definition SHA1_getHash_raw :: "u8 list \<Rightarrow> SHA1 \<Rightarrow> u8 list \<times> SHA1" where
  "SHA1_getHash_raw junk st =
     (let oldHash = m_hash st;
          st' = SHA1_processBuffer junk st
      in (concat (map sha_be_bytes (m_hash st')), st'\<lparr>m_hash := oldHash\<rparr>))"

definition SHA1_getHash :: "u8 list \<Rightarrow> SHA1 \<Rightarrow> string \<times> SHA1" where
  "SHA1_getHash junk st =
     (let (rawHash, st') = SHA1_getHash_raw junk st in (hex_of_bytes rawHash, st'))"

definition SHA1_call :: "u8 list \<Rightarrow> SHA1 \<Rightarrow> u8 list \<Rightarrow> string \<times> SHA1" where
  "SHA1_call junk st data = SHA1_getHash junk (SHA1_add (SHA1_reset st) data)"

section \<open>FIPS 180-4\<close>

definition fips_f :: "nat \<Rightarrow> u32 \<Rightarrow> u32 \<Rightarrow> u32 \<Rightarrow> u32" where
  "fips_f t x y z =
     (if t < 20 then (x AND y) XOR (NOT x AND z)
      else if t < 40 then x XOR y XOR z
      else if t < 60 then (x AND y) XOR (x AND z) XOR (y AND z)
      else x XOR y XOR z)"

definition fips_k :: "nat \<Rightarrow> u32" where
  "fips_k t = (if t < 20 then 0x5a827999 else if t < 40 then 0x6ed9eba1
               else if t < 60 then 0x8f1bbcdc else 0xca62c1d6)"

function fips_w :: "u8 list \<Rightarrow> nat \<Rightarrow> u32" where
  "fips_w block t =
     (if t < 16 then of_nat (le_value (rev (take 4 (drop (4 * t) block))))
      else word_rotl 1 (fips_w block (t - 3) XOR fips_w block (t - 8)
                        XOR fips_w block (t - 14) XOR fips_w block (t - 16)))"
  by pat_completeness auto
termination by (relation "measure snd") auto

declare fips_w.simps [simp del]

definition fips_step :: "u8 list \<Rightarrow> sha_regs \<Rightarrow> nat \<Rightarrow> sha_regs" where
  "fips_step block r t =
     (let (a, b, c, d, e) = r
      in (word_rotl 5 a + fips_f t b c d + e + fips_k t + fips_w block t,
          a, word_rotl 30 b, c, d))"

definition fips_compress :: "u32 list \<Rightarrow> u8 list \<Rightarrow> u32 list" where
  "fips_compress h block =
     (let (a, b, c, d, e) = foldl (fips_step block) (h ! 0, h ! 1, h ! 2, h ! 3, h ! 4) [0..<80]
      in [a + h ! 0, b + h ! 1, c + h ! 2, d + h ! 3, e + h ! 4])"

definition fips_init :: "u32 list" where
  "fips_init = [0x67452301, 0xefcdab89, 0x98badcfe, 0x10325476, 0xc3d2e1f0]"

definition sha1_ref :: "u8 list \<Rightarrow> u8 list" where
  "sha1_ref msg =
     concat (map (\<lambda>w. rev (le_digits 4 (unat w)))
       (absorb fips_compress fips_init
         (msg @ md_padding (length msg) (rev (le_digits 8 (8 * length msg))))))"

section \<open>The compression function\<close>

lemma rotate32_rotl: "0 < c \<Longrightarrow> c < 32 \<Longrightarrow> rotate32 a c = word_rotl c a"
proof (rule bit_word_eqI)
  fix n
  assume c: "0 < c" "c < 32" and n: "n < LENGTH(32)"
  have "(n + (32 - c)) mod 32 = (if n < c then n + (32 - c) else n - c)"
    using c n by (auto simp: mod_if)
  moreover have "\<not> bit a (n + (32 - c))" if "c \<le> n"
    using that c bit_imp_le_length [of a "n + (32 - c)"] by auto
  ultimately show "bit (rotate32 a c) n = bit (word_rotl c a) n"
    using c n by (auto simp: rotate32_def bit_simps add.commute [of "32 - c"])
qed

lemma sha_f_fips:
  "t < 20 \<Longrightarrow> sha_f1 x y z = fips_f t x y z"
  "20 \<le> t \<Longrightarrow> t < 40 \<Longrightarrow> sha_f2 x y z = fips_f t x y z"
  "40 \<le> t \<Longrightarrow> t < 60 \<Longrightarrow> sha_f3 x y z = fips_f t x y z"
  "60 \<le> t \<Longrightarrow> sha_f2 x y z = fips_f t x y z"
  by (auto intro!: bit_word_eqI simp: sha_f1_def sha_f2_def sha_f3_def fips_f_def bit_simps)

lemma le_word_Cons:
  "(of_nat (le_value (b # bs)) :: 'a::len word) = ucast b OR push_bit 8 (of_nat (le_value bs))"
proof -
  have "(of_nat (le_value (b # bs)) :: 'a word) = ucast b + push_bit 8 (of_nat (le_value bs))"
    by (simp add: push_bit_eq_mult of_nat_unat)
  also have "\<dots> = ucast b OR push_bit 8 (of_nat (le_value bs))"
    by (rule disjunctive_add) (auto simp: bit_simps dest: bit_imp_le_length)
  finally show ?thesis .
qed

lemma sha_swap_bytes:
  "sha_swap (of_nat (le_value [a, b, c, d])) = of_nat (le_value [d, c, b, a])"
proof (rule bit_word_eqI)
  fix n
  assume "n < LENGTH(32)"
  then have n: "n < 32" by simp
  have m: "(0x0000FF00 :: u32) = push_bit 8 (mask 8)" "(0x00FF0000 :: u32) = push_bit 16 (mask 8)"
    by (simp_all add: mask_eq_exp_minus_1 push_bit_eq_mult)
  consider "n < 8" | "8 \<le> n" "n < 16" | "16 \<le> n" "n < 24" | "24 \<le> n" "n < 32" using n by linarith
  then show "bit (sha_swap (of_nat (le_value [a, b, c, d]))) n = bit (of_nat (le_value [d, c, b, a]) :: u32) n"
    by cases (auto simp: sha_swap_def m le_word_Cons bit_simps le_value.simps(1) simp del: le_value.simps dest: bit_imp_le_length)
qed

lemma length4_cases:
  assumes "length xs = 4"
  obtains a b c d where "xs = [a, b, c, d]"
  using assms by (auto simp: length_Suc_conv numeral_eq_Suc)

lemma sha_swap_load:
  assumes "4 * i + 4 \<le> length block"
  shows "sha_swap (load32 block (4 * i)) = of_nat (le_value (rev (take 4 (drop (4 * i) block))))"
proof -
  have "length (take 4 (drop (4 * i) block)) = 4" using assms by simp
  then obtain a b c d where "take 4 (drop (4 * i) block) = [a, b, c, d]"
    by (rule length4_cases)
  then show ?thesis using sha_swap_bytes by (simp add: load32_def del: le_value.simps)
qed

lemma upt_four: "[k..<k + 4] = [k, k + 1, k + 2, k + 3 :: nat]"
  by (simp add: upt_rec)

lemma sha_quint_fips:
  assumes w: "\<And>j. j < 5 \<Longrightarrow> w ! (5 * i + j) = fips_w block (5 * i + j)"
    and f: "\<And>j x y z. j < 5 \<Longrightarrow> f x y z = fips_f (5 * i + j) x y z"
    and k: "\<And>j. j < 5 \<Longrightarrow> k = fips_k (5 * i + j)"
  shows "sha_quint f k w r i = foldl (fips_step block) r [5 * i..<5 * i + 5]"
proof -
  obtain a b c d e where r: "r = (a, b, c, d, e)" by (cases r) auto
  have u: "[5 * i..<5 * i + 5] = [5 * i, 5 * i + 1, 5 * i + 2, 5 * i + 3, 5 * i + 4]"
    by (simp add: upt_rec)
  have ww: "w ! (5 * i) = fips_w block (5 * i)" "w ! (5 * i + 1) = fips_w block (5 * i + 1)"
    "w ! (5 * i + 2) = fips_w block (5 * i + 2)" "w ! (5 * i + 3) = fips_w block (5 * i + 3)"
    "w ! (5 * i + 4) = fips_w block (5 * i + 4)"
    using w [of 0] w [of 1] w [of 2] w [of 3] w [of 4] by simp_all
  have ff: "fips_f (5 * i) = f" "fips_f (5 * i + 1) = f" "fips_f (5 * i + 2) = f"
    "fips_f (5 * i + 3) = f" "fips_f (5 * i + 4) = f"
    using f [of 0] f [of 1] f [of 2] f [of 3] f [of 4] by (simp_all add: fun_eq_iff)
  have kk: "fips_k (5 * i) = k" "fips_k (5 * i + 1) = k" "fips_k (5 * i + 2) = k"
    "fips_k (5 * i + 3) = k" "fips_k (5 * i + 4) = k"
    using k [of 0] k [of 1] k [of 2] k [of 3] k [of 4] by simp_all
  show ?thesis
    unfolding u r sha_quint_def fips_step_def foldl.simps Let_def prod.case ww ff kk
    by (simp add: rotate32_rotl ac_simps)
qed

lemma foldl_upt_append:
  "i \<le> j \<Longrightarrow> j \<le> k \<Longrightarrow> foldl f (foldl f r [i..<j]) [j..<k] = foldl f r [i..<k]"
  by (metis foldl_append le_Suc_ex upt_add_eq_append)

lemma sha_round_fips:
  assumes w: "\<And>t. t < 80 \<Longrightarrow> w ! t = fips_w block t"
    and f: "\<And>t x y z. 5 * m \<le> t \<Longrightarrow> t < 5 * N \<Longrightarrow> f x y z = fips_f t x y z"
    and k: "\<And>t. 5 * m \<le> t \<Longrightarrow> t < 5 * N \<Longrightarrow> k = fips_k t"
    and N: "N \<le> 16"
  shows "m \<le> n \<Longrightarrow> n \<le> N \<Longrightarrow>
     foldl (sha_quint f k w) r [m..<n] = foldl (fips_step block) r [5 * m..<5 * n]"
proof (induction n)
  case 0
  then show ?case by simp
next
  case (Suc n)
  show ?case
  proof (cases "m = Suc n")
    case True
    then show ?thesis by simp
  next
    case False
    with Suc.prems have "m \<le> n" by simp
    moreover have "sha_quint f k w r' n = foldl (fips_step block) r' [5 * n..<5 * n + 5]" for r'
      by (rule sha_quint_fips) (use Suc.prems \<open>m \<le> n\<close> N in \<open>auto intro!: w f k\<close>)
    moreover have "foldl (fips_step block) (foldl (fips_step block) r [5 * m..<5 * n])
        [5 * n..<5 * n + 5] = foldl (fips_step block) r [5 * m..<5 * Suc n]"
      using \<open>m \<le> n\<close> by (subst foldl_upt_append) (simp_all add: algebra_simps)
    ultimately show ?thesis using Suc by simp
  qed
qed

lemma sha_words80_prefix:
  "k \<le> 64 \<Longrightarrow> length block = 64 \<Longrightarrow>
   foldl sha_extend_step (sha_words16 block) [16..<16 + k] = map (fips_w block) [0..<16 + k]"
proof (induction k)
  case 0
  have "sha_words16 block ! i = fips_w block i" if "i < 16" for i
    using that 0 by (simp add: sha_words16_def fips_w.simps [of block i] sha_swap_load)
  then show ?case by (auto simp: sha_words16_def intro!: nth_equalityI)
next
  case (Suc k)
  have u: "[i..<16 + Suc k] = [i..<16 + k] @ [16 + k]" if "i \<le> 16" for i
    using that by (simp only: add_Suc_right upt_Suc) simp
  have "foldl sha_extend_step (sha_words16 block) [16..<16 + Suc k]
      = sha_extend_step (map (fips_w block) [0..<16 + k]) (16 + k)"
    using Suc by (simp only: u [OF order_refl] foldl_append foldl.simps)
  also have "\<dots> = map (fips_w block) [0..<16 + k] @ [fips_w block (16 + k)]"
    by (simp add: sha_extend_step_def fips_w.simps [of block "16 + k"] rotate32_rotl)
  also have "\<dots> = map (fips_w block) [0..<16 + Suc k]"
    by (simp only: u [OF zero_le] map_append list.map)
  finally show ?case .
qed

lemma sha_words80_fips: "length block = 64 \<Longrightarrow> t < 80 \<Longrightarrow> sha_words80 block ! t = fips_w block t"
  using sha_words80_prefix [of 64 block] by (simp add: sha_words80_def)

lemma sha_compress_fips: "length block = 64 \<Longrightarrow> sha_compress h block = fips_compress h block"
proof -
  assume len: "length block = 64"
  note w = sha_words80_fips [OF len]
  let ?w = "sha_words80 block" and ?F = "foldl (fips_step block)"
  have 1: "foldl (sha_quint sha_f1 0x5a827999 ?w) r [0..<4] = ?F r [0..<20]" for r
    using sha_round_fips [OF w, of 0 4 sha_f1 "0x5a827999" 4 r] by (simp add: sha_f_fips(1) fips_k_def)
  have 2: "foldl (sha_quint sha_f2 0x6ed9eba1 ?w) r [4..<8] = ?F r [20..<40]" for r
    using sha_round_fips [OF w, of 4 8 sha_f2 "0x6ed9eba1" 8 r] by (simp add: sha_f_fips(2) fips_k_def)
  have 3: "foldl (sha_quint sha_f3 0x8f1bbcdc ?w) r [8..<12] = ?F r [40..<60]" for r
    using sha_round_fips [OF w, of 8 12 sha_f3 "0x8f1bbcdc" 12 r] by (simp add: sha_f_fips(3) fips_k_def)
  have 4: "foldl (sha_quint sha_f2 0xca62c1d6 ?w) r [12..<16] = ?F r [60..<80]" for r
    using sha_round_fips [OF w, of 12 16 sha_f2 "0xca62c1d6" 16 r] by (simp add: sha_f_fips(4) fips_k_def)
  have j: "?F (?F r [0..<20]) [20..<40] = ?F r [0..<40]" "?F (?F r [0..<40]) [40..<60] = ?F r [0..<60]"
    "?F (?F r [0..<60]) [60..<80] = ?F r [0..<80]" for r
    by (rule foldl_upt_append; simp)+
  have "sha_rounds ?w r = ?F r [0..<80]" for r
    unfolding sha_rounds_def 1 2 3 4 j ..
  then show ?thesis by (simp add: sha_compress_def fips_compress_def sha_update_def add.commute split_beta Let_def)
qed

section \<open>Streaming\<close>

text \<open>The object stands for the message absorbed so far.\<close>

definition sha_repr :: "SHA1 \<Rightarrow> u8 list \<Rightarrow> bool" where
  "sha_repr st msg \<longleftrightarrow>
     length (m_buffer st) = 64 \<and> m_bufferSize st = length msg mod 64
     \<and> take (length msg mod 64) (m_buffer st) = residue msg
     \<and> m_hash st = absorb sha_compress SHA1_init msg
     \<and> m_numBytes st = of_nat (length msg - length msg mod 64)"

lemma store_bytes_eq:
  "i + length xs \<le> length buf \<Longrightarrow>
     store_bytes buf i xs = take i buf @ xs @ drop (i + length xs) buf"
proof (induction buf i xs rule: store_bytes.induct)
  case (1 buf i)
  then show ?case by simp
next
  case (2 buf i x xs)
  then show ?case
    by (simp add: take_Suc_conv_app_nth drop_update_cancel) 
qed

lemma SHA1_fill_eq:
  assumes "m_bufferSize st \<le> 64" and "length (m_buffer st) = 64"
  shows "SHA1_fill st xs =
     (st\<lparr>m_buffer := store_bytes (m_buffer st) (m_bufferSize st) (take (64 - m_bufferSize st) xs),
         m_bufferSize := m_bufferSize st + min (64 - m_bufferSize st) (length xs)\<rparr>,
      drop (64 - m_bufferSize st) xs)"
  using assms
proof (induction st xs rule: SHA1_fill.induct)
  case (1 st)
  then show ?case by simp
next
  case (2 st x xs)
  show ?case
  proof (cases "m_bufferSize st < 64")
    case True
    then have "64 - m_bufferSize st = Suc (63 - m_bufferSize st)" by simp
    with 2 True show ?thesis by simp
  next
    case False
    with 2 show ?thesis by simp
  qed
qed

lemma SHA1_keep_eq:
  "SHA1_keep st xs = st\<lparr>m_buffer := store_bytes (m_buffer st) (m_bufferSize st) xs,
                        m_bufferSize := m_bufferSize st + length xs\<rparr>"
  by (induction st xs rule: SHA1_keep.induct) simp_all

lemma SHA1_blocks_eq:
  "SHA1_blocks st xs =
     (st\<lparr>m_hash := absorb sha_compress (m_hash st) xs,
         m_numBytes := m_numBytes st + of_nat (length xs - length xs mod 64)\<rparr>, residue xs)"
proof (induction st xs rule: SHA1_blocks.induct)
  case (1 st xs)
  show ?case
  proof (cases "64 \<le> length xs")
    case False
    then show ?thesis by (simp add: SHA1_blocks.simps [of st xs] absorb_short)
  next
    case True
    have "(length xs - 64) mod 64 = length xs mod 64" using True by (simp add: le_mod_geq)
    moreover have "length xs - length xs mod 64 = 64 + (length xs - 64 - length xs mod 64)"
      using True calculation mod_less_eq_dividend [of "length xs - 64" 64] by simp
    ultimately show ?thesis
      using True 1 by (simp add: SHA1_blocks.simps [of st xs] absorb_take_block [of xs] residue_drop_block
          SHA1_processBlock_def)
  qed
qed

lemma take_store_bytes:
  "i + length xs \<le> length buf \<Longrightarrow> take (i + length xs) (store_bytes buf i xs) = take i buf @ xs"
  by (simp add: store_bytes_eq)

lemma length_store_bytes [simp]: "length (store_bytes buf i xs) = length buf"
  by (induction buf i xs rule: store_bytes.induct) simp_all

lemma sha_repr_new: "length junk = 64 \<Longrightarrow> sha_repr (SHA1_new junk) []"
  by (simp add: sha_repr_def SHA1_new_def SHA1_reset_def absorb_short)

lemma sha_repr_add_empty:
  assumes "sha_repr st msg" and "m_bufferSize st = 0" and "data \<noteq> []"
  shows "sha_repr (let (st, current) = SHA1_blocks st data in SHA1_keep st current) (msg @ data)"
proof -
  have msg: "length msg mod 64 = 0" "residue msg = []"
    using assms by (auto simp: sha_repr_def residue_def)
  have len: "length (msg @ data) mod 64 = length data mod 64"
    using msg by (simp add: mod_add_left_eq [symmetric])
  have "absorb sha_compress SHA1_init (msg @ data) = absorb sha_compress (m_hash st) data"
    using assms msg by (simp add: absorb_append [of _ _ msg] sha_repr_def)
  moreover have "residue (msg @ data) = residue data"
    using residue_append [of msg data] msg by simp
  moreover have "length (msg @ data) - length data mod 64 = length msg + (length data - length data mod 64)"
    by simp
  ultimately show ?thesis
    using assms msg len take_store_bytes [of 0 "residue data" "m_buffer st"]
    by (simp add: SHA1_blocks_eq SHA1_keep_eq sha_repr_def)
qed

lemma sha_repr_extend:
  assumes "sha_repr st msg" and "m_bufferSize st + length d < 64"
  shows "sha_repr (st\<lparr>m_buffer := store_bytes (m_buffer st) (m_bufferSize st) d,
                      m_bufferSize := m_bufferSize st + length d\<rparr>) (msg @ d)"
proof -
  have n: "length msg mod 64 + length d < 64" using assms by (simp add: sha_repr_def)
  have m: "length (msg @ d) mod 64 = length msg mod 64 + length d"
    using n by (metis length_append mod_add_left_eq mod_less)
  have "absorb sha_compress SHA1_init (msg @ d) = absorb sha_compress SHA1_init msg"
    using n by (simp add: absorb_append [of _ _ msg] absorb_short)
  moreover have "residue (msg @ d) = residue msg @ d"
    using n residue_append [of msg d] by simp
  ultimately show ?thesis
    using assms(1) n m take_store_bytes [of "length msg mod 64" d "m_buffer st"]
    by (simp add: sha_repr_def)
qed

lemma sha_repr_fill_block:
  assumes "sha_repr st msg" and "m_bufferSize st + length d = 64" and "d \<noteq> []"
  defines "buf \<equiv> store_bytes (m_buffer st) (m_bufferSize st) d"
  shows "sha_repr (st\<lparr>m_buffer := buf, m_hash := sha_compress (m_hash st) buf,
                      m_numBytes := m_numBytes st + 64, m_bufferSize := 0\<rparr>) (msg @ d)"
proof -
  have n: "length msg mod 64 + length d = 64" using assms by (simp add: sha_repr_def)
  have m: "length (msg @ d) mod 64 = 0"
    by (metis n length_append mod_add_left_eq mod_self)
  have sz: "m_bufferSize st = length msg mod 64" using assms by (simp add: sha_repr_def)
  have buf: "buf = residue msg @ d"
    using assms(1) n take_store_bytes [of "length msg mod 64" d "m_buffer st"]
    by (simp add: sha_repr_def buf_def sz)
  have "absorb sha_compress SHA1_init (msg @ d) = sha_compress (m_hash st) buf"
    using assms(1) n absorb_block [of "residue msg @ d" sha_compress _ "[]"]
    by (simp add: absorb_append [of _ _ msg] sha_repr_def buf absorb_short)
  moreover have "length msg - length msg mod 64 + 64 = length (msg @ d)"
    using n mod_less_eq_dividend [of "length msg" 64] by simp
  then have "(of_nat (length msg - length msg mod 64) :: u64) + 64 = of_nat (length (msg @ d))"
    by (metis of_nat_add of_nat_numeral)
  ultimately show ?thesis
    using assms(1) n m buf by (simp add: sha_repr_def residue_def)
qed

lemma sha_repr_add:
  assumes "sha_repr st msg"
  shows "sha_repr (SHA1_add st data) (msg @ data)"
proof -
  let ?n = "m_bufferSize st"
  have n: "?n < 64" "length (m_buffer st) = 64" using assms by (simp_all add: sha_repr_def)
  consider "?n = 0" | "0 < ?n" "?n + length data < 64" | "0 < ?n" "64 \<le> ?n + length data"
    by linarith
  then show ?thesis
  proof cases
    case 1
    then show ?thesis
      using assms sha_repr_add_empty [of st msg data] by (auto simp: SHA1_add_def)
  next
    case 2
    then show ?thesis
      using assms n sha_repr_extend [of st msg data] by (simp add: SHA1_add_def SHA1_fill_eq)
  next
    case 3
    let ?d = "take (64 - ?n) data" and ?r = "drop (64 - ?n) data"
    let ?buf = "store_bytes (m_buffer st) ?n ?d"
    let ?st = "st\<lparr>m_buffer := ?buf, m_hash := sha_compress (m_hash st) ?buf,
                      m_numBytes := m_numBytes st + 64, m_bufferSize := 0\<rparr>"
    have "sha_repr ?st (msg @ ?d)"
      using assms n 3 by (intro sha_repr_fill_block) auto
    then have "sha_repr (if ?r = [] then ?st
        else let (st, current) = SHA1_blocks ?st ?r in SHA1_keep st current) (msg @ ?d @ ?r)"
      using sha_repr_add_empty [of ?st "msg @ ?d" ?r] by (cases "?r = []") auto
    moreover have "SHA1_add st data = (if ?r = [] then ?st
        else let (st, current) = SHA1_blocks ?st ?r in SHA1_keep st current)"
      using 3 n by (simp add: SHA1_add_def SHA1_fill_eq SHA1_processBlock_def)
    ultimately show ?thesis by (simp only: append_take_drop_id)
  qed
qed

section \<open>Padding and the digest\<close>

lemma sha_padded_length_eq: "n < 64 \<Longrightarrow> sha_padded_length n = (if n < 56 then 56 else 120)"
  by (simp add: sha_padded_length_def Let_def)

lemma sha_length_bytes_eq: "sha_length_bytes w = rev (le_digits 8 (unat w))"
  by (simp add: sha_length_bytes_def byte_of_drop byte_of_low le_digits_map upt_rec)

lemma sha_be_bytes_eq: "sha_be_bytes w = rev (le_digits 4 (unat w))"
  by (simp add: sha_be_bytes_def byte_of_drop byte_of_low le_digits_map upt_rec)

lemma sha_message_bits:
  "sha_repr st msg \<Longrightarrow>
   sha_length_bytes (8 * (m_numBytes st + of_nat (m_bufferSize st))) = rev (le_digits 8 (8 * length msg))"
proof -
  assume "sha_repr st msg"
  then have "m_numBytes st + of_nat (m_bufferSize st) = of_nat (length msg)"
    by (simp add: sha_repr_def flip: of_nat_add)
  then have "8 * (m_numBytes st + of_nat (m_bufferSize st)) = of_nat (8 * length msg)"
    by simp
  moreover have "unat (of_nat (8 * length msg) :: u64) = 8 * length msg mod 256 ^ 8"
    by (subst unat_of_nat) simp
  ultimately show ?thesis by (simp only: sha_length_bytes_eq le_digits_mod)
qed

lemma SHA1_processBuffer_hash:
  assumes repr: "sha_repr st msg" and junk: "length junk = 64"
  shows "m_hash (SHA1_processBuffer junk st) =
     absorb sha_compress SHA1_init (msg @ md_padding (length msg) (rev (le_digits 8 (8 * length msg))))"
proof -
  let ?n = "length msg mod 64" and ?len = "rev (le_digits 8 (8 * length msg))"
  have n: "?n < 64" "m_bufferSize st = ?n" "length (m_buffer st) = 64"
    "take ?n (m_buffer st) = residue msg" "m_hash st = absorb sha_compress SHA1_init msg"
    using repr by (simp_all add: sha_repr_def)
  note len = sha_message_bits [OF repr, unfolded n(2)]
  have ab: "absorb sha_compress SHA1_init (msg @ p) = absorb sha_compress (m_hash st) (residue msg @ p)" for p
    by (simp add: absorb_append [of _ _ msg] n)
  have buf: "store_bytes ((m_buffer st)[?n := 128]) (?n + 1) (replicate (64 - (?n + 1)) 0) = residue msg @ 128 # replicate (63 - ?n) 0"
    using n by (simp add: store_bytes_eq take_Suc_conv_app_nth)
  show ?thesis
  proof (cases "?n < 56")
    case True
    let ?blk = "residue msg @ 128 # replicate (55 - ?n) 0 @ ?len"
    have "store_bytes (residue msg @ 128 # replicate (63 - ?n) 0) 56 ?len = ?blk"
      using True by (simp add: store_bytes_eq take_Cons')
    moreover note md_padding_one_block [OF True, of ?len]
    moreover have "absorb sha_compress (m_hash st) ?blk = sha_compress (m_hash st) ?blk"
      using True absorb_block [of ?blk sha_compress _ "[]"] by (simp add: absorb_short)
    moreover have "m_hash (SHA1_processBuffer junk st) = sha_compress (m_hash st) ?blk"
      unfolding SHA1_processBuffer_def Let_def n(2) sha_padded_length_eq [OF n(1)] len
      using True calculation(1) by (simp add: buf [simplified] SHA1_processBlock_def)
    ultimately show ?thesis by (simp add: ab)
  next
    case False
    let ?b1 = "residue msg @ 128 # replicate (63 - ?n) 0" and ?b2 = "replicate 56 0 @ ?len"
    have "store_bytes (store_bytes junk 0 (replicate 56 0)) 56 ?len = ?b2"
      using junk by (simp add: store_bytes_eq)
    moreover have "md_padding (length msg) ?len = 128 # replicate (63 - ?n) 0 @ ?b2"
      using False by (simp only: md_padding_two_blocks not_less)
    moreover have "absorb sha_compress (m_hash st) (?b1 @ ?b2) = sha_compress (sha_compress (m_hash st) ?b1) ?b2"
      using False n(1) absorb_block [of ?b1 sha_compress _ ?b2] absorb_block [of ?b2 sha_compress _ "[]"]
      by (simp add: absorb_short)
    moreover have "m_hash (SHA1_processBuffer junk st) = sha_compress (sha_compress (m_hash st) ?b1) ?b2"
      unfolding SHA1_processBuffer_def Let_def n(2) sha_padded_length_eq [OF n(1)] len
      using False n(1) calculation(1) by (simp add: buf [simplified] SHA1_processBlock_def)
    ultimately show ?thesis by (simp add: ab)
  qed
qed

lemma take_store_bytes_below: "n \<le> i \<Longrightarrow> take n (store_bytes buf i xs) = take n buf"
  by (induction buf i xs rule: store_bytes.induct) simp_all

lemma SHA1_processBuffer_frame:
  assumes "length msg mod 64 = m_bufferSize st" and "m_bufferSize st < 64"
  shows "take (m_bufferSize st) (m_buffer (SHA1_processBuffer junk st)) = take (m_bufferSize st) (m_buffer st)"
    and "length (m_buffer (SHA1_processBuffer junk st)) = length (m_buffer st)"
    and "m_bufferSize (SHA1_processBuffer junk st) = m_bufferSize st"
    and "m_numBytes (SHA1_processBuffer junk st) = m_numBytes st"
  using assms
  by (simp_all add: SHA1_processBuffer_def Let_def SHA1_processBlock_def sha_padded_length_eq
      take_store_bytes_below)

lemma absorb_sha_fips: "absorb sha_compress h bs = absorb fips_compress h bs"
proof (induction sha_compress h bs rule: absorb.induct)
  case (1 h bs)
  then show ?case
    by (simp add: absorb.simps [of _ h bs] sha_compress_fips)
qed

lemma SHA1_init_fips: "SHA1_init = fips_init"
  by (simp add: SHA1_init_def fips_init_def)

lemma SHA1_getHash_raw_correct:
  assumes "sha_repr st msg" and "length junk = 64"
  shows "fst (SHA1_getHash_raw junk st) = sha1_ref msg"
    and "sha_repr (snd (SHA1_getHash_raw junk st)) msg"
proof -
  show "fst (SHA1_getHash_raw junk st) = sha1_ref msg"
    using SHA1_processBuffer_hash [OF assms]
    by (simp add: SHA1_getHash_raw_def sha1_ref_def absorb_sha_fips SHA1_init_fips sha_be_bytes_eq [abs_def] Let_def)
  have "length msg mod 64 = m_bufferSize st" "m_bufferSize st < 64"
    using assms by (simp_all add: sha_repr_def)
  from SHA1_processBuffer_frame [OF this, of junk] assms(1)
  show "sha_repr (snd (SHA1_getHash_raw junk st)) msg"
    by (simp add: SHA1_getHash_raw_def sha_repr_def Let_def)
qed

lemma length_sha_compress [simp]: "length (sha_compress h b) = 5"
  by (simp add: sha_compress_def sha_update_def split: prod.split)

lemma length_absorb_sha: "length h = 5 \<Longrightarrow> length (absorb sha_compress h bs) = 5"
proof (induction sha_compress h bs rule: absorb.induct)
  case (1 h bs)
  then show ?case by (simp add: absorb.simps [of _ h bs])
qed

lemma length_sha1_ref [simp]: "length (sha1_ref msg) = 20"
proof -
  have "length (absorb sha_compress SHA1_init bs) = 5" for bs
    by (rule length_absorb_sha) (simp add: SHA1_init_def)
  then show ?thesis
    by (simp add: sha1_ref_def length_concat comp_def sum_list_triv flip: absorb_sha_fips SHA1_init_fips)
qed

lemma sha_repr_stream:
  "sha_repr st msg \<Longrightarrow> sha_repr (foldl SHA1_add st parts) (msg @ concat parts)"
  by (induction parts arbitrary: st msg) (auto dest: sha_repr_add simp flip: append_assoc)

section \<open>Properties\<close>

text \<open>
  C12: streaming SHA-1 is SHA-1. However a message is cut into the parts passed to
  \<^verbatim>\<open>SHA1::add\<close>, and whatever the uninitialised arrays hold, \<^verbatim>\<open>SHA1::getHash\<close> prints the
  FIPS 180-4 digest of the whole message.
\<close>

theorem sha1_streaming:
  assumes "length junk = 64" and "length junk' = 64"
  shows "fst (SHA1_getHash junk' (foldl SHA1_add (SHA1_new junk) parts))
       = hex_of_bytes (sha1_ref (concat parts))"
proof -
  have "sha_repr (foldl SHA1_add (SHA1_new junk) parts) (concat parts)"
    using sha_repr_stream [OF sha_repr_new [OF assms(1)]] by simp
  from SHA1_getHash_raw_correct(1) [OF this assms(2)] show ?thesis
    by (simp add: SHA1_getHash_def split_beta Let_def)
qed

theorem sha1_streaming_witness:
  "fst (SHA1_getHash (replicate 64 7)
      (foldl SHA1_add (SHA1_new (replicate 64 9)) [bytes_of ''a'', bytes_of ''bc'']))
   = hex_of_bytes (sha1_ref [97, 98, 99])"
  using sha1_streaming [of "replicate 64 9" "replicate 64 7" "[bytes_of ''a'', bytes_of ''bc'']"]
  by (simp add: bytes_of_def)

text \<open>
  Taking a digest does not disturb the object: after \<^verbatim>\<open>getHash\<close> more data can be added, and
  the next digest is that of the longer message.
\<close>

theorem sha1_getHash_resumes:
  assumes "sha_repr st msg" and "length junk = 64" and "length junk' = 64"
  shows "fst (SHA1_getHash_raw junk' (SHA1_add (snd (SHA1_getHash_raw junk st)) data))
       = sha1_ref (msg @ data)"
  by (rule SHA1_getHash_raw_correct(1)
      [OF sha_repr_add [OF SHA1_getHash_raw_correct(2) [OF assms(1,2)]] assms(3)])

theorem sha1_getHash_resumes_witness:
  "fst (SHA1_getHash_raw (replicate 64 1)
      (SHA1_add (snd (SHA1_getHash_raw (replicate 64 2) (SHA1_new (replicate 64 3)))) [104, 105]))
   = sha1_ref [104, 105]"
  using sha1_getHash_resumes [OF sha_repr_new, of "replicate 64 3" "replicate 64 2" "replicate 64 1"
      "[104, 105]"]
  by simp

end
