(* ===== verification/Hmac.thy ===== *)
theory Hmac
  imports Sha1
begin

text \<open>
  \<^verbatim>\<open>source/base/hmac.h\<close>, a function template over a hash class, and its use in
  \<^verbatim>\<open>source/tracker/tracker_impl.cpp\<close> (\<open>HashHmac\<close>, the signature of an upload). The members of
  the hash class are arguments of \<open>hmac\<close>; the locale \<open>hash_method\<close> states what the template's
  comment asks of them, and \<open>Sha1\<close> provides it. Each of the three hash objects is numbered, so
  that its uninitialised arrays may hold anything.
\<close>

section \<open>The template\<close>

definition hmac ::
    "(nat \<Rightarrow> 's) \<Rightarrow> ('s \<Rightarrow> u8 list \<Rightarrow> 's) \<Rightarrow> (nat \<Rightarrow> 's \<Rightarrow> u8 list \<times> 's) \<Rightarrow> (nat \<Rightarrow> 's \<Rightarrow> string \<times> 's)
     \<Rightarrow> nat \<Rightarrow> nat \<Rightarrow> u8 list \<Rightarrow> u8 list \<Rightarrow> string" where
  "hmac new_h add getHash_raw getHash BlockSize HashBytes data key =
     (let usedKey = replicate BlockSize 0;
          usedKey = (if length key \<le> BlockSize then store_bytes usedKey 0 key
                     else store_bytes usedKey 0 (fst (getHash_raw 0 (add (new_h 0) key))));
          usedKey = map (\<lambda>b. b XOR 0x36) usedKey;
          insideHasher = add (add (new_h 1) usedKey) data;
          inside = store_bytes (replicate HashBytes 0) 0 (fst (getHash_raw 1 insideHasher));
          usedKey = map (\<lambda>b. b XOR (0x5C XOR 0x36)) usedKey;
          finalHasher = add (add (new_h 2) usedKey) inside
      in fst (getHash 2 finalHasher))"

section \<open>RFC 2104\<close>

definition rfc2104_key :: "(u8 list \<Rightarrow> u8 list) \<Rightarrow> nat \<Rightarrow> u8 list \<Rightarrow> u8 list" where
  "rfc2104_key H B key =
     (let k = (if length key > B then H key else key) in k @ replicate (B - length k) 0)"

definition rfc2104 :: "(u8 list \<Rightarrow> u8 list) \<Rightarrow> nat \<Rightarrow> u8 list \<Rightarrow> u8 list \<Rightarrow> u8 list" where
  "rfc2104 H B key text =
     (let K = rfc2104_key H B key
      in H (map2 (XOR) K (replicate B 0x5C) @ H (map2 (XOR) K (replicate B 0x36) @ text)))"

section \<open>What the template asks of a hash class\<close>

locale hash_method =
  fixes new_h :: "nat \<Rightarrow> 's"
    and add :: "'s \<Rightarrow> u8 list \<Rightarrow> 's"
    and getHash_raw :: "nat \<Rightarrow> 's \<Rightarrow> u8 list \<times> 's"
    and getHash :: "nat \<Rightarrow> 's \<Rightarrow> string \<times> 's"
    and BlockSize HashBytes :: nat
    and repr :: "'s \<Rightarrow> u8 list \<Rightarrow> bool"
    and H :: "u8 list \<Rightarrow> u8 list"
  assumes repr_new: "repr (new_h i) []"
    and repr_add: "repr st msg \<Longrightarrow> repr (add st d) (msg @ d)"
    and getHash_raw_repr: "repr st msg \<Longrightarrow> fst (getHash_raw i st) = H msg"
    and getHash_repr: "repr st msg \<Longrightarrow> fst (getHash i st) = hex_of_bytes (H msg)"
    and length_H: "length (H msg) = HashBytes"
    and HashBytes_le: "HashBytes \<le> BlockSize"
begin

lemma raw_of_one: "fst (getHash_raw i (add (new_h j) x)) = H x"
  using getHash_raw_repr [OF repr_add [OF repr_new]] by simp

lemma repr_two: "repr (add (add (new_h j) x) y) (x @ y)"
  using repr_add [OF repr_add [OF repr_new [of j], of x], of y] by simp

lemma used_key:
  "(if length key \<le> BlockSize then store_bytes (replicate BlockSize 0) 0 key
    else store_bytes (replicate BlockSize 0) 0 (fst (getHash_raw i (add (new_h j) key))))
   = rfc2104_key H BlockSize key"
  using HashBytes_le by (simp add: rfc2104_key_def raw_of_one store_bytes_eq length_H Let_def)

lemma length_rfc2104_key: "length (rfc2104_key H BlockSize key) = BlockSize"
  using HashBytes_le by (simp add: rfc2104_key_def Let_def length_H)

lemma map2_xor_const: "length K = n \<Longrightarrow> map2 (XOR) K (replicate n (c :: u8)) = map (\<lambda>b. b XOR c) K"
  by (induction K arbitrary: n) (auto simp: Suc_length_conv)

lemma xor_repad: "((b :: u8) XOR 0x36) XOR (0x5C XOR 0x36) = b XOR 0x5C"
proof -
  have "(b XOR 0x36) XOR (0x5C XOR 0x36) = b XOR (0x5C XOR (0x36 XOR 0x36))"
    by (simp only: xor.assoc xor.left_commute xor.commute)
  then show ?thesis by simp
qed

theorem hmac_rfc2104:
  "hmac new_h add getHash_raw getHash BlockSize HashBytes data key
   = hex_of_bytes (rfc2104 H BlockSize key data)"
proof -
  let ?K = "rfc2104_key H BlockSize key"
  have pads: "map (\<lambda>b. b XOR 0x36) ?K = map2 (XOR) ?K (replicate BlockSize 0x36)"
    "map (\<lambda>b. b XOR (0x5C XOR 0x36)) (map (\<lambda>b. b XOR 0x36) ?K) = map2 (XOR) ?K (replicate BlockSize 0x5C)"
    by (simp_all only: map2_xor_const [OF length_rfc2104_key] map_map comp_def xor_repad)
  show ?thesis
    unfolding hmac_def Let_def used_key pads(2) unfolding pads(1) getHash_raw_repr [OF repr_two] getHash_repr [OF repr_two]
    by (simp add: rfc2104_def Let_def store_bytes_eq length_H)
qed

end

section \<open>SHA-1 is such a hash class\<close>

text \<open>An arbitrary content of an uninitialised array of 64 bytes.\<close>

definition uninit :: "u8 list \<Rightarrow> u8 list" where
  "uninit junk = take 64 (junk @ replicate 64 0)"

lemma length_uninit [simp]: "length (uninit junk) = 64"
  by (simp add: uninit_def)

lemma uninit_id: "length junk = 64 \<Longrightarrow> uninit junk = junk"
  by (simp add: uninit_def)

interpretation sha: hash_method "\<lambda>i. SHA1_new (uninit (m i))" SHA1_add
    "\<lambda>i. SHA1_getHash_raw (uninit (x i))" "\<lambda>i. SHA1_getHash (uninit (x i))" 64 20 sha_repr sha1_ref
  for m x :: "nat \<Rightarrow> u8 list"
  by unfold_locales
    (simp_all add: sha_repr_new sha_repr_add SHA1_getHash_raw_correct SHA1_getHash_def Let_def split_beta)

section \<open>The upload signature\<close>

definition HashHmac :: "(nat \<Rightarrow> u8 list) \<Rightarrow> (nat \<Rightarrow> u8 list) \<Rightarrow> string \<Rightarrow> string \<Rightarrow> string option" where
  "HashHmac m x content key =
     (let sha1hmac = hmac (\<lambda>i. SHA1_new (uninit (m i))) SHA1_add
                       (\<lambda>i. SHA1_getHash_raw (uninit (x i))) (\<lambda>i. SHA1_getHash (uninit (x i)))
                       64 20 (bytes_of content) (bytes_of key)
      in BinToBase64 (HexToBin sha1hmac))"

lemma length_rfc2104_sha1 [simp]: "length (rfc2104 sha1_ref 64 key text) = 20"
  by (simp add: rfc2104_def Let_def)

lemma HashHmac_eq: "HashHmac m x content key = Some (base64_ref (rfc2104 sha1_ref 64 (bytes_of key) (bytes_of content)))"
  unfolding HashHmac_def sha.hmac_rfc2104 Let_def
  by (simp add: HexToBin_BinToBase64 base64_ref_def)

text \<open>
  C2: the signature of an upload is the Base64 text of the HMAC-SHA1 of the request text under
  the secret key, as RFC 2104 and RFC 4648 define them, for every key length, and it is always
  produced.
\<close>

theorem HashHmac_correct:
  "HashHmac m x content key
   = Some (base64_ref (rfc2104 sha1_ref 64 (bytes_of key) (bytes_of content)))"
  by (rule HashHmac_eq)

end
