(* ===== verification/Md5.thy ===== *)
theory Md5
  imports Md_Blocks Encoding Sha1
begin

text \<open>
  \<^verbatim>\<open>source/base/md5.cpp\<close>: the MD5 object of the tracker's uploads. The model keeps its five
  fields and every loop; the block loop of \<^verbatim>\<open>MD5::init\<close> counts in 32 bits and would not end on
  inputs of 4 GB, so it is a partial function, shown to return below that size. The reference is
  RFC 1321.
\<close>

section \<open>The object\<close>

record MD5 =
  md_finished :: bool
  md_state :: "u32 list"
  md_count :: "u32 \<times> u32"
  md_buffer :: "u8 list"
  md_digest :: "u8 list"

definition md5_init_state :: "u32 list" where
  "md5_init_state = [0x67452301, 0xefcdab89, 0x98badcfe, 0x10325476]"

section \<open>transform\<close>

definition md_F :: "u32 \<Rightarrow> u32 \<Rightarrow> u32 \<Rightarrow> u32" where "md_F x y z = (x AND y) OR (NOT x AND z)"
definition md_G :: "u32 \<Rightarrow> u32 \<Rightarrow> u32 \<Rightarrow> u32" where "md_G x y z = (x AND z) OR (y AND NOT z)"
definition md_H :: "u32 \<Rightarrow> u32 \<Rightarrow> u32 \<Rightarrow> u32" where "md_H x y z = x XOR y XOR z"
definition md_I :: "u32 \<Rightarrow> u32 \<Rightarrow> u32 \<Rightarrow> u32" where "md_I x y z = y XOR (x OR NOT z)"

type_synonym md_regs = "u32 \<times> u32 \<times> u32 \<times> u32"

text \<open>
  One of the macros \<^verbatim>\<open>FF\<close>, \<^verbatim>\<open>GG\<close>, \<^verbatim>\<open>HH\<close>, \<^verbatim>\<open>II\<close>. Its calls permute the register names: the
  register the next call updates is \<open>d\<close>, and the one just updated takes the place of \<open>b\<close>; after
  four calls every register is back in its place.
\<close>

definition md_call ::
    "(u32 \<Rightarrow> u32 \<Rightarrow> u32 \<Rightarrow> u32) \<Rightarrow> u32 list \<Rightarrow> md_regs \<Rightarrow> nat \<times> nat \<times> u32 \<Rightarrow> md_regs" where
  "md_call f x r p =
     (let (a, b, c, d) = r; (k, s, ac) = p;
          a = a + (f b c d + x ! k + ac);
          a = rotate32 a s;
          a = a + b
      in (d, a, b, c))"

text \<open>The sixteen calls of each round: the index into the block, the rotation, the constant.\<close>

definition md_round1 :: "(nat \<times> nat \<times> u32) list" where
  "md_round1 =
    [(0, 7, 0xd76aa478), (1, 12, 0xe8c7b756), (2, 17, 0x242070db), (3, 22, 0xc1bdceee),
     (4, 7, 0xf57c0faf), (5, 12, 0x4787c62a), (6, 17, 0xa8304613), (7, 22, 0xfd469501),
     (8, 7, 0x698098d8), (9, 12, 0x8b44f7af), (10, 17, 0xffff5bb1), (11, 22, 0x895cd7be),
     (12, 7, 0x6b901122), (13, 12, 0xfd987193), (14, 17, 0xa679438e), (15, 22, 0x49b40821)]"

definition md_round2 :: "(nat \<times> nat \<times> u32) list" where
  "md_round2 =
    [(1, 5, 0xf61e2562), (6, 9, 0xc040b340), (11, 14, 0x265e5a51), (0, 20, 0xe9b6c7aa),
     (5, 5, 0xd62f105d), (10, 9, 0x2441453), (15, 14, 0xd8a1e681), (4, 20, 0xe7d3fbc8),
     (9, 5, 0x21e1cde6), (14, 9, 0xc33707d6), (3, 14, 0xf4d50d87), (8, 20, 0x455a14ed),
     (13, 5, 0xa9e3e905), (2, 9, 0xfcefa3f8), (7, 14, 0x676f02d9), (12, 20, 0x8d2a4c8a)]"

definition md_round3 :: "(nat \<times> nat \<times> u32) list" where
  "md_round3 =
    [(5, 4, 0xfffa3942), (8, 11, 0x8771f681), (11, 16, 0x6d9d6122), (14, 23, 0xfde5380c),
     (1, 4, 0xa4beea44), (4, 11, 0x4bdecfa9), (7, 16, 0xf6bb4b60), (10, 23, 0xbebfbc70),
     (13, 4, 0x289b7ec6), (0, 11, 0xeaa127fa), (3, 16, 0xd4ef3085), (6, 23, 0x4881d05),
     (9, 4, 0xd9d4d039), (12, 11, 0xe6db99e5), (15, 16, 0x1fa27cf8), (2, 23, 0xc4ac5665)]"

definition md_round4 :: "(nat \<times> nat \<times> u32) list" where
  "md_round4 =
    [(0, 6, 0xf4292244), (7, 10, 0x432aff97), (14, 15, 0xab9423a7), (5, 21, 0xfc93a039),
     (12, 6, 0x655b59c3), (3, 10, 0x8f0ccc92), (10, 15, 0xffeff47d), (1, 21, 0x85845dd1),
     (8, 6, 0x6fa87e4f), (15, 10, 0xfe2ce6e0), (6, 15, 0xa3014314), (13, 21, 0x4e0811a1),
     (4, 6, 0xf7537e82), (11, 10, 0xbd3af235), (2, 15, 0x2ad7d2bb), (9, 21, 0xeb86d391)]"

definition MD5_decode :: "u8 list \<Rightarrow> u32 list" where
  "MD5_decode input =
     map (\<lambda>i. ucast (input ! (4 * i)) OR push_bit 8 (ucast (input ! (4 * i + 1)))
            OR push_bit 16 (ucast (input ! (4 * i + 2))) OR push_bit 24 (ucast (input ! (4 * i + 3))))
       [0..<length input div 4]"

definition MD5_encode :: "u32 list \<Rightarrow> u8 list" where
  "MD5_encode ws =
     concat (map (\<lambda>w. [ucast (w AND 0xff), ucast (drop_bit 8 w AND 0xff),
                       ucast (drop_bit 16 w AND 0xff), ucast (drop_bit 24 w AND 0xff)]) ws)"

definition MD5_transform :: "u32 list \<Rightarrow> u8 list \<Rightarrow> u32 list" where
  "MD5_transform h block =
     (let x = MD5_decode block;
          r = (h ! 0, h ! 1, h ! 2, h ! 3);
          r = foldl (md_call md_F x) r md_round1;
          r = foldl (md_call md_G x) r md_round2;
          r = foldl (md_call md_H x) r md_round3;
          (a, b, c, d) = foldl (md_call md_I x) r md_round4
      in [h ! 0 + a, h ! 1 + b, h ! 2 + c, h ! 3 + d])"

section \<open>init\<close>

partial_function (option) MD5_loop :: "u32 list \<Rightarrow> u8 list \<Rightarrow> nat \<Rightarrow> (u32 list \<times> nat) option" where
  "MD5_loop h input i =
     (if (i + 63) mod 2 ^ 32 < length input
      then MD5_loop (MD5_transform h (take 64 (drop i input))) input ((i + 64) mod 2 ^ 32)
      else Some (h, i))"

declare MD5_loop.simps [code]

definition MD5_index :: "u32 \<times> u32 \<Rightarrow> nat" where
  "MD5_index cnt = unat (drop_bit 3 (fst cnt) AND 0x3f)"

definition MD5_bump :: "u32 \<times> u32 \<Rightarrow> nat \<Rightarrow> u32 \<times> u32" where
  "MD5_bump cnt len =
     (let bits = push_bit 3 (of_nat len);
          c0 = fst cnt + bits;
          c1 = (if c0 < bits then snd cnt + 1 else snd cnt)
      in (c0, c1 + drop_bit 29 (of_nat len)))"

definition MD5_init :: "MD5 \<Rightarrow> u8 list \<Rightarrow> MD5 option" where
  "MD5_init st input =
     (let len = length input;
          index = MD5_index (md_count st);
          st = st\<lparr>md_finished := False, md_count := MD5_bump (md_count st) len\<rparr>;
          partLen = 64 - index
      in if partLen \<le> len
         then let buf = store_bytes (md_buffer st) index (take partLen input)
              in case MD5_loop (MD5_transform (md_state st) buf) input partLen of
                   None \<Rightarrow> None
                 | Some (h, i) \<Rightarrow>
                     Some (st\<lparr>md_state := h, md_buffer := store_bytes buf 0 (drop i input)\<rparr>)
         else Some (st\<lparr>md_buffer := store_bytes (md_buffer st) index input\<rparr>))"

definition MD5_new :: "u8 list \<Rightarrow> u8 list \<Rightarrow> u8 list \<Rightarrow> MD5 option" where
  "MD5_new junk junk' message =
     MD5_init \<lparr>md_finished = False, md_state = md5_init_state, md_count = (0, 0),
               md_buffer = junk, md_digest = junk'\<rparr> message"

section \<open>getDigest and toStr\<close>

definition MD5_PADDING :: "u8 list" where
  "MD5_PADDING = 0x80 # replicate 63 0"

definition MD5_getDigest :: "MD5 \<Rightarrow> (u8 list \<times> MD5) option" where
  "MD5_getDigest st =
     (if \<not> md_finished st
      then let st1 = st\<lparr>md_finished := True\<rparr>;
               bits = MD5_encode [fst (md_count st), snd (md_count st)];
               index = MD5_index (md_count st);
               padLen = (if index < 56 then 56 - index else 120 - index)
           in case MD5_init st1 (take padLen MD5_PADDING) of
                None \<Rightarrow> None
              | Some st2 \<Rightarrow>
                 (case MD5_init st2 bits of
                    None \<Rightarrow> None
                  | Some st3 \<Rightarrow>
                      let digest = MD5_encode (md_state st3)
                      in Some (digest, st3\<lparr>md_digest := digest, md_state := md_state st,
                                           md_count := md_count st\<rparr>))
      else Some (md_digest st, st))"

definition MD5_HEX_NUMBERS :: string where
  "MD5_HEX_NUMBERS = ''0123456789abcdef''"

definition MD5_toStr :: "MD5 \<Rightarrow> (string \<times> MD5) option" where
  "MD5_toStr st =
     (case MD5_getDigest st of
        None \<Rightarrow> None
      | Some (digest, st') \<Rightarrow>
          Some (concat (map (\<lambda>i. let t = unat (digest ! i)
                                 in [MD5_HEX_NUMBERS ! (t div 16), MD5_HEX_NUMBERS ! (t mod 16)])
                         [0..<16]), st'))"

section \<open>RFC 1321\<close>

definition rfc1321_T :: "u32 list" where
  "rfc1321_T =
    [0xd76aa478, 0xe8c7b756, 0x242070db, 0xc1bdceee, 0xf57c0faf, 0x4787c62a, 0xa8304613, 0xfd469501,
     0x698098d8, 0x8b44f7af, 0xffff5bb1, 0x895cd7be, 0x6b901122, 0xfd987193, 0xa679438e, 0x49b40821,
     0xf61e2562, 0xc040b340, 0x265e5a51, 0xe9b6c7aa, 0xd62f105d, 0x2441453, 0xd8a1e681, 0xe7d3fbc8,
     0x21e1cde6, 0xc33707d6, 0xf4d50d87, 0x455a14ed, 0xa9e3e905, 0xfcefa3f8, 0x676f02d9, 0x8d2a4c8a,
     0xfffa3942, 0x8771f681, 0x6d9d6122, 0xfde5380c, 0xa4beea44, 0x4bdecfa9, 0xf6bb4b60, 0xbebfbc70,
     0x289b7ec6, 0xeaa127fa, 0xd4ef3085, 0x4881d05, 0xd9d4d039, 0xe6db99e5, 0x1fa27cf8, 0xc4ac5665,
     0xf4292244, 0x432aff97, 0xab9423a7, 0xfc93a039, 0x655b59c3, 0x8f0ccc92, 0xffeff47d, 0x85845dd1,
     0x6fa87e4f, 0xfe2ce6e0, 0xa3014314, 0x4e0811a1, 0xf7537e82, 0xbd3af235, 0x2ad7d2bb, 0xeb86d391]"

definition rfc1321_k :: "nat \<Rightarrow> nat" where
  "rfc1321_k i = (if i < 16 then i else if i < 32 then (5 * i + 1) mod 16
                  else if i < 48 then (3 * i + 5) mod 16 else 7 * i mod 16)"

definition rfc1321_s :: "nat \<Rightarrow> nat" where
  "rfc1321_s i = [[7, 12, 17, 22], [5, 9, 14, 20], [4, 11, 16, 23], [6, 10, 15, 21]]
                   ! (i div 16) ! (i mod 4)"

definition rfc1321_f :: "nat \<Rightarrow> u32 \<Rightarrow> u32 \<Rightarrow> u32 \<Rightarrow> u32" where
  "rfc1321_f i x y z =
     (if i < 16 then (x AND y) OR (NOT x AND z)
      else if i < 32 then (x AND z) OR (y AND NOT z)
      else if i < 48 then x XOR y XOR z
      else y XOR (x OR NOT z))"

definition rfc1321_step :: "u8 list \<Rightarrow> md_regs \<Rightarrow> nat \<Rightarrow> md_regs" where
  "rfc1321_step block r i =
     (let (a, b, c, d) = r;
          x = of_nat (le_value (take 4 (drop (4 * rfc1321_k i) block)))
      in (d, b + word_rotl (rfc1321_s i) (a + rfc1321_f i b c d + x + rfc1321_T ! i), b, c))"

definition rfc1321_compress :: "u32 list \<Rightarrow> u8 list \<Rightarrow> u32 list" where
  "rfc1321_compress h block =
     (let (a, b, c, d) = foldl (rfc1321_step block) (h ! 0, h ! 1, h ! 2, h ! 3) [0..<64]
      in [h ! 0 + a, h ! 1 + b, h ! 2 + c, h ! 3 + d])"

text \<open>The initial words as the RFC lists them, low-order byte first.\<close>

definition rfc1321_init :: "u32 list" where
  "rfc1321_init = map (\<lambda>bs. of_nat (le_value bs))
     [[0x01, 0x23, 0x45, 0x67], [0x89, 0xab, 0xcd, 0xef], [0xfe, 0xdc, 0xba, 0x98], [0x76, 0x54, 0x32, 0x10 :: u8]]"

definition md5_ref :: "u8 list \<Rightarrow> u8 list" where
  "md5_ref msg =
     concat (map (\<lambda>w. le_digits 4 (unat w))
       (absorb rfc1321_compress rfc1321_init
         (msg @ md_padding (length msg) (le_digits 8 (8 * length msg)))))"

lemma md5_init_rfc: "md5_init_state = rfc1321_init"
  by (simp add: md5_init_state_def rfc1321_init_def)

section \<open>The compression function\<close>

lemma md5_round_table:
  "md_round1 = map (\<lambda>i. (rfc1321_k i, rfc1321_s i, rfc1321_T ! i)) [0..<16]"
  "md_round2 = map (\<lambda>i. (rfc1321_k i, rfc1321_s i, rfc1321_T ! i)) [16..<32]"
  "md_round3 = map (\<lambda>i. (rfc1321_k i, rfc1321_s i, rfc1321_T ! i)) [32..<48]"
  "md_round4 = map (\<lambda>i. (rfc1321_k i, rfc1321_s i, rfc1321_T ! i)) [48..<64]"
  by code_simp+

lemma rfc1321_s_range: "\<forall>i \<in> {0..<64}. 0 < rfc1321_s i \<and> rfc1321_s i < 32"
  by code_simp

lemma rfc1321_k_range: "rfc1321_k i < 16 \<or> 64 \<le> i"
  by (auto simp: rfc1321_k_def)

lemma drop_nth4:
  "n + 4 \<le> length xs \<Longrightarrow> take 4 (drop n xs) = [xs ! n, xs ! (n + 1), xs ! (n + 2), xs ! (n + 3)]"
  by (intro nth_equalityI) (auto simp: less_Suc_eq numeral_eq_Suc)

lemma MD5_decode_nth:
  assumes "length block = 64" and "k < 16"
  shows "MD5_decode block ! k = of_nat (le_value (take 4 (drop (4 * k) block)))"
proof -
  have t: "take 4 (drop (4 * k) block)
     = [block ! (4 * k), block ! (4 * k + 1), block ! (4 * k + 2), block ! (4 * k + 3)]"
    using assms by (intro drop_nth4) simp
  have "(of_nat (le_value [a, b, c, d]) :: u32)
     = ucast a OR push_bit 8 (ucast b) OR push_bit 16 (ucast c) OR push_bit 24 (ucast d)" for a b c d
    by (simp add: le_word_Cons le_value.simps(1) push_bit_or push_bit_push_bit or.assoc del: le_value.simps)
  then show ?thesis using assms unfolding t by (simp add: MD5_decode_def)
qed

lemma md_call_rfc:
  assumes "length block = 64" and "i < 64" and "\<And>x y z. f x y z = rfc1321_f i x y z"
  shows "md_call f (MD5_decode block) r (rfc1321_k i, rfc1321_s i, rfc1321_T ! i) = rfc1321_step block r i"
proof -
  have "rotate32 a (rfc1321_s i) = word_rotl (rfc1321_s i) a" for a
    using rfc1321_s_range assms(2) by (intro rotate32_rotl) auto
  moreover have "rfc1321_k i < 16" using rfc1321_k_range [of i] assms(2) by auto
  ultimately show ?thesis
    using assms by (simp add: md_call_def rfc1321_step_def MD5_decode_nth ac_simps split: prod.split)
qed

lemma foldl_md_call:
  assumes "length block = 64" and "hi \<le> 64"
    and "\<And>i x y z. lo \<le> i \<Longrightarrow> i < hi \<Longrightarrow> f x y z = rfc1321_f i x y z"
  shows "foldl (md_call f (MD5_decode block)) r
           (map (\<lambda>i. (rfc1321_k i, rfc1321_s i, rfc1321_T ! i)) [lo..<hi])
       = foldl (rfc1321_step block) r [lo..<hi]"
proof -
  have "foldl (\<lambda>r i. md_call f (MD5_decode block) r (rfc1321_k i, rfc1321_s i, rfc1321_T ! i)) r [lo..<hi]
      = foldl (rfc1321_step block) r [lo..<hi]"
    using assms by (intro foldl_cong) (auto simp: md_call_rfc)
  then show ?thesis by (simp add: foldl_map)
qed

lemma md_f_rfc:
  "i < 16 \<Longrightarrow> md_F x y z = rfc1321_f i x y z"
  "16 \<le> i \<Longrightarrow> i < 32 \<Longrightarrow> md_G x y z = rfc1321_f i x y z"
  "32 \<le> i \<Longrightarrow> i < 48 \<Longrightarrow> md_H x y z = rfc1321_f i x y z"
  "48 \<le> i \<Longrightarrow> md_I x y z = rfc1321_f i x y z"
  by (simp_all add: rfc1321_f_def md_F_def md_G_def md_H_def md_I_def)

lemma MD5_transform_rfc: "length block = 64 \<Longrightarrow> MD5_transform h block = rfc1321_compress h block"
proof -
  assume len: "length block = 64"
  have "[0..<64] = [0..<16] @ [16..<32] @ [32..<48] @ [48..<64::nat]"
    by code_simp
  then have split64: "foldl g r [0..<64] = foldl g (foldl g (foldl g (foldl g r [0..<16]) [16..<32]) [32..<48]) [48..<64]"
    for g :: "md_regs \<Rightarrow> nat \<Rightarrow> md_regs" and r by simp
  have r1: "foldl (md_call md_F (MD5_decode block)) r md_round1 = foldl (rfc1321_step block) r [0..<16]" for r
    unfolding md5_round_table by (rule foldl_md_call [OF len]) (simp_all add: md_f_rfc)
  have r2: "foldl (md_call md_G (MD5_decode block)) r md_round2 = foldl (rfc1321_step block) r [16..<32]" for r
    unfolding md5_round_table by (rule foldl_md_call [OF len]) (simp_all add: md_f_rfc)
  have r3: "foldl (md_call md_H (MD5_decode block)) r md_round3 = foldl (rfc1321_step block) r [32..<48]" for r
    unfolding md5_round_table by (rule foldl_md_call [OF len]) (simp_all add: md_f_rfc)
  have r4: "foldl (md_call md_I (MD5_decode block)) r md_round4 = foldl (rfc1321_step block) r [48..<64]" for r
    unfolding md5_round_table by (rule foldl_md_call [OF len]) (simp_all add: md_f_rfc)
  show ?thesis
    unfolding MD5_transform_def rfc1321_compress_def Let_def r1 r2 r3 r4 split64 ..
qed

section \<open>The streaming state\<close>

definition md5_repr :: "MD5 \<Rightarrow> u8 list \<Rightarrow> bool" where
  "md5_repr st msg \<longleftrightarrow>
     md_state st = absorb MD5_transform md5_init_state msg \<and>
     md_count st = (of_nat (8 * length msg), of_nat (8 * length msg div 2 ^ 32)) \<and>
     length (md_buffer st) = 64 \<and> take (length msg mod 64) (md_buffer st) = residue msg"

lemma MD5_index_repr:
  "MD5_index (of_nat (8 * n), c) = n mod 64"
proof -
  have "unat (drop_bit 3 (of_nat (8 * n) :: u32) AND 0x3f) = (8 * n mod 2 ^ 32) div 8 mod 64"
  proof -
    have m: "(0x3f :: u32) = mask 6" by (simp add: mask_eq_exp_minus_1)
    have "unat (drop_bit 3 (of_nat (8 * n) :: u32) AND 0x3f) = unat (of_nat (8 * n) :: u32) div 8 mod 64"
      unfolding m take_bit_eq_mask [symmetric]
      by (simp only: unsigned_take_bit_eq unsigned_drop_bit_eq take_bit_eq_mod drop_bit_eq_div)
        (simp add: unat_mod unat_div)
    then show ?thesis unfolding unat_of_nat by simp
  qed
  also have "\<dots> = n mod 64"
  proof -
    have "8 * n mod 2 ^ 32 = 8 * (n mod 2 ^ 29)"
      using mult_mod_right [of 8 n "2 ^ 29"] by simp
    moreover have "n mod 2 ^ 29 mod 64 = n mod 64" by (rule mod_mod_cancel) simp
    ultimately show ?thesis by simp
  qed
  finally show ?thesis by (simp add: MD5_index_def)
qed

lemma word_carry:
  "(of_nat (a + b) :: u32) < of_nat b \<longleftrightarrow> 2 ^ 32 \<le> a mod 2 ^ 32 + b mod 2 ^ 32"
proof -
  have "unat (of_nat (a + b) :: u32) = (a mod 2 ^ 32 + b mod 2 ^ 32) mod 2 ^ 32"
    unfolding unat_of_nat by (simp add: mod_add_eq)
  moreover have "a mod 2 ^ 32 < 2 ^ 32" "b mod 2 ^ 32 < (2 ^ 32 :: nat)" by simp_all
  ultimately show ?thesis
    unfolding word_less_nat_alt by (auto simp: unat_of_nat mod_if [of "_ + _"])
qed

lemma MD5_bump_repr:
  assumes "len < 2 ^ 32"
  shows "MD5_bump (of_nat (8 * n), of_nat (8 * n div 2 ^ 32)) len
       = (of_nat (8 * (n + len)), of_nat (8 * (n + len) div 2 ^ 32))"
proof -
  have bits: "(push_bit 3 (of_nat len) :: u32) = of_nat (8 * len)"
    by (simp add: push_bit_eq_mult)
  have hi: "(drop_bit 29 (of_nat len) :: u32) = of_nat (8 * len div 2 ^ 32)"
  proof -
    have "unat (drop_bit 29 (of_nat len) :: u32) = len div 2 ^ 29"
      using assms by (simp only: unsigned_drop_bit_eq drop_bit_eq_div)
        (simp add: unat_div unat_of_nat take_bit_eq_mod)
    moreover have "8 * len div 2 ^ 32 = len div 2 ^ 29"
      using div_mult_mult1 [of 8 len "2 ^ 29"] by simp
    ultimately show ?thesis by (metis of_nat_unat ucast_id)
  qed
  have "8 * (n + len) div 2 ^ 32 = 8 * n div 2 ^ 32 + 8 * len div 2 ^ 32
      + (if 2 ^ 32 \<le> 8 * n mod 2 ^ 32 + 8 * len mod 2 ^ 32 then 1 else 0)"
  proof -
    have "(a mod 2 ^ 32 + b mod 2 ^ 32) div 2 ^ 32
        = (if 2 ^ 32 \<le> a mod 2 ^ 32 + b mod 2 ^ 32 then 1 else 0 :: nat)" for a b :: nat
    proof -
      have "a mod 2 ^ 32 < 2 ^ 32" "b mod 2 ^ 32 < (2 ^ 32 :: nat)" by simp_all
      then show ?thesis by (auto simp: div_if le_div_geq)
    qed
    then show ?thesis unfolding distrib_left using div_add1_eq [of "8 * n" "8 * len" "2 ^ 32"] by simp
  qed
  with bits hi show ?thesis
    using word_carry [of "8 * n" "8 * len"] by (simp add: MD5_bump_def Let_def algebra_simps)
qed

lemma MD5_loop_eq:
  assumes "i \<le> length input" and "length input + 64 \<le> 2 ^ 32"
  shows "MD5_loop h input i = Some (absorb MD5_transform h (drop i input),
           length input - (length input - i) mod 64)"
  using assms
proof (induction "length input - i" arbitrary: h i rule: less_induct)
  case less
  have small: "(i + 63) mod 2 ^ 32 = i + 63" "i + 64 \<le> length input \<Longrightarrow> (i + 64) mod 2 ^ 32 = i + 64"
    using less.prems by simp_all
  show ?case
  proof (cases "i + 63 < length input")
    case False
    then show ?thesis
      using less.prems small by (subst MD5_loop.simps) (simp add: absorb_short)
  next
    case True
    let ?h = "MD5_transform h (take 64 (drop i input))"
    have "MD5_loop h input i = MD5_loop ?h input (i + 64)"
      using True small by (subst MD5_loop.simps) simp
    also have "\<dots> = Some (absorb MD5_transform ?h (drop (i + 64) input),
        length input - (length input - (i + 64)) mod 64)"
      using True less.prems by (intro less.hyps) simp_all
    also have "(length input - (i + 64)) mod 64 = (length input - i) mod 64"
      using True le_mod_geq [of 64 "length input - i"] by (simp add: algebra_simps)
    finally show ?thesis
      using True absorb_take_block [of "drop i input" MD5_transform h] by (simp add: add.commute)
  qed
qed

text \<open>The buffer after \<open>MD5_init\<close>, when it held \<open>n\<close> bytes before.\<close>

definition md5_buffer_after :: "nat \<Rightarrow> u8 list \<Rightarrow> u8 list \<Rightarrow> u8 list" where
  "md5_buffer_after n buf input =
     (if n + length input < 64 then store_bytes buf n input
      else store_bytes (store_bytes buf n (take (64 - n) input)) 0 (residue (drop (64 - n) input)))"

lemma residue_drop_eq: "drop (length xs - length xs mod 64) xs = residue xs"
  by (simp add: residue_def)

lemma MD5_init_eq:
  assumes repr: "md5_repr st msg" and len: "length input + 64 \<le> 2 ^ 32"
  shows "MD5_init st input =
     Some (st\<lparr>md_finished := False,
              md_count := (of_nat (8 * length (msg @ input)), of_nat (8 * length (msg @ input) div 2 ^ 32)),
              md_state := absorb MD5_transform md5_init_state (msg @ input),
              md_buffer := md5_buffer_after (length msg mod 64) (md_buffer st) input\<rparr>)"
proof -
  let ?n = "length msg mod 64" and ?T = "absorb MD5_transform"
  have n: "?n < 64" "length (md_buffer st) = 64" "take ?n (md_buffer st) = residue msg"
    and st: "md_state st = ?T md5_init_state msg"
    and cnt: "md_count st = (of_nat (8 * length msg), of_nat (8 * length msg div 2 ^ 32))"
    using repr by (simp_all add: md5_repr_def)
  have idx: "MD5_index (md_count st) = ?n" unfolding cnt by (rule MD5_index_repr)
  have bump: "MD5_bump (md_count st) (length input)
     = (of_nat (8 * length (msg @ input)), of_nat (8 * length (msg @ input) div 2 ^ 32))"
    unfolding cnt length_append using len by (intro MD5_bump_repr) simp
  show ?thesis
  proof (cases "?n + length input < 64")
    case True
    then have "?T md5_init_state (msg @ input) = md_state st"
      by (simp add: absorb_append [of _ _ msg] absorb_short st)
    moreover have "\<not> 64 - ?n \<le> length input" using True by simp
    ultimately show ?thesis
      unfolding MD5_init_def Let_def idx bump md5_buffer_after_def using True by simp
  next
    case False
    let ?a = "take (64 - ?n) input" and ?b = "drop (64 - ?n) input"
    have le: "64 - ?n \<le> length input" using False by simp
    have buf: "store_bytes (md_buffer st) ?n ?a = residue msg @ ?a"
      using n le by (simp add: store_bytes_eq)
    have "residue msg @ input = (residue msg @ ?a) @ ?b" by simp
    then have abs: "?T md5_init_state (msg @ input) = ?T (MD5_transform (md_state st) (residue msg @ ?a)) ?b"
      unfolding absorb_append [of _ _ msg] st
      using n le by (simp only: absorb_block [of "residue msg @ ?a"] length_append length_residue length_take)
    have loop: "MD5_loop h input (64 - ?n) = Some (?T h ?b, length input - (length input - (64 - ?n)) mod 64)" for h
      using le len by (rule MD5_loop_eq)
    have res: "drop (length input - (length input - (64 - ?n)) mod 64) input = residue ?b"
    proof -
      have "residue ?b = drop (64 - ?n + (length ?b - length ?b mod 64)) input"
        by (simp only: residue_def drop_drop add.commute)
      also have "64 - ?n + (length ?b - length ?b mod 64) = length input - length ?b mod 64"
        using le mod_less_eq_dividend [of "length ?b" 64] by simp
      finally show ?thesis by simp
    qed
    show ?thesis
      unfolding MD5_init_def Let_def idx bump
      using le False by (simp add: loop res res [simplified] buf abs md5_buffer_after_def)
  qed
qed

lemma length_md5_buffer_after [simp]: "length (md5_buffer_after n buf input) = length buf"
  by (simp add: md5_buffer_after_def)

lemma take_md5_buffer_after:
  assumes "length buf = 64" and "take (length msg mod 64) buf = residue msg"
  shows "take (length (msg @ input) mod 64) (md5_buffer_after (length msg mod 64) buf input) = residue (msg @ input)"
proof (cases "length msg mod 64 + length input < 64")
  case True
  then have "length (msg @ input) mod 64 = length msg mod 64 + length input"
    by (metis length_append mod_add_left_eq mod_less)
  then show ?thesis
    using True assms residue_append [of msg input] take_store_bytes [of "length msg mod 64" input buf]
    by (simp add: md5_buffer_after_def)
next
  case False
  let ?n = "length msg mod 64"
  let ?a = "take (64 - ?n) input" and ?b = "drop (64 - ?n) input"
  have l: "64 - ?n \<le> length input" "?n < 64" using False by simp_all
  have "residue (msg @ input) = residue (residue msg @ ?a @ ?b)"
    by (simp add: residue_append)
  also have "\<dots> = residue ?b"
    using l residue_drop_block [of "residue msg @ ?a @ ?b"] by simp
  finally have r: "residue (msg @ input) = residue ?b" .
  then have len: "length (msg @ input) mod 64 = length (residue ?b)" by (metis length_residue)
  show ?thesis
    unfolding len md5_buffer_after_def using False r assms take_store_bytes [of 0 "residue ?b"]
    by simp
qed

lemma md5_repr_init:
  assumes "md5_repr st msg" and "length input + 64 \<le> 2 ^ 32" and "MD5_init st input = Some st'"
  shows "md5_repr st' (msg @ input)"
  using assms take_md5_buffer_after [of "md_buffer st" msg input]
  by (auto simp: MD5_init_eq md5_repr_def simp del: length_append)


lemma MD5_encode_eq: "MD5_encode ws = concat (map (\<lambda>w. le_digits 4 (unat w)) ws)"
proof -
  have "[ucast (w AND 0xff), ucast (drop_bit 8 w AND 0xff), ucast (drop_bit 16 w AND 0xff),
         ucast (drop_bit 24 w AND 0xff)] = le_digits 4 (unat w)" for w :: u32
    by (simp add: byte_of_drop byte_of_low le_digits_map upt_rec)
  then show ?thesis by (simp only: MD5_encode_def)
qed

lemma le_digits_add: "le_digits (j + k) n = le_digits j n @ le_digits k (n div 256 ^ j)"
  by (induction j arbitrary: n) (simp_all add: div_mult2_eq)

lemma MD5_length_field:
  "MD5_encode [of_nat n, of_nat (n div 2 ^ 32)] = le_digits 8 n"
proof -
  have "le_digits 4 (unat (of_nat m :: u32)) = le_digits 4 m" for m
    using le_digits_mod [of 4 m] by (simp add: unat_of_nat)
  then show ?thesis
    using le_digits_add [of 4 4 n] by (simp add: MD5_encode_eq)
qed

definition md5_pad :: "nat \<Rightarrow> u8 list" where
  "md5_pad n = take (if n < 56 then 56 - n else 120 - n) MD5_PADDING"

lemma md5_pad_eq:
  "n < 64 \<Longrightarrow> md5_pad n = 0x80 # replicate (if n < 56 then 55 - n else 119 - n) 0"
  by (cases "(if n < 56 then 56 - n else 120 - n)") (auto simp: md5_pad_def MD5_PADDING_def split: if_splits)

lemma md5_pad_padding: "md5_pad (n mod 64) @ f = md_padding n f"
  by (simp add: md5_pad_eq md_padding_def md_pad_count not_less)

text \<open>What is left in the buffer, below the fill mark, once a digest has been taken.\<close>

definition md5_leftover :: "u8 list \<Rightarrow> u8 list" where
  "md5_leftover msg =
     (if length msg mod 64 < 56 then msg
      else take (length msg - length msg mod 64) msg
             @ replicate 56 0 @ take (length msg mod 64 - 56) (le_digits 8 (8 * length msg)))"

lemma length_md5_leftover [simp]: "length (md5_leftover msg) = length msg"
proof -
  have "length msg mod 64 < 64" by simp
  then have "length msg mod 64 - 56 \<le> 8" by linarith
  then show ?thesis by (auto simp: md5_leftover_def not_less min_def)
qed

section \<open>The digest\<close>

lemma absorb_md5_rfc: "absorb MD5_transform h bs = absorb rfc1321_compress h bs"
proof (induction MD5_transform h bs rule: absorb.induct)
  case (1 h bs)
  then show ?case
    by (simp add: absorb.simps [of _ h bs] MD5_transform_rfc)
qed

definition md5_tail :: "u8 list \<Rightarrow> u8 list \<Rightarrow> u8 list" where
  "md5_tail msg buf =
     md5_buffer_after 56 (md5_buffer_after (length msg mod 64) buf (md5_pad (length msg mod 64)))
       (le_digits 8 (8 * length msg))"

lemma length_md5_tail [simp]: "length (md5_tail msg buf) = length buf"
  by (simp add: md5_tail_def)

lemma residue_md5_leftover:
  "56 \<le> length msg mod 64 \<Longrightarrow> residue (md5_leftover msg)
     = replicate 56 0 @ take (length msg mod 64 - 56) (le_digits 8 (8 * length msg))"
  by (simp add: residue_def) (simp add: md5_leftover_def)

lemma take_md5_tail:
  assumes "length buf = 64" and "take (length msg mod 64) buf = residue msg"
  shows "take (length msg mod 64) (md5_tail msg buf) = residue (md5_leftover msg)"
proof (cases "length msg mod 64 < 56")
  case True
  then show ?thesis
    using assms by (simp add: md5_tail_def md5_buffer_after_def md5_leftover_def md5_pad_eq
        take_store_bytes_below)
next
  case False
  let ?n = "length msg mod 64"
  have n: "56 \<le> ?n" "?n < 64" "\<not> ?n + (120 - ?n) < 64" using False by simp_all
  have pad: "drop (64 - ?n) (md5_pad ?n) = replicate 56 0"
    using n by (cases "64 - ?n") (simp_all add: md5_pad_eq)
  have len: "length (md5_pad ?n) = 120 - ?n" using n by (simp add: md5_pad_eq)
  have "take 56 (md5_buffer_after ?n buf (md5_pad ?n)) = replicate 56 0"
    using n(3) assms take_store_bytes [of 0 "replicate 56 (0::u8)"]
    by (simp add: md5_buffer_after_def pad len)
  then have "md5_tail msg buf = replicate 56 0 @ le_digits 8 (8 * length msg)"
    using assms by (simp add: md5_tail_def md5_buffer_after_def [of 56] store_bytes_eq)
  then show ?thesis using n by (simp add: residue_md5_leftover)
qed

lemma absorb_md5_leftover:
  "absorb MD5_transform h (md5_leftover msg) = absorb MD5_transform h msg"
proof (cases "length msg mod 64 < 56")
  case True
  then show ?thesis by (simp add: md5_leftover_def)
next
  case False
  let ?k = "length msg - length msg mod 64"
  have d: "64 dvd length (take ?k msg)" by (simp add: dvd_minus_mod)
  have "absorb MD5_transform h (take ?k msg @ xs) = absorb MD5_transform h (take ?k msg)"
    if "length xs < 64" for xs
    using that by (simp add: absorb_whole [OF d] absorb_short)
  moreover have "length (drop ?k msg) < 64" by (metis length_residue mod_less_divisor residue_def zero_less_numeral)
  moreover have "length (replicate 56 0 @ take (length msg mod 64 - 56) (le_digits 8 (8 * length msg))) < 64"
    using False by (simp add: min_def)
  ultimately show ?thesis
    using False by (metis append_take_drop_id md5_leftover_def)
qed

lemma MD5_getDigest_eq:
  assumes repr: "md5_repr st msg" and "\<not> md_finished st"
  shows "MD5_getDigest st =
     Some (md5_ref msg, st\<lparr>md_finished := False, md_digest := md5_ref msg,
                           md_buffer := md5_tail msg (md_buffer st)\<rparr>)"
proof -
  let ?n = "length msg mod 64"
  have cnt: "md_count st = (of_nat (8 * length msg), of_nat (8 * length msg div 2 ^ 32))"
    using repr by (simp add: md5_repr_def)
  have idx: "MD5_index (md_count st) = ?n" unfolding cnt by (rule MD5_index_repr)
  have bits: "MD5_encode [fst (md_count st), snd (md_count st)] = le_digits 8 (8 * length msg)"
    unfolding cnt fst_conv snd_conv by (rule MD5_length_field)
  have repr1: "md5_repr (st\<lparr>md_finished := True\<rparr>) msg" using repr by (simp add: md5_repr_def)
  have len1: "length (md5_pad ?n) + 64 \<le> 2 ^ 32" 
    using length_take [of _ MD5_PADDING] by (simp add: md5_pad_def MD5_PADDING_def min_def)
  obtain st2 where st2: "MD5_init (st\<lparr>md_finished := True\<rparr>) (md5_pad ?n) = Some st2"
    using MD5_init_eq [OF repr1 len1] by simp
  note e2 = MD5_init_eq [OF repr1 len1, unfolded st2, simplified option.inject]
  have repr2: "md5_repr st2 (msg @ md5_pad ?n)"
    by (rule md5_repr_init [OF repr1 len1 st2])
  have "length (msg @ md5_pad ?n) mod 64 = 56"
  proof -
    obtain q r where q: "length msg = 64 * q + r" "r < 64"
      by (metis mult_div_mod_eq mod_less_divisor zero_less_numeral)
    then have "length (md5_pad ?n) = (if r < 56 then 56 - r else 120 - r)"
      by (auto simp: md5_pad_eq)
    then have "length (msg @ md5_pad ?n) = 64 * q + (if r < 56 then 56 else 120)"
      using q by simp
    then show ?thesis by simp
  qed
  then have e3: "MD5_init st2 (le_digits 8 (8 * length msg)) = Some (st2\<lparr>md_finished := False,
      md_count := (of_nat (8 * length (msg @ md_padding (length msg) (le_digits 8 (8 * length msg)))), of_nat (8 * length (msg @ md_padding (length msg) (le_digits 8 (8 * length msg))) div 2 ^ 32)),
      md_state := absorb MD5_transform md5_init_state (msg @ md_padding (length msg) (le_digits 8 (8 * length msg))),
      md_buffer := md5_tail msg (md_buffer st)\<rparr>)"
    using MD5_init_eq [OF repr2, of "le_digits 8 (8 * length msg)"] e2
    by (simp add: md5_tail_def md5_pad_padding)
  have "md5_ref msg = MD5_encode (absorb MD5_transform md5_init_state (msg @ md_padding (length msg) (le_digits 8 (8 * length msg))))"
    by (simp add: md5_ref_def MD5_encode_eq absorb_md5_rfc md5_init_rfc)
  then show ?thesis
    using assms(2) unfolding MD5_getDigest_def Let_def idx bits md5_pad_def [symmetric] st2 option.case e3
    by (auto simp: e2 intro!: MD5.equality)
qed


lemma md5_repr_leftover:
  assumes "md5_repr st msg" and "\<not> md_finished st" and "MD5_getDigest st = Some (d, st')"
  shows "md5_repr st' (md5_leftover msg)" and "\<not> md_finished st'"
  using assms take_md5_tail [of "md_buffer st" msg]
  by (auto simp: MD5_getDigest_eq md5_repr_def absorb_md5_leftover)

lemma MD5_new_repr:
  assumes "length junk = 64" and "length msg + 64 \<le> 2 ^ 32"
  obtains st where "MD5_new junk junk' msg = Some st" and "md5_repr st msg" and "\<not> md_finished st"
proof -
  let ?st = "\<lparr>md_finished = False, md_state = md5_init_state, md_count = (0, 0),
               md_buffer = junk, md_digest = junk'\<rparr>"
  have r: "md5_repr ?st []" using assms(1) by (simp add: md5_repr_def absorb_short)
  note e = MD5_init_eq [OF r assms(2)]
  obtain st where st: "MD5_init ?st msg = Some st" using e by simp
  have "md5_repr st msg" using md5_repr_init [OF r assms(2) st] by simp
  moreover have "\<not> md_finished st" using e st by auto
  ultimately show ?thesis using that st by (simp add: MD5_new_def)
qed

lemma length_md5_ref [simp]: "length (md5_ref msg) = 16"
proof -
  have "length (absorb rfc1321_compress h bs) = 4" if "length h = 4" for h bs
    using that
  proof (induction rfc1321_compress h bs rule: absorb.induct)
    case (1 h bs)
    then show ?case by (simp add: absorb.simps [of _ h bs] rfc1321_compress_def split_beta Let_def)
  qed
  then show ?thesis
    by (simp add: md5_ref_def length_concat comp_def sum_list_triv rfc1321_init_def)
qed

lemma MD5_toStr_eq:
  assumes "md5_repr st msg" and "\<not> md_finished st"
  shows "map_option fst (MD5_toStr st) = Some (hex_of_bytes (md5_ref msg))"
proof -
  have hex: "hex_of_bytes bs = concat (map (\<lambda>i. let t = unat (bs ! i)
      in [MD5_HEX_NUMBERS ! (t div 16), MD5_HEX_NUMBERS ! (t mod 16)]) [0..<length bs])" for bs
  proof -
    have "hex_of_bytes bs = concat (map (\<lambda>b. [MD5_HEX_NUMBERS ! (unat b div 16), MD5_HEX_NUMBERS ! (unat b mod 16)]) bs)"
      unfolding hex_of_bytes_def nibble_values by (simp add: MD5_HEX_NUMBERS_def dec2hex_def)
    also have "\<dots> = concat (map (\<lambda>b. [MD5_HEX_NUMBERS ! (unat b div 16), MD5_HEX_NUMBERS ! (unat b mod 16)]) (map ((!) bs) [0..<length bs]))"
      by (simp only: map_nth)
    finally show ?thesis by (simp only: map_map comp_def Let_def)
  qed
  show ?thesis using assms by (simp add: MD5_toStr_def MD5_getDigest_eq hex)
qed


section \<open>Properties\<close>

text \<open>
  C13: for every message below 4 GB, whatever the uninitialised buffers hold, constructing an
  \<^verbatim>\<open>MD5\<close> object and printing it returns, and prints the RFC 1321 digest of the message.
\<close>

theorem md5_toStr_correct:
  assumes "length junk = 64" and "length msg + 64 \<le> 2 ^ 32"
  shows "Option.bind (MD5_new junk junk' msg) (\<lambda>st. map_option fst (MD5_toStr st))
       = Some (hex_of_bytes (md5_ref msg))"
proof -
  obtain st where "MD5_new junk junk' msg = Some st" "md5_repr st msg" "\<not> md_finished st"
    using assms by (rule MD5_new_repr)
  then show ?thesis by (simp add: MD5_toStr_eq)
qed

theorem md5_toStr_correct_witness:
  "Option.bind (MD5_new (replicate 64 5) [] [97, 98, 99]) (\<lambda>st. map_option fst (MD5_toStr st))
   = Some (hex_of_bytes (md5_ref [97, 98, 99]))"
  using md5_toStr_correct [of "replicate 64 5" "[97, 98, 99]" "[]"] by simp

text \<open>
  A digest can be taken only once. \<^verbatim>\<open>getDigest\<close> sets \<^verbatim>\<open>finished\<close>, but the two calls of
  \<^verbatim>\<open>init\<close> that absorb the padding clear it again, and they overwrite the buffer; the next
  call therefore digests \<open>md5_leftover msg\<close>: the message itself when its length is below 56
  modulo 64, and otherwise a message whose last partial block is replaced by padding bytes.
\<close>

theorem md5_second_digest:
  assumes "length junk = 64" and "length msg + 64 \<le> 2 ^ 32"
  shows "Option.bind (MD5_new junk junk' msg) (\<lambda>st. Option.bind (MD5_getDigest st)
           (\<lambda>(d, st'). map_option (\<lambda>(d', _). (d, d')) (MD5_getDigest st')))
       = Some (md5_ref msg, md5_ref (md5_leftover msg))"
proof -
  obtain st where st: "MD5_new junk junk' msg = Some st" "md5_repr st msg" "\<not> md_finished st"
    using assms by (rule MD5_new_repr)
  obtain st' where st': "MD5_getDigest st = Some (md5_ref msg, st')"
    using MD5_getDigest_eq [OF st(2,3)] by simp
  from md5_repr_leftover [OF st(2,3) st']
  have "map_option fst (MD5_getDigest st') = Some (md5_ref (md5_leftover msg))"
    by (simp add: MD5_getDigest_eq)
  then show ?thesis using st st' by (auto simp: map_option_case split: option.splits)
qed

theorem md5_second_digest_witness:
  "Option.bind (MD5_new (replicate 64 0) [] (replicate 56 97)) (\<lambda>st. Option.bind (MD5_getDigest st)
     (\<lambda>(d, st'). map_option (\<lambda>(d', _). (d, d')) (MD5_getDigest st')))
   = Some (md5_ref (replicate 56 97), md5_ref (replicate 56 0))"
  using md5_second_digest [of "replicate 64 0" "replicate 56 97" "[]"]
  by (simp add: md5_leftover_def)

end
