(* ===== verification/Swap.thy ===== *)
theory Swap
  imports Sha1
begin

text \<open>
  \<^verbatim>\<open>source/base/swap.h\<close>: byte swapping and the integer type \<^verbatim>\<open>swap_struct_t\<close> that keeps a number in
  the other byte order. The three swaps are modelled by the header's generic implementation (the
  compiler builtins used elsewhere compute the same function). \<^verbatim>\<open>swap_struct_t\<close> is a template over
  the swap of its storage type; the locale \<open>byte_swap\<close> states what it needs of it. The storage type
  is an unsigned word; division by zero, undefined in the source, is None.
\<close>

section \<open>swap16, swap32, swap64\<close>

definition swap16 :: "u16 \<Rightarrow> u16" where
  "swap16 data = drop_bit 8 data OR push_bit 8 data"

definition swap32 :: "u32 \<Rightarrow> u32" where
  "swap32 data =
     drop_bit 24 (data AND 0xFF000000) OR drop_bit 8 (data AND 0x00FF0000)
     OR push_bit 8 (data AND 0x0000FF00) OR push_bit 24 (data AND 0x000000FF)"

definition swap64 :: "u64 \<Rightarrow> u64" where
  "swap64 data =
     drop_bit 56 (data AND 0xFF00000000000000) OR drop_bit 40 (data AND 0x00FF000000000000)
     OR drop_bit 24 (data AND 0x0000FF0000000000) OR drop_bit 8 (data AND 0x000000FF00000000)
     OR push_bit 8 (data AND 0x00000000FF000000) OR push_bit 24 (data AND 0x0000000000FF0000)
     OR push_bit 40 (data AND 0x000000000000FF00) OR push_bit 56 (data AND 0x00000000000000FF)"

section \<open>swap\_struct\_t\<close>

record 't swap_struct =
  ss_value :: 't

definition ss_swap :: "('a::len word \<Rightarrow> 'a word) \<Rightarrow> 'a word swap_struct \<Rightarrow> 'a word" where
  "ss_swap F v = F (ss_value v)"

definition ss_new :: "('a::len word \<Rightarrow> 'a word) \<Rightarrow> 'a word \<Rightarrow> 'a word swap_struct" where
  "ss_new F x = \<lparr>ss_value = F x\<rparr>"

definition ss_assign :: "('a::len word \<Rightarrow> 'a word) \<Rightarrow> 'a word swap_struct \<Rightarrow> 'b::len word \<Rightarrow> 'a word swap_struct" where
  "ss_assign F v source = v\<lparr>ss_value := F (ucast source)\<rparr>"

definition ss_cast :: "('a::len word \<Rightarrow> 'a word) \<Rightarrow> 'a word swap_struct \<Rightarrow> 'b::len word" where
  "ss_cast F v = ucast (ss_swap F v)"

definition ss_pos :: "('a::len word \<Rightarrow> 'a word) \<Rightarrow> 'a word swap_struct \<Rightarrow> 'a word swap_struct" where
  "ss_pos F v = ss_new F (ss_swap F v)"

definition ss_neg :: "('a::len word \<Rightarrow> 'a word) \<Rightarrow> 'a word swap_struct \<Rightarrow> 'a word swap_struct" where
  "ss_neg F v = ss_new F (- ss_swap F v)"

definition ss_div :: "('a::len word \<Rightarrow> 'a word) \<Rightarrow> 'a word swap_struct \<Rightarrow> 'a word swap_struct \<Rightarrow> 'a word swap_struct option" where
  "ss_div F v i = (if ss_swap F i = 0 then None else Some (ss_new F (ss_swap F v div ss_swap F i)))"

definition ss_div_val :: "('a::len word \<Rightarrow> 'a word) \<Rightarrow> 'a word swap_struct \<Rightarrow> 'a word \<Rightarrow> 'a word swap_struct option" where
  "ss_div_val F v i = (if i = 0 then None else Some (ss_new F (ss_swap F v div i)))"

definition ss_mult :: "('a::len word \<Rightarrow> 'a word) \<Rightarrow> 'a word swap_struct \<Rightarrow> 'a word swap_struct \<Rightarrow> 'a word swap_struct" where
  "ss_mult F v i = ss_new F (ss_swap F v * ss_swap F i)"

definition ss_mult_val :: "('a::len word \<Rightarrow> 'a word) \<Rightarrow> 'a word swap_struct \<Rightarrow> 'a word \<Rightarrow> 'a word swap_struct" where
  "ss_mult_val F v i = ss_new F (ss_swap F v * i)"

definition ss_add :: "('a::len word \<Rightarrow> 'a word) \<Rightarrow> 'a word swap_struct \<Rightarrow> 'a word swap_struct \<Rightarrow> 'a word swap_struct" where
  "ss_add F v i = ss_new F (ss_swap F v + ss_swap F i)"

definition ss_add_val :: "('a::len word \<Rightarrow> 'a word) \<Rightarrow> 'a word swap_struct \<Rightarrow> 'a word \<Rightarrow> 'a word swap_struct" where
  "ss_add_val F v i = ss_new F (ss_swap F v + i)"

definition ss_sub :: "('a::len word \<Rightarrow> 'a word) \<Rightarrow> 'a word swap_struct \<Rightarrow> 'a word swap_struct \<Rightarrow> 'a word swap_struct" where
  "ss_sub F v i = ss_new F (ss_swap F v - ss_swap F i)"

definition ss_sub_val :: "('a::len word \<Rightarrow> 'a word) \<Rightarrow> 'a word swap_struct \<Rightarrow> 'a word \<Rightarrow> 'a word swap_struct" where
  "ss_sub_val F v i = ss_new F (ss_swap F v - i)"

definition ss_add_eq :: "('a::len word \<Rightarrow> 'a word) \<Rightarrow> 'a word swap_struct \<Rightarrow> 'a word swap_struct \<Rightarrow> 'a word swap_struct" where
  "ss_add_eq F v i = v\<lparr>ss_value := F (ss_swap F v + ss_swap F i)\<rparr>"

definition ss_add_eq_val :: "('a::len word \<Rightarrow> 'a word) \<Rightarrow> 'a word swap_struct \<Rightarrow> 'a word \<Rightarrow> 'a word swap_struct" where
  "ss_add_eq_val F v i = v\<lparr>ss_value := F (ss_swap F v + i)\<rparr>"

definition ss_sub_eq :: "('a::len word \<Rightarrow> 'a word) \<Rightarrow> 'a word swap_struct \<Rightarrow> 'a word swap_struct \<Rightarrow> 'a word swap_struct" where
  "ss_sub_eq F v i = v\<lparr>ss_value := F (ss_swap F v - ss_swap F i)\<rparr>"

definition ss_sub_eq_val :: "('a::len word \<Rightarrow> 'a word) \<Rightarrow> 'a word swap_struct \<Rightarrow> 'a word \<Rightarrow> 'a word swap_struct" where
  "ss_sub_eq_val F v i = v\<lparr>ss_value := F (ss_swap F v - i)\<rparr>"

definition ss_pre_inc :: "('a::len word \<Rightarrow> 'a word) \<Rightarrow> 'a word swap_struct \<Rightarrow> 'a word swap_struct" where
  "ss_pre_inc F v = v\<lparr>ss_value := F (ss_swap F v + 1)\<rparr>"

definition ss_pre_dec :: "('a::len word \<Rightarrow> 'a word) \<Rightarrow> 'a word swap_struct \<Rightarrow> 'a word swap_struct" where
  "ss_pre_dec F v = v\<lparr>ss_value := F (ss_swap F v - 1)\<rparr>"

definition ss_post_inc :: "('a::len word \<Rightarrow> 'a word) \<Rightarrow> 'a word swap_struct \<Rightarrow> 'a word swap_struct \<times> 'a word swap_struct" where
  "ss_post_inc F v = (v, v\<lparr>ss_value := F (ss_swap F v + 1)\<rparr>)"

definition ss_post_dec :: "('a::len word \<Rightarrow> 'a word) \<Rightarrow> 'a word swap_struct \<Rightarrow> 'a word swap_struct \<times> 'a word swap_struct" where
  "ss_post_dec F v = (v, v\<lparr>ss_value := F (ss_swap F v - 1)\<rparr>)"

definition ss_equals :: "('a::len word \<Rightarrow> 'a word) \<Rightarrow> 'a word swap_struct \<Rightarrow> 'a word swap_struct \<Rightarrow> bool" where
  "ss_equals F v i \<longleftrightarrow> ss_swap F v = ss_swap F i"

definition ss_equals_val :: "('a::len word \<Rightarrow> 'a word) \<Rightarrow> 'a word swap_struct \<Rightarrow> 'a word \<Rightarrow> bool" where
  "ss_equals_val F v i \<longleftrightarrow> ss_swap F v = i"

definition ss_differs :: "('a::len word \<Rightarrow> 'a word) \<Rightarrow> 'a word swap_struct \<Rightarrow> 'a word swap_struct \<Rightarrow> bool" where
  "ss_differs F v i \<longleftrightarrow> ss_swap F v \<noteq> ss_swap F i"

definition ss_differs_val :: "('a::len word \<Rightarrow> 'a word) \<Rightarrow> 'a word swap_struct \<Rightarrow> 'a word \<Rightarrow> bool" where
  "ss_differs_val F v i \<longleftrightarrow> ss_swap F v \<noteq> i"

definition ss_greater :: "('a::len word \<Rightarrow> 'a word) \<Rightarrow> 'a word swap_struct \<Rightarrow> 'a word swap_struct \<Rightarrow> bool" where
  "ss_greater F v i \<longleftrightarrow> ss_swap F v > ss_swap F i"

definition ss_greater_val :: "('a::len word \<Rightarrow> 'a word) \<Rightarrow> 'a word swap_struct \<Rightarrow> 'a word \<Rightarrow> bool" where
  "ss_greater_val F v i \<longleftrightarrow> ss_swap F v > i"

definition ss_less :: "('a::len word \<Rightarrow> 'a word) \<Rightarrow> 'a word swap_struct \<Rightarrow> 'a word swap_struct \<Rightarrow> bool" where
  "ss_less F v i \<longleftrightarrow> ss_swap F v < ss_swap F i"

definition ss_less_val :: "('a::len word \<Rightarrow> 'a word) \<Rightarrow> 'a word swap_struct \<Rightarrow> 'a word \<Rightarrow> bool" where
  "ss_less_val F v i \<longleftrightarrow> ss_swap F v < i"

definition ss_geq :: "('a::len word \<Rightarrow> 'a word) \<Rightarrow> 'a word swap_struct \<Rightarrow> 'a word swap_struct \<Rightarrow> bool" where
  "ss_geq F v i \<longleftrightarrow> ss_swap F v \<ge> ss_swap F i"

definition ss_geq_val :: "('a::len word \<Rightarrow> 'a word) \<Rightarrow> 'a word swap_struct \<Rightarrow> 'a word \<Rightarrow> bool" where
  "ss_geq_val F v i \<longleftrightarrow> ss_swap F v \<ge> i"

definition ss_leq :: "('a::len word \<Rightarrow> 'a word) \<Rightarrow> 'a word swap_struct \<Rightarrow> 'a word swap_struct \<Rightarrow> bool" where
  "ss_leq F v i \<longleftrightarrow> ss_swap F v \<le> ss_swap F i"

definition ss_leq_val :: "('a::len word \<Rightarrow> 'a word) \<Rightarrow> 'a word swap_struct \<Rightarrow> 'a word \<Rightarrow> bool" where
  "ss_leq_val F v i \<longleftrightarrow> ss_swap F v \<le> i"

definition ss_lnot :: "('a::len word \<Rightarrow> 'a word) \<Rightarrow> 'a word swap_struct \<Rightarrow> 'a word swap_struct" where
  "ss_lnot F v = ss_new F (of_bool (ss_swap F v = 0))"

definition ss_compl :: "('a::len word \<Rightarrow> 'a word) \<Rightarrow> 'a word swap_struct \<Rightarrow> 'a word swap_struct" where
  "ss_compl F v = ss_new F (NOT (ss_swap F v))"

definition ss_and :: "('a::len word \<Rightarrow> 'a word) \<Rightarrow> 'a word swap_struct \<Rightarrow> 'a word swap_struct \<Rightarrow> 'a word swap_struct" where
  "ss_and F v b = ss_new F (ss_swap F v AND ss_swap F b)"

definition ss_and_val :: "('a::len word \<Rightarrow> 'a word) \<Rightarrow> 'a word swap_struct \<Rightarrow> 'a word \<Rightarrow> 'a word swap_struct" where
  "ss_and_val F v b = ss_new F (ss_swap F v AND b)"

definition ss_and_eq :: "('a::len word \<Rightarrow> 'a word) \<Rightarrow> 'a word swap_struct \<Rightarrow> 'a word swap_struct \<Rightarrow> 'a word swap_struct" where
  "ss_and_eq F v b = v\<lparr>ss_value := F (ss_swap F v AND ss_swap F b)\<rparr>"

definition ss_and_eq_val :: "('a::len word \<Rightarrow> 'a word) \<Rightarrow> 'a word swap_struct \<Rightarrow> 'a word \<Rightarrow> 'a word swap_struct" where
  "ss_and_eq_val F v b = v\<lparr>ss_value := F (ss_swap F v AND b)\<rparr>"

definition ss_or :: "('a::len word \<Rightarrow> 'a word) \<Rightarrow> 'a word swap_struct \<Rightarrow> 'a word swap_struct \<Rightarrow> 'a word swap_struct" where
  "ss_or F v b = ss_new F (ss_swap F v OR ss_swap F b)"

definition ss_or_val :: "('a::len word \<Rightarrow> 'a word) \<Rightarrow> 'a word swap_struct \<Rightarrow> 'a word \<Rightarrow> 'a word swap_struct" where
  "ss_or_val F v b = ss_new F (ss_swap F v OR b)"

definition ss_or_eq :: "('a::len word \<Rightarrow> 'a word) \<Rightarrow> 'a word swap_struct \<Rightarrow> 'a word swap_struct \<Rightarrow> 'a word swap_struct" where
  "ss_or_eq F v b = v\<lparr>ss_value := F (ss_swap F v OR ss_swap F b)\<rparr>"

definition ss_or_eq_val :: "('a::len word \<Rightarrow> 'a word) \<Rightarrow> 'a word swap_struct \<Rightarrow> 'a word \<Rightarrow> 'a word swap_struct" where
  "ss_or_eq_val F v b = v\<lparr>ss_value := F (ss_swap F v OR b)\<rparr>"

definition ss_xor :: "('a::len word \<Rightarrow> 'a word) \<Rightarrow> 'a word swap_struct \<Rightarrow> 'a word swap_struct \<Rightarrow> 'a word swap_struct" where
  "ss_xor F v b = ss_new F (ss_swap F v XOR ss_swap F b)"

definition ss_xor_val :: "('a::len word \<Rightarrow> 'a word) \<Rightarrow> 'a word swap_struct \<Rightarrow> 'a word \<Rightarrow> 'a word swap_struct" where
  "ss_xor_val F v b = ss_new F (ss_swap F v XOR b)"

definition ss_xor_eq :: "('a::len word \<Rightarrow> 'a word) \<Rightarrow> 'a word swap_struct \<Rightarrow> 'a word swap_struct \<Rightarrow> 'a word swap_struct" where
  "ss_xor_eq F v b = v\<lparr>ss_value := F (ss_swap F v XOR ss_swap F b)\<rparr>"

definition ss_xor_eq_val :: "('a::len word \<Rightarrow> 'a word) \<Rightarrow> 'a word swap_struct \<Rightarrow> 'a word \<Rightarrow> 'a word swap_struct" where
  "ss_xor_eq_val F v b = v\<lparr>ss_value := F (ss_swap F v XOR b)\<rparr>"

definition ss_shl :: "('a::len word \<Rightarrow> 'a word) \<Rightarrow> 'a word swap_struct \<Rightarrow> nat \<Rightarrow> 'a word swap_struct" where
  "ss_shl F v b = ss_new F (push_bit b (ss_swap F v))"

definition ss_shr :: "('a::len word \<Rightarrow> 'a word) \<Rightarrow> 'a word swap_struct \<Rightarrow> nat \<Rightarrow> 'a word swap_struct" where
  "ss_shr F v b = ss_new F (drop_bit b (ss_swap F v))"

definition val_add :: "('a::len word \<Rightarrow> 'a word) \<Rightarrow> 'a word \<Rightarrow> 'a word swap_struct \<Rightarrow> 'a word" where
  "val_add F i v = i + ss_swap F v"

definition val_sub :: "('a::len word \<Rightarrow> 'a word) \<Rightarrow> 'a word \<Rightarrow> 'a word swap_struct \<Rightarrow> 'a word" where
  "val_sub F i v = i - ss_swap F v"

definition val_mult :: "('a::len word \<Rightarrow> 'a word) \<Rightarrow> 'a word \<Rightarrow> 'a word swap_struct \<Rightarrow> 'a word" where
  "val_mult F i v = i * ss_swap F v"

definition val_and :: "('a::len word \<Rightarrow> 'a word) \<Rightarrow> 'a word \<Rightarrow> 'a word swap_struct \<Rightarrow> 'a word" where
  "val_and F i v = i AND ss_swap F v"

definition val_div :: "('a::len word \<Rightarrow> 'a word) \<Rightarrow> 'a word \<Rightarrow> 'a word swap_struct \<Rightarrow> 'a word option" where
  "val_div F i v = (if ss_swap F v = 0 then None else Some (i div ss_swap F v))"

definition val_mod :: "('a::len word \<Rightarrow> 'a word) \<Rightarrow> 'a word \<Rightarrow> 'a word swap_struct \<Rightarrow> 'a word option" where
  "val_mod F i v = (if ss_swap F v = 0 then None else Some (i mod ss_swap F v))"

definition val_add_eq :: "('a::len word \<Rightarrow> 'a word) \<Rightarrow> 'a word \<Rightarrow> 'a word swap_struct \<Rightarrow> 'a word" where
  "val_add_eq F i v = i + ss_swap F v"

definition val_sub_eq :: "('a::len word \<Rightarrow> 'a word) \<Rightarrow> 'a word \<Rightarrow> 'a word swap_struct \<Rightarrow> 'a word" where
  "val_sub_eq F i v = i - ss_swap F v"

definition val_and_struct :: "('a::len word \<Rightarrow> 'a word) \<Rightarrow> 'a word swap_struct \<Rightarrow> 'a word \<Rightarrow> 'a word" where
  "val_and_struct F v i = ss_swap F v AND i"

definition val_less :: "('a::len word \<Rightarrow> 'a word) \<Rightarrow> 'a word \<Rightarrow> 'a word swap_struct \<Rightarrow> bool" where
  "val_less F p v \<longleftrightarrow> p < ss_swap F v"

definition val_greater :: "('a::len word \<Rightarrow> 'a word) \<Rightarrow> 'a word \<Rightarrow> 'a word swap_struct \<Rightarrow> bool" where
  "val_greater F p v \<longleftrightarrow> p > ss_swap F v"

definition val_leq :: "('a::len word \<Rightarrow> 'a word) \<Rightarrow> 'a word \<Rightarrow> 'a word swap_struct \<Rightarrow> bool" where
  "val_leq F p v \<longleftrightarrow> p \<le> ss_swap F v"

definition val_geq :: "('a::len word \<Rightarrow> 'a word) \<Rightarrow> 'a word \<Rightarrow> 'a word swap_struct \<Rightarrow> bool" where
  "val_geq F p v \<longleftrightarrow> p \<ge> ss_swap F v"

definition val_differs :: "('a::len word \<Rightarrow> 'a word) \<Rightarrow> 'a word \<Rightarrow> 'a word swap_struct \<Rightarrow> bool" where
  "val_differs F p v \<longleftrightarrow> p \<noteq> ss_swap F v"

definition val_equals :: "('a::len word \<Rightarrow> 'a word) \<Rightarrow> 'a word \<Rightarrow> 'a word swap_struct \<Rightarrow> bool" where
  "val_equals F p v \<longleftrightarrow> p = ss_swap F v"

section \<open>The number a swapped integer stands for\<close>

locale byte_swap =
  fixes F :: "'a::len word \<Rightarrow> 'a word"
  assumes involution: "F (F x) = x"
begin

lemma swap_new [simp]: "ss_swap F (ss_new F x) = x"
  by (simp add: ss_swap_def ss_new_def involution)

lemma swap_store [simp]: "ss_swap F (v\<lparr>ss_value := F x\<rparr>) = x"
  by (simp add: ss_swap_def involution)

lemma swap_arith:
  "ss_swap F (ss_add F v i) = ss_swap F v + ss_swap F i"
  "ss_swap F (ss_sub F v i) = ss_swap F v - ss_swap F i"
  "ss_swap F (ss_mult F v i) = ss_swap F v * ss_swap F i"
  "ss_swap F (ss_neg F v) = - ss_swap F v"
  "ss_swap F (ss_pos F v) = ss_swap F v"
  "map_option (ss_swap F) (ss_div F v i)
     = (if ss_swap F i = 0 then None else Some (ss_swap F v div ss_swap F i))"
  by (simp_all add: ss_add_def ss_sub_def ss_mult_def ss_neg_def ss_pos_def ss_div_def)

lemma swap_arith_val:
  "ss_swap F (ss_add_val F v n) = ss_swap F v + n"
  "ss_swap F (ss_sub_val F v n) = ss_swap F v - n"
  "ss_swap F (ss_mult_val F v n) = ss_swap F v * n"
  "ss_swap F (ss_add_eq_val F v n) = ss_swap F v + n"
  "ss_swap F (ss_sub_eq_val F v n) = ss_swap F v - n"
  by (simp_all add: ss_add_val_def ss_sub_val_def ss_mult_val_def ss_add_eq_val_def ss_sub_eq_val_def)

lemma swap_update:
  "ss_swap F (ss_assign F v source) = ucast source"
  "ss_swap F (ss_add_eq F v i) = ss_swap F v + ss_swap F i"
  "ss_swap F (ss_sub_eq F v i) = ss_swap F v - ss_swap F i"
  "ss_swap F (ss_pre_inc F v) = ss_swap F v + 1"
  "ss_swap F (ss_pre_dec F v) = ss_swap F v - 1"
  "ss_swap F (ss_and_eq F v i) = (ss_swap F v AND ss_swap F i)"
  "ss_swap F (ss_or_eq F v i) = (ss_swap F v OR ss_swap F i)"
  "ss_swap F (ss_xor_eq F v i) = (ss_swap F v XOR ss_swap F i)"
  by (simp_all add: ss_assign_def ss_add_eq_def ss_sub_eq_def ss_pre_inc_def ss_pre_dec_def
      ss_and_eq_def ss_or_eq_def ss_xor_eq_def)

lemma swap_bitwise:
  "ss_swap F (ss_compl F v) = NOT (ss_swap F v)"
  "ss_swap F (ss_and F v i) = (ss_swap F v AND ss_swap F i)"
  "ss_swap F (ss_or F v i) = (ss_swap F v OR ss_swap F i)"
  "ss_swap F (ss_xor F v i) = (ss_swap F v XOR ss_swap F i)"
  "ss_swap F (ss_shl F v n) = push_bit n (ss_swap F v)"
  "ss_swap F (ss_shr F v n) = drop_bit n (ss_swap F v)"
  by (simp_all add: ss_compl_def ss_and_def ss_or_def ss_xor_def ss_shl_def ss_shr_def)

lemma swap_inj: "ss_swap F v = ss_swap F w \<Longrightarrow> ss_value v = ss_value w"
  by (metis ss_swap_def involution)

text \<open>Comparing two stored values for equality needs no swap at all.\<close>

lemma equals_stored: "ss_equals F v w \<longleftrightarrow> ss_value v = ss_value w"
  by (auto simp: ss_equals_def ss_swap_def dest: arg_cong [where f = F])
    (metis involution)

text \<open>A postfix operator returns the old value and moves on; two of them undo each other.\<close>

lemma post_inc_dec:
  "fst (ss_post_inc F v) = v"
  "snd (ss_post_dec F (snd (ss_post_inc F v))) = v"
  by (simp_all add: ss_post_inc_def ss_post_dec_def ss_swap_def involution)

end

section \<open>The three swaps reverse the bytes\<close>

lemma word_le_digits: "(x :: 'a::len word) = of_nat (le_value (le_digits k (unat x)))"
  if "256 ^ k = (2 :: nat) ^ LENGTH('a)"
proof -
  have "le_value (le_digits k (unat x)) = unat x"
    unfolding le_value_digits that by (rule mod_less) (rule unsigned_less)
  then show ?thesis by simp
qed

lemma byte_masks32:
  "(0xFF000000 :: u32) = push_bit 24 (mask 8)" "(0x00FF0000 :: u32) = push_bit 16 (mask 8)"
  "(0x0000FF00 :: u32) = push_bit 8 (mask 8)" "(0x000000FF :: u32) = mask 8"
  by (simp_all add: mask_eq_exp_minus_1 push_bit_eq_mult)

lemma byte_masks64:
  "(0xFF00000000000000 :: u64) = push_bit 56 (mask 8)" "(0x00FF000000000000 :: u64) = push_bit 48 (mask 8)"
  "(0x0000FF0000000000 :: u64) = push_bit 40 (mask 8)" "(0x000000FF00000000 :: u64) = push_bit 32 (mask 8)"
  "(0x00000000FF000000 :: u64) = push_bit 24 (mask 8)" "(0x0000000000FF0000 :: u64) = push_bit 16 (mask 8)"
  "(0x000000000000FF00 :: u64) = push_bit 8 (mask 8)" "(0x00000000000000FF :: u64) = mask 8"
  by (simp_all add: mask_eq_exp_minus_1 push_bit_eq_mult)

lemma swap16_bit: "n < 16 \<Longrightarrow> bit (swap16 x) n = bit x (8 * (1 - n div 8) + n mod 8)"
proof -
  assume n: "n < 16"
  have "list_all (\<lambda>n. bit (swap16 x) n = bit x (8 * (1 - n div 8) + n mod 8)) [0..<16]"
    unfolding swap16_def
    by (simp add: upt_rec bit_simps) (auto simp: numeral_eq_Suc dest: bit_imp_le_length)
  with n show ?thesis by (simp add: list_all_iff)
qed

lemma swap32_bit: "n < 32 \<Longrightarrow> bit (swap32 x) n = bit x (8 * (3 - n div 8) + n mod 8)"
proof -
  assume n: "n < 32"
  have "list_all (\<lambda>n. bit (swap32 x) n = bit x (8 * (3 - n div 8) + n mod 8)) [0..<32]"
    unfolding swap32_def byte_masks32
    by (simp add: upt_rec bit_simps) (simp add: numeral_eq_Suc)
  with n show ?thesis by (simp add: list_all_iff)
qed

lemma swap64_bit: "n < 64 \<Longrightarrow> bit (swap64 x) n = bit x (8 * (7 - n div 8) + n mod 8)"
proof -
  assume n: "n < 64"
  have "list_all (\<lambda>n. bit (swap64 x) n = bit x (8 * (7 - n div 8) + n mod 8)) [0..<64]"
    unfolding swap64_def byte_masks64
    by (simp add: upt_rec bit_simps) (simp add: numeral_eq_Suc)
  with n show ?thesis by (simp add: list_all_iff)
qed

lemma le_digits_reversed:
  fixes x y :: "'a::len word"
  assumes len: "8 * k = LENGTH('a)" and k: "0 < k"
    and bits: "\<And>n. n < 8 * k \<Longrightarrow> bit y n = bit x (8 * (k - 1 - n div 8) + n mod 8)"
  shows "le_digits k (unat y) = rev (le_digits k (unat x))"
proof (rule nth_equalityI)
  fix i
  assume "i < length (le_digits k (unat y))"
  then have i: "i < k" by simp
  have dig: "le_digits k (unat w) ! j = ucast (drop_bit (8 * j) w)" if "j < k" for j and w :: "'a word"
    using that byte_of_drop [of "8 * j" w] by (simp add: le_digits_map power_mult)
  have "(ucast (drop_bit (8 * i) y) :: u8) = ucast (drop_bit (8 * (k - 1 - i)) x)"
  proof (rule bit_word_eqI)
    fix n
    assume "n < LENGTH(8)"
    then have n: "n < 8" by simp
    then have "bit y (8 * i + n) = bit x (8 * (k - 1 - i) + n)"
      using i by (subst bits) auto
    then show "bit (ucast (drop_bit (8 * i) y) :: u8) n = bit (ucast (drop_bit (8 * (k - 1 - i)) x) :: u8) n"
      using n by (simp add: bit_simps)
  qed
  then show "le_digits k (unat y) ! i = rev (le_digits k (unat x)) ! i"
    using i by (simp add: rev_nth dig)
qed simp

lemma swap_bytes:
  "le_digits 2 (unat (swap16 a)) = rev (le_digits 2 (unat a))"
  "le_digits 4 (unat (swap32 b)) = rev (le_digits 4 (unat b))"
  "le_digits 8 (unat (swap64 c)) = rev (le_digits 8 (unat c))"
  by (rule le_digits_reversed; simp add: swap16_bit swap32_bit swap64_bit)+

lemma reversed_involution:
  fixes f :: "'a::len word \<Rightarrow> 'a word"
  assumes "256 ^ k = (2 :: nat) ^ LENGTH('a)"
    and "\<And>x. le_digits k (unat (f x)) = rev (le_digits k (unat x))"
  shows "f (f x) = x"
  using word_le_digits [OF assms(1), of "f (f x)"] word_le_digits [OF assms(1), of x] assms(2) by simp

lemma swap16_involution: "swap16 (swap16 a) = a"
  by (rule reversed_involution [of 2]) (simp_all add: swap_bytes)

lemma swap32_involution: "swap32 (swap32 a) = a"
  by (rule reversed_involution [of 4]) (simp_all add: swap_bytes)

lemma swap64_involution: "swap64 (swap64 a) = a"
  by (rule reversed_involution [of 8]) (simp_all add: swap_bytes)

interpretation be16: byte_swap swap16 by unfold_locales (rule swap16_involution)
interpretation be32: byte_swap swap32 by unfold_locales (rule swap32_involution)
interpretation be64: byte_swap swap64 by unfold_locales (rule swap64_involution)

section \<open>Properties\<close>

text \<open>
  A big-endian 32-bit integer of \<^verbatim>\<open>swap.h\<close> on a little-endian target. Whatever arithmetic is
  done on it, the four bytes in memory are the big-endian digits of the result: for a sum, of the
  sum modulo \<open>2^32\<close> of the two numbers.
\<close>

theorem u32_be_layout:
  "le_digits 4 (unat (ss_value (ss_add swap32 v w)))
     = rev (le_digits 4 (unat (ss_swap swap32 v) + unat (ss_swap swap32 w)))
   \<and> le_digits 4 (unat (ss_value v)) = rev (le_digits 4 (unat (ss_swap swap32 v)))"
proof -
  have "le_digits 4 (unat (x + y)) = le_digits 4 (unat x + unat y)" for x y :: u32
    using le_digits_mod [of 4 "unat x + unat y"] by (simp add: unat_word_ariths)
  moreover have "le_digits 4 (unat (ss_value u)) = rev (le_digits 4 (unat (ss_swap swap32 u)))" for u :: "u32 swap_struct"
    by (simp add: ss_swap_def swap_bytes)
  ultimately show ?thesis by (simp add: be32.swap_arith)
qed

end
