(* ===== verification/City_Hash.thy ===== *)
theory City_Hash
  imports Swap "HOL-Library.Monad_Syntax"
begin

text \<open>
  \<^verbatim>\<open>source/base/cityhash.cpp\<close> and \<^verbatim>\<open>cityhash.h\<close>. A pointer is the array together with an offset into
  it; a load outside the array is None, so that every function says whether it stays inside its
  input. All arithmetic is on 64-bit words; the target is little-endian.
\<close>

section \<open>Loads and mixing\<close>

definition Fetch64 :: "u8 list \<Rightarrow> int \<Rightarrow> u64 option" where
  "Fetch64 s p = (if 0 \<le> p \<and> p + 8 \<le> int (length s)
                  then Some (of_nat (le_value (take 8 (drop (nat p) s)))) else None)"

definition Fetch32 :: "u8 list \<Rightarrow> int \<Rightarrow> u64 option" where
  "Fetch32 s p = (if 0 \<le> p \<and> p + 4 \<le> int (length s)
                  then Some (of_nat (le_value (take 4 (drop (nat p) s)))) else None)"

definition byte_at :: "u8 list \<Rightarrow> int \<Rightarrow> u8 option" where
  "byte_at s p = (if 0 \<le> p \<and> p < int (length s) then Some (s ! nat p) else None)"

definition k0 :: u64 where "k0 = 0xc3a5c85c97cb3127"
definition k1 :: u64 where "k1 = 0xb492b66fbe98f273"
definition k2 :: u64 where "k2 = 0x9ae16a3b2f90404f"

definition Rotate :: "u64 \<Rightarrow> nat \<Rightarrow> u64" where
  "Rotate val shift = (if shift = 0 then val else drop_bit shift val OR push_bit (64 - shift) val)"

definition ShiftMix :: "u64 \<Rightarrow> u64" where
  "ShiftMix val = val XOR drop_bit 47 val"

definition Hash128to64 :: "u64 \<times> u64 \<Rightarrow> u64" where
  "Hash128to64 x =
     (let mul = 0x9ddfea08eb382d69;
          a = (fst x XOR snd x) * mul;
          a = a XOR drop_bit 47 a;
          b = (snd x XOR a) * mul;
          b = b XOR drop_bit 47 b
      in b * mul)"

definition HashLen16 :: "u64 \<Rightarrow> u64 \<Rightarrow> u64" where
  "HashLen16 u v = Hash128to64 (u, v)"

definition HashLen16_mul :: "u64 \<Rightarrow> u64 \<Rightarrow> u64 \<Rightarrow> u64" where
  "HashLen16_mul u v mul =
     (let a = (u XOR v) * mul;
          a = a XOR drop_bit 47 a;
          b = (v XOR a) * mul;
          b = b XOR drop_bit 47 b
      in b * mul)"

section \<open>Short inputs\<close>

definition HashLen0to16 :: "u8 list \<Rightarrow> int \<Rightarrow> nat \<Rightarrow> u64 option" where
  "HashLen0to16 s p len =
     (if len \<ge> 8 then do {
        let mul = k2 + of_nat len * 2;
        f \<leftarrow> Fetch64 s p;
        let a = f + k2;
        b \<leftarrow> Fetch64 s (p + int len - 8);
        let c = Rotate b 37 * mul + a;
        let d = (Rotate a 25 + b) * mul;
        Some (HashLen16_mul c d mul)
      }
      else if len \<ge> 4 then do {
        let mul = k2 + of_nat len * 2;
        a \<leftarrow> Fetch32 s p;
        e \<leftarrow> Fetch32 s (p + int len - 4);
        Some (HashLen16_mul (of_nat len + push_bit 3 a) e mul)
      }
      else if len > 0 then do {
        a \<leftarrow> byte_at s p;
        b \<leftarrow> byte_at s (p + int (len div 2));
        c \<leftarrow> byte_at s (p + int len - 1);
        let y = (ucast a :: u32) + push_bit 8 (ucast b);
        let z = (of_nat len :: u32) + push_bit 2 (ucast c);
        Some (ShiftMix (ucast y * k2 XOR ucast z * k0) * k2)
      }
      else Some k2)"

definition HashLen17to32 :: "u8 list \<Rightarrow> int \<Rightarrow> nat \<Rightarrow> u64 option" where
  "HashLen17to32 s p len = do {
     let mul = k2 + of_nat len * 2;
     f0 \<leftarrow> Fetch64 s p;
     let a = f0 * k1;
     b \<leftarrow> Fetch64 s (p + 8);
     f2 \<leftarrow> Fetch64 s (p + int len - 8);
     let c = f2 * mul;
     f3 \<leftarrow> Fetch64 s (p + int len - 16);
     let d = f3 * k2;
     Some (HashLen16_mul (Rotate (a + b) 43 + Rotate c 30 + d) (a + Rotate (b + k2) 18 + c) mul)
   }"

definition WeakHashLen32WithSeeds6 :: "u64 \<Rightarrow> u64 \<Rightarrow> u64 \<Rightarrow> u64 \<Rightarrow> u64 \<Rightarrow> u64 \<Rightarrow> u64 \<times> u64" where
  "WeakHashLen32WithSeeds6 w x y z a b =
     (let a = a + w;
          b = Rotate (b + a + z) 21;
          c = a;
          a = a + x;
          a = a + y;
          b = b + Rotate a 44
      in (a + z, b + c))"

definition WeakHashLen32WithSeeds :: "u8 list \<Rightarrow> int \<Rightarrow> u64 \<Rightarrow> u64 \<Rightarrow> (u64 \<times> u64) option" where
  "WeakHashLen32WithSeeds s p a b = do {
     w \<leftarrow> Fetch64 s p;
     x \<leftarrow> Fetch64 s (p + 8);
     y \<leftarrow> Fetch64 s (p + 16);
     z \<leftarrow> Fetch64 s (p + 24);
     Some (WeakHashLen32WithSeeds6 w x y z a b)
   }"

definition HashLen33to64 :: "u8 list \<Rightarrow> int \<Rightarrow> nat \<Rightarrow> u64 option" where
  "HashLen33to64 s p len = do {
     let mul = k2 + of_nat len * 2;
     f0 \<leftarrow> Fetch64 s p;
     let a = f0 * k2;
     b \<leftarrow> Fetch64 s (p + 8);
     c \<leftarrow> Fetch64 s (p + int len - 24);
     d \<leftarrow> Fetch64 s (p + int len - 32);
     f4 \<leftarrow> Fetch64 s (p + 16);
     let e = f4 * k2;
     f5 \<leftarrow> Fetch64 s (p + 24);
     let f = f5 * 9;
     g \<leftarrow> Fetch64 s (p + int len - 8);
     f7 \<leftarrow> Fetch64 s (p + int len - 16);
     let h = f7 * mul;
     let u = Rotate (a + g) 43 + (Rotate b 30 + c) * 9;
     let v = ((a + g) XOR d) + f + 1;
     let w = swap64 ((u + v) * mul) + h;
     let x = Rotate (e + f) 42 + c;
     let y = (swap64 ((v + w) * mul) + g) * mul;
     let z = e + f + c;
     let a = swap64 ((x + z) * mul + y) + b;
     let b = ShiftMix ((z + a) * mul + d + h) * mul;
     Some (b + x)
   }"

section \<open>CityHash64\<close>

type_synonym city_state = "u64 \<times> u64 \<times> u64 \<times> (u64 \<times> u64) \<times> (u64 \<times> u64)"

text \<open>The body of the loop over chunks of 64 bytes, shared by the 64-bit and 128-bit hashes.\<close>

definition city_step :: "u8 list \<Rightarrow> int \<Rightarrow> city_state \<Rightarrow> city_state option" where
  "city_step s p st = do {
     let (x, y, z, v, w) = st;
     f8 \<leftarrow> Fetch64 s (p + 8);
     let x = Rotate (x + y + fst v + f8) 37 * k1;
     f48 \<leftarrow> Fetch64 s (p + 48);
     let y = Rotate (y + snd v + f48) 42 * k1;
     let x = x XOR snd w;
     f40 \<leftarrow> Fetch64 s (p + 40);
     let y = y + (fst v + f40);
     let z = Rotate (z + fst w) 33 * k1;
     v \<leftarrow> WeakHashLen32WithSeeds s p (snd v * k1) (x + fst w);
     f16 \<leftarrow> Fetch64 s (p + 16);
     w \<leftarrow> WeakHashLen32WithSeeds s (p + 32) (z + snd w) (y + f16);
     Some (z, y, x, v, w)
   }"

text \<open>The do-while loop; \<open>len\<close> is the \<^verbatim>\<open>size_t\<close> counter, which must come down to exactly zero.\<close>

partial_function (option) city64_loop :: "u8 list \<Rightarrow> int \<Rightarrow> u64 \<Rightarrow> city_state \<Rightarrow> city_state option" where
  "city64_loop s p len st =
     Option.bind (city_step s p st)
       (\<lambda>st'. if len - 64 \<noteq> 0 then city64_loop s (p + 64) (len - 64) st' else Some st')"

declare city64_loop.simps [code]

definition CityHash64 :: "u8 list \<Rightarrow> int \<Rightarrow> nat \<Rightarrow> u64 option" where
  "CityHash64 s p len =
     (if len = 0 then Some 0
      else if len \<le> 32 then
        (if len \<le> 16 then HashLen0to16 s p len else HashLen17to32 s p len)
      else if len \<le> 64 then HashLen33to64 s p len
      else do {
        x \<leftarrow> Fetch64 s (p + int len - 40);
        g16 \<leftarrow> Fetch64 s (p + int len - 16);
        g56 \<leftarrow> Fetch64 s (p + int len - 56);
        let y = g16 + g56;
        g48 \<leftarrow> Fetch64 s (p + int len - 48);
        g24 \<leftarrow> Fetch64 s (p + int len - 24);
        let z = HashLen16 (g48 + of_nat len) g24;
        v \<leftarrow> WeakHashLen32WithSeeds s (p + int len - 64) (of_nat len) z;
        w \<leftarrow> WeakHashLen32WithSeeds s (p + int len - 32) (y + k1) x;
        f0 \<leftarrow> Fetch64 s p;
        let x = x * k1 + f0;
        (x, y, z, v, w) \<leftarrow> city64_loop s p ((of_nat len - 1) AND NOT 63) (x, y, z, v, w);
        Some (HashLen16 (HashLen16 (fst v) (fst w) + ShiftMix y * k1 + z)
                        (HashLen16 (snd v) (snd w) + x))
      })"

definition CityHash64WithSeeds :: "u8 list \<Rightarrow> int \<Rightarrow> nat \<Rightarrow> u64 \<Rightarrow> u64 \<Rightarrow> u64 option" where
  "CityHash64WithSeeds s p len seed0 seed1 = do {
     h \<leftarrow> CityHash64 s p len;
     Some (HashLen16 (h - seed0) seed1)
   }"

definition CityHash64WithSeed :: "u8 list \<Rightarrow> int \<Rightarrow> nat \<Rightarrow> u64 \<Rightarrow> u64 option" where
  "CityHash64WithSeed s p len seed = CityHash64WithSeeds s p len k2 seed"

section \<open>CityHash128\<close>

function murmur_loop :: "u8 list \<Rightarrow> int \<Rightarrow> int \<Rightarrow> u64 \<times> u64 \<times> u64 \<times> u64 \<Rightarrow> (u64 \<times> u64 \<times> u64 \<times> u64) option" where
  "murmur_loop s p l st = do {
     let (a, b, c, d) = st;
     f0 \<leftarrow> Fetch64 s p;
     let a = a XOR ShiftMix (f0 * k1) * k1;
     let a = a * k1;
     let b = b XOR a;
     f8 \<leftarrow> Fetch64 s (p + 8);
     let c = c XOR ShiftMix (f8 * k1) * k1;
     let c = c * k1;
     let d = d XOR c;
     if l - 16 > 0 then murmur_loop s (p + 16) (l - 16) (a, b, c, d) else Some (a, b, c, d)
   }"
  by pat_completeness auto
termination by (relation "measure (\<lambda>(s, p, l, st). nat l)") auto

declare murmur_loop.simps [simp del]

definition CityMurmur :: "u8 list \<Rightarrow> int \<Rightarrow> nat \<Rightarrow> u64 \<times> u64 \<Rightarrow> (u64 \<times> u64) option" where
  "CityMurmur s p len seed = do {
     let a = fst seed;
     let b = snd seed;
     let l = int len - 16;
     (a, b, c, d) \<leftarrow>
       (if l \<le> 0 then do {
          let a = ShiftMix (a * k1) * k1;
          h \<leftarrow> HashLen0to16 s p len;
          let c = b * k1 + h;
          f \<leftarrow> (if len \<ge> 8 then Fetch64 s p else Some c);
          let d = ShiftMix (a + f);
          Some (a, b, c, d)
        }
        else do {
          f8 \<leftarrow> Fetch64 s (p + int len - 8);
          let c = HashLen16 (f8 + k1) a;
          f16 \<leftarrow> Fetch64 s (p + int len - 16);
          let d = HashLen16 (b + of_nat len) (c + f16);
          murmur_loop s p l (a + d, b, c, d)
        });
     let a = HashLen16 a c;
     let b = HashLen16 d b;
     Some (a XOR b, HashLen16 b a)
   }"

function city128_loop :: "u8 list \<Rightarrow> int \<Rightarrow> nat \<Rightarrow> city_state \<Rightarrow> (int \<times> nat \<times> city_state) option" where
  "city128_loop s p len st = do {
     st \<leftarrow> city_step s p st;
     st \<leftarrow> city_step s (p + 64) st;
     if len - 128 \<ge> 128 then city128_loop s (p + 128) (len - 128) st
     else Some (p + 128, len - 128, st)
   }"
  by pat_completeness auto
termination by (relation "measure (\<lambda>(s, p, len, st). len)") auto

declare city128_loop.simps [simp del]

function city128_tail :: "u8 list \<Rightarrow> int \<Rightarrow> nat \<Rightarrow> nat \<Rightarrow> city_state \<Rightarrow> city_state option" where
  "city128_tail s p len tail_done st =
     (if tail_done < len then do {
        let tail_done = tail_done + 32;
        let (x, y, z, v, w) = st;
        let y = Rotate (x + y) 42 * k0 + snd v;
        f16 \<leftarrow> Fetch64 s (p + int len - int tail_done + 16);
        let w = (fst w + f16, snd w);
        let x = x * k0 + fst w;
        f0 \<leftarrow> Fetch64 s (p + int len - int tail_done);
        let z = z + (snd w + f0);
        let w = (fst w, snd w + fst v);
        v \<leftarrow> WeakHashLen32WithSeeds s (p + int len - int tail_done) (fst v + z) (snd v);
        let v = (fst v * k0, snd v);
        city128_tail s p len tail_done (x, y, z, v, w)
      }
      else Some st)"
  by pat_completeness auto
termination by (relation "measure (\<lambda>(s, p, len, t, st). len - t)") auto

declare city128_tail.simps [simp del]

definition CityHash128WithSeed :: "u8 list \<Rightarrow> int \<Rightarrow> nat \<Rightarrow> u64 \<times> u64 \<Rightarrow> (u64 \<times> u64) option" where
  "CityHash128WithSeed s p len seed =
     (if len < 128 then CityMurmur s p len seed
      else do {
        let x = fst seed;
        let y = snd seed;
        let z = of_nat len * k1;
        f0 \<leftarrow> Fetch64 s p;
        let v1 = Rotate (y XOR k1) 49 * k1 + f0;
        f8 \<leftarrow> Fetch64 s (p + 8);
        let v2 = Rotate v1 42 * k1 + f8;
        let w1 = Rotate (y + z) 35 * k1 + x;
        f88 \<leftarrow> Fetch64 s (p + 88);
        let w2 = Rotate (x + f88) 53 * k1;
        (p, len, x, y, z, v, w) \<leftarrow> city128_loop s p len (x, y, z, (v1, v2), (w1, w2));
        let x = x + Rotate (fst v + z) 49 * k0;
        let y = y * k0 + Rotate (snd w) 37;
        let z = z * k0 + Rotate (fst w) 27;
        let w = (fst w * 9, snd w);
        let v = (fst v * k0, snd v);
        (x, y, z, v, w) \<leftarrow> city128_tail s p len 0 (x, y, z, v, w);
        let x = HashLen16 x (fst v);
        let y = HashLen16 (y + z) (fst w);
        Some (HashLen16 (x + snd v) (snd w) + y, HashLen16 (x + snd w) (y + snd v))
      })"

definition CityHash128 :: "u8 list \<Rightarrow> int \<Rightarrow> nat \<Rightarrow> (u64 \<times> u64) option" where
  "CityHash128 s p len =
     (if len \<ge> 16 then do {
        f0 \<leftarrow> Fetch64 s p;
        f8 \<leftarrow> Fetch64 s (p + 8);
        CityHash128WithSeed s (p + 16) (len - 16) (f0, f8 + k0)
      }
      else CityHash128WithSeed s p len (k0, k1))"

section \<open>Every load is inside the input\<close>

definition returns :: "'a option \<Rightarrow> bool" where
  "returns m \<longleftrightarrow> m \<noteq> None"

lemma returns_Some [simp]: "returns (Some x)"
  by (simp add: returns_def)

lemma returnsE: "returns m \<Longrightarrow> (\<And>x. m = Some x \<Longrightarrow> P) \<Longrightarrow> P"
  by (auto simp: returns_def)

lemma bind_returns: "returns m \<Longrightarrow> (\<And>x. m = Some x \<Longrightarrow> returns (f x)) \<Longrightarrow> returns (Option.bind m f)"
  by (cases m) (auto simp: returns_def)

named_theorems city_defined "in-bounds loads and the functions over them return"

lemma Fetch64_defined [city_defined]:
  "0 \<le> p \<Longrightarrow> p + 8 \<le> int (length s) \<Longrightarrow> returns (Fetch64 s p)"
  by (simp add: Fetch64_def returns_def)

lemma Fetch32_defined [city_defined]:
  "0 \<le> p \<Longrightarrow> p + 4 \<le> int (length s) \<Longrightarrow> returns (Fetch32 s p)"
  by (simp add: Fetch32_def returns_def)

lemma byte_at_defined [city_defined]:
  "0 \<le> p \<Longrightarrow> p < int (length s) \<Longrightarrow> returns (byte_at s p)"
  by (simp add: byte_at_def returns_def)

lemma HashLen0to16_defined [city_defined]:
  "0 \<le> p \<Longrightarrow> p + int len \<le> int (length s) \<Longrightarrow> returns (HashLen0to16 s p len)"
  unfolding HashLen0to16_def Let_def
  by (auto intro!: bind_returns city_defined)

lemma HashLen17to32_defined [city_defined]:
  "0 \<le> p \<Longrightarrow> p + int len \<le> int (length s) \<Longrightarrow> 16 < len \<Longrightarrow> returns (HashLen17to32 s p len)"
  unfolding HashLen17to32_def Let_def
  by (auto intro!: bind_returns city_defined)

lemma WeakHashLen32WithSeeds_defined [city_defined]:
  "0 \<le> p \<Longrightarrow> p + 32 \<le> int (length s) \<Longrightarrow> returns (WeakHashLen32WithSeeds s p a b)"
  unfolding WeakHashLen32WithSeeds_def Let_def
  by (auto intro!: bind_returns city_defined)

lemma HashLen33to64_defined [city_defined]:
  "0 \<le> p \<Longrightarrow> p + int len \<le> int (length s) \<Longrightarrow> 32 < len \<Longrightarrow> returns (HashLen33to64 s p len)"
  unfolding HashLen33to64_def Let_def
  by (auto intro!: bind_returns city_defined)

lemma city_step_defined [city_defined]:
  "0 \<le> p \<Longrightarrow> p + 64 \<le> int (length s) \<Longrightarrow> returns (city_step s p st)"
  unfolding city_step_def Let_def
  by (auto intro!: bind_returns city_defined split: prod.split)

lemma city64_loop_defined:
  "0 \<le> p \<Longrightarrow> p + 64 * int (Suc k) \<le> int (length s) \<Longrightarrow> 64 * Suc k < 2 ^ 64 \<Longrightarrow>
   returns (city64_loop s p (of_nat (64 * Suc k)) st)"
proof (induction k arbitrary: p st)
  case 0
  then have "returns (city_step s p st)" by (intro city_defined) auto
  then show ?case by (subst city64_loop.simps) (auto intro!: bind_returns)
next
  case (Suc k)
  have len: "(of_nat (64 * Suc (Suc k)) :: u64) - 64 = of_nat (64 * Suc k)" by simp
  have "returns (city_step s p st)" using Suc.prems by (intro city_defined) auto
  moreover have "returns (city64_loop s (p + 64) (of_nat (64 * Suc k)) st')" for st'
    using Suc.prems by (intro Suc.IH) auto
  ultimately show ?case
    by (subst city64_loop.simps) (auto simp only: len returns_Some intro!: bind_returns split: if_split)
qed

lemma murmur_loop_defined [city_defined]:
  "0 \<le> p \<Longrightarrow> 0 < l \<Longrightarrow> p + l + 16 \<le> int (length s) \<Longrightarrow> returns (murmur_loop s p l st)"
proof (induction "nat l" arbitrary: p l st rule: less_induct)
  case less
  have "returns (murmur_loop s (p + 16) (l - 16) st')" if "l - 16 > 0" for st'
    using less.prems that by (intro less.hyps) auto
  then show ?case
    using less.prems unfolding murmur_loop.simps [of s p l st] Let_def
    by (auto intro!: bind_returns city_defined split: prod.split)
qed

lemma city128_loop_defined [city_defined]:
  "0 \<le> p \<Longrightarrow> 128 \<le> len \<Longrightarrow> p + int len \<le> int (length s) \<Longrightarrow> returns (city128_loop s p len st)"
proof (induction len arbitrary: p st rule: less_induct)
  case (less len)
  have "returns (city128_loop s (p + 128) (len - 128) st')" if "len - 128 \<ge> 128" for st'
    using less.prems that by (intro less.IH) (auto simp: of_nat_diff)
  then show ?case
    using less.prems unfolding city128_loop.simps [of s p len st]
    by (auto intro!: bind_returns city_defined)
qed

lemma city128_loop_post:
  "city128_loop s p len st = Some (p', len', st') \<Longrightarrow> 128 \<le> len \<Longrightarrow>
   p + 128 \<le> p' \<and> p' + int len' = p + int len \<and> len' < 128"
proof (induction len arbitrary: p st rule: less_induct)
  case (less len)
  obtain st2 where st2: "(if len - 128 \<ge> 128 then city128_loop s (p + 128) (len - 128) st2
      else Some (p + 128, len - 128, st2)) = Some (p', len', st')"
    using less.prems(1) unfolding city128_loop.simps [of s p len st]
    by (auto simp: bind_eq_Some_conv)
  show ?case
    using less.prems(2) st2 less.IH [of "len - 128" "p + 128" st2]
    by (cases "len - 128 \<ge> 128") (auto simp: of_nat_diff)
qed

lemma city128_tail_defined:
  "len < 128 \<Longrightarrow> 128 \<le> p \<Longrightarrow> p + int len \<le> int (length s) \<Longrightarrow> returns (city128_tail s p len t st)"
proof (induction "len - t" arbitrary: t st rule: less_induct)
  case less
  have "returns (city128_tail s p len (t + 32) st')" if "t < len" for st'
    using less.prems that by (intro less.hyps) auto
  then show ?case
    using less.prems unfolding city128_tail.simps [of s p len t st] Let_def
    by (auto intro!: bind_returns city_defined split: prod.split)
qed

lemma chunk_mask:
  assumes "0 < len" and "len < 2 ^ 64"
  shows "((of_nat len - 1) AND NOT 63 :: u64) = of_nat (64 * ((len - 1) div 64))"
proof -
  let ?w = "of_nat (len - 1) :: u64"
  have w: "of_nat len - 1 = ?w" using assms(1) by (simp add: of_nat_diff)
  have m: "(63 :: u64) = mask 6" by (simp add: mask_eq_exp_minus_1)
  have "unat (drop_bit 6 ?w) = (len - 1) div 64"
    using assms(2) by (simp only: unsigned_drop_bit_eq drop_bit_eq_div)
      (simp add: unat_div unat_of_nat take_bit_eq_mod)
  then have "of_nat ((len - 1) div 64) = drop_bit 6 ?w" by (metis of_nat_unat ucast_id)
  then have "(of_nat (64 * ((len - 1) div 64)) :: u64) = push_bit 6 (drop_bit 6 ?w)"
    by (simp add: push_bit_eq_mult)
  also have "\<dots> = ?w AND NOT (mask 6)"
    by (rule bit_word_eqI) (auto simp: bit_simps)
  finally show ?thesis unfolding w m by simp
qed

lemma CityHash64_defined [city_defined]:
  assumes "0 \<le> p" and "p + int len \<le> int (length s)" and "len < 2 ^ 64"
  shows "returns (CityHash64 s p len)"
proof (cases "len \<le> 64")
  case True
  then show ?thesis using assms unfolding CityHash64_def by (auto intro!: city_defined)
next
  case False
  define k where "k = (len - 1) div 64"
  have k: "0 < k" "64 * k \<le> len" "64 * k < 2 ^ 64" using False assms(3) by (auto simp: k_def)
  have m: "((of_nat len - 1) AND NOT 63 :: u64) = of_nat (64 * k)"
    unfolding k_def using False assms(3) by (intro chunk_mask) auto
  have "returns (city64_loop s p (of_nat (64 * k)) st)" for st
    using city64_loop_defined [of p "k - 1" s st] k assms by simp
  then show ?thesis
    using False assms unfolding CityHash64_def m Let_def
    by (auto intro!: bind_returns city_defined split: prod.split)
qed

lemma CityMurmur_defined [city_defined]:
  "0 \<le> p \<Longrightarrow> p + int len \<le> int (length s) \<Longrightarrow> returns (CityMurmur s p len seed)"
  unfolding CityMurmur_def Let_def
  by (auto intro!: bind_returns city_defined split: prod.split)

lemma CityHash128WithSeed_defined [city_defined]:
  assumes "0 \<le> p" and "p + int len \<le> int (length s)"
  shows "returns (CityHash128WithSeed s p len seed)"
proof (cases "len < 128")
  case True
  then show ?thesis using assms unfolding CityHash128WithSeed_def by (auto intro!: city_defined)
next
  case False
  have "returns (city128_tail s p' len' 0 st2)"
    if "city128_loop s p len st = Some (p', len', st')" for p' len' st st' st2
    using that city128_loop_post [OF that] False assms by (intro city128_tail_defined) auto
  with False assms show ?thesis
    unfolding CityHash128WithSeed_def Let_def
    by (auto intro!: bind_returns city_defined split: prod.split)
qed


section \<open>Properties\<close>

text \<open>
  C25: the hashes return and read only inside their input. For a range of \<open>len\<close> bytes inside an
  array, \<^verbatim>\<open>CityHash64\<close> and \<^verbatim>\<open>CityHash128\<close> end on every length and never load from outside the
  array; the tail loop of \<^verbatim>\<open>CityHash128WithSeed\<close>, which reads backwards from the end of the
  remaining bytes, stays within the bytes already hashed.
\<close>

theorem city_hash_in_bounds:
  assumes "0 \<le> p" and "p + int len \<le> int (length s)" and "len < 2 ^ 64"
  shows "(\<exists>h. CityHash64 s p len = Some h) \<and> (\<exists>h. CityHash128 s p len = Some h)"
proof -
  have "returns (CityHash128 s p len)"
    using assms unfolding CityHash128_def
    by (auto intro!: bind_returns city_defined simp: of_nat_diff)
  moreover have "returns (CityHash64 s p len)"
    using assms by (rule CityHash64_defined)
  ultimately show ?thesis by (auto elim!: returnsE)
qed

theorem city_hash_in_bounds_witness:
  "(\<exists>h. CityHash64 [1, 2, 3, 4, 5] 1 4 = Some h) \<and> (\<exists>h. CityHash128 [1, 2, 3, 4, 5] 1 4 = Some h)"
  using city_hash_in_bounds [of 1 4 "[1, 2, 3, 4, 5]"] by simp

end
