(* ===== verification/Spin_Lock.thy ===== *)
theory Spin_Lock
  imports Tap_Prelude
begin

text \<open>
  \<^verbatim>\<open>source/base/spin_lock.h\<close> and \<^verbatim>\<open>spin_lock.cpp\<close>: a lock on one atomic flag. \<^verbatim>\<open>test_and_set\<close> and \<^verbatim>\<open>clear\<close> are atomic,
  so each is one step of the thread that runs it; between two failed attempts a thread in \<^verbatim>\<open>lock\<close> yields.
\<close>

section \<open>The operations\<close>

definition test_and_set :: "bool \<Rightarrow> bool \<times> bool" where
  "test_and_set lck = (lck, True)"

definition SpinLock_try_lock :: "bool \<Rightarrow> bool \<times> bool" where
  "SpinLock_try_lock lck = (let (old, lck) = test_and_set lck in (\<not> old, lck))"

definition SpinLock_unlock :: "bool \<Rightarrow> bool" where
  "SpinLock_unlock lck = False"

text \<open>One turn of the loop of \<^verbatim>\<open>lock\<close>: whether it is left, and the flag.\<close>

definition SpinLock_lock_turn :: "bool \<Rightarrow> bool \<times> bool" where
  "SpinLock_lock_turn lck = (let (old, lck) = test_and_set lck in (\<not> old, lck))"

section \<open>Threads\<close>

datatype lock_pc = Away | Spinning | Holding

record spin =
  lck :: bool
  at :: "nat \<Rightarrow> lock_pc"

inductive spin_step :: "spin \<Rightarrow> spin \<Rightarrow> bool" where
  enter: "at s i = Away \<Longrightarrow> spin_step s (s\<lparr>at := (at s)(i := Spinning)\<rparr>)"
| turn: "at s i = Spinning \<Longrightarrow> SpinLock_lock_turn (lck s) = (got, l) \<Longrightarrow>
     spin_step s (s\<lparr>lck := l, at := (at s)(i := if got then Holding else Spinning)\<rparr>)"
| attempt: "at s i = Away \<Longrightarrow> SpinLock_try_lock (lck s) = (got, l) \<Longrightarrow>
     spin_step s (s\<lparr>lck := l, at := (at s)(i := if got then Holding else Away)\<rparr>)"
| leave: "at s i = Holding \<Longrightarrow> spin_step s (s\<lparr>lck := SpinLock_unlock (lck s), at := (at s)(i := Away)\<rparr>)"

inductive spin_reachable :: "spin \<Rightarrow> bool" where
  start: "spin_reachable \<lparr>lck = False, at = (\<lambda>_. Away)\<rparr>"
| step: "spin_reachable s \<Longrightarrow> spin_step s t \<Longrightarrow> spin_reachable t"

definition lock_inv :: "spin \<Rightarrow> bool" where
  "lock_inv s \<longleftrightarrow> (if lck s then \<exists>i. at s i = Holding \<and> (\<forall>j. at s j = Holding \<longrightarrow> j = i) else \<forall>j. at s j \<noteq> Holding)"

lemmas spin_defs = test_and_set_def SpinLock_try_lock_def SpinLock_unlock_def SpinLock_lock_turn_def

lemma lock_step_inv:
  assumes "spin_step s t" and "lock_inv s"
  shows "lock_inv t"
  using assms
proof (cases rule: spin_step.cases)
  case (enter i)
  then have "at t j = Holding \<longleftrightarrow> at s j = Holding" for j by simp
  then show ?thesis using assms(2) enter by (simp add: lock_inv_def)
next
  case (turn i got l)
  then show ?thesis using assms(2) by (cases "lck s") (simp_all add: lock_inv_def spin_defs fun_upd_idem)
next
  case (attempt i got l)
  then show ?thesis using assms(2) by (cases "lck s") (simp_all add: lock_inv_def spin_defs fun_upd_idem)
next
  case (leave i)
  then have "lck s" using assms(2) by (auto simp: lock_inv_def split: if_splits)
  then show ?thesis using leave assms(2) by (auto simp: lock_inv_def spin_defs)
qed

lemma spin_reachable_inv: "spin_reachable s \<Longrightarrow> lock_inv s"
proof (induction rule: spin_reachable.induct)
  case start
  then show ?case by (simp add: lock_inv_def)
next
  case (step s t)
  then show ?case using lock_step_inv by blast
qed

text \<open>
  Mutual exclusion, and the lock is never lost: at most one thread holds it, it is taken only while one does, and
  when none does the next turn of any waiting thread gets it.
\<close>

theorem spin_lock_exclusive:
  assumes "spin_reachable s"
  shows "(at s i = Holding \<and> at s j = Holding \<longrightarrow> i = j) \<and> (lck s \<longleftrightarrow> (\<exists>i. at s i = Holding))
     \<and> (\<not> (\<exists>i. at s i = Holding) \<longrightarrow> SpinLock_lock_turn (lck s) = (True, True))"
  using spin_reachable_inv [OF assms] by (auto simp: lock_inv_def spin_defs split: if_splits)

end
