(* ===== verification/Tap_Json.thy ===== *)
theory Tap_Json
  imports Tap_Prelude
begin

text \<open>
  JSON values as the SDK handles them (\<^verbatim>\<open>net::Json\<close> is \<^verbatim>\<open>nlohmann::json\<close>): the constructors it uses, an
  object as its list of fields, and the reading of a field with the conversions to \<^verbatim>\<open>bool\<close>, integers
  and strings, which throw on a value of another type. A conversion to an integer type is a
  \<^verbatim>\<open>static_cast\<close>: an integer out of range wraps, a floating point number is truncated. Reading a missing
  field gives null; reading a field of something that is neither an object nor null throws. Parsing is a
  parameter where it is used.
\<close>

text \<open>
  A floating point number is given by what the program can see of it, its conversions to the integer
  types; a conversion that C++ leaves undefined, out of the range of the type, may give any value.
\<close>

record float_casts =
  as_int :: u32
  as_u32 :: u32
  as_s64 :: u64
  as_u64 :: u64

datatype json = JNull | JBool bool | JInt int | JFloat float_casts | JString string | JArray "json list" | JObject "(string \<times> json) list"

definition json_find :: "json \<Rightarrow> string \<Rightarrow> json option" where
  "json_find j k = (case j of JObject kvs \<Rightarrow> map_of kvs k | _ \<Rightarrow> None)"

definition json_at :: "json \<Rightarrow> string \<Rightarrow> json throws" where
  "json_at j k =
     (case j of
        JObject kvs \<Rightarrow> Inr (case map_of kvs k of Some v \<Rightarrow> v | None \<Rightarrow> JNull)
      | JNull \<Rightarrow> Inr JNull
      | _ \<Rightarrow> Inl (LibraryError ''type_error''))"

definition json_to_bool :: "json \<Rightarrow> bool throws" where
  "json_to_bool j = (case j of JBool b \<Rightarrow> Inr b | _ \<Rightarrow> Inl (LibraryError ''type_error''))"

text \<open>\<^verbatim>\<open>int\<close> and \<^verbatim>\<open>u32\<close> are converted from booleans too; the 64-bit types, which are nlohmann's own, are not.\<close>

definition json_to_int :: "json \<Rightarrow> int throws" where
  "json_to_int j =
     (case j of JInt n \<Rightarrow> Inr (sint (of_int n :: u32)) | JFloat f \<Rightarrow> Inr (sint (as_int f)) | JBool b \<Rightarrow> Inr (of_bool b)
      | _ \<Rightarrow> Inl (LibraryError ''type_error''))"

definition json_to_u32 :: "json \<Rightarrow> u32 throws" where
  "json_to_u32 j =
     (case j of JInt n \<Rightarrow> Inr (of_int n) | JFloat f \<Rightarrow> Inr (as_u32 f) | JBool b \<Rightarrow> Inr (of_bool b)
      | _ \<Rightarrow> Inl (LibraryError ''type_error''))"

definition json_to_s64 :: "json \<Rightarrow> u64 throws" where
  "json_to_s64 j =
     (case j of JInt n \<Rightarrow> Inr (of_int n) | JFloat f \<Rightarrow> Inr (as_s64 f) | _ \<Rightarrow> Inl (LibraryError ''type_error''))"

definition json_to_u64 :: "json \<Rightarrow> u64 throws" where
  "json_to_u64 j =
     (case j of JInt n \<Rightarrow> Inr (of_int n) | JFloat f \<Rightarrow> Inr (as_u64 f) | _ \<Rightarrow> Inl (LibraryError ''type_error''))"

definition json_to_string :: "json \<Rightarrow> string throws" where
  "json_to_string j = (case j of JString s \<Rightarrow> Inr s | _ \<Rightarrow> Inl (LibraryError ''type_error''))"

text \<open>
  Reading a field of a \<^emph>\<open>constant\<close> JSON value, as the constructors of the answer types do: the outcome None
  is undefined behaviour, which nlohmann documents for a field the object does not have; on null and on
  values that are no object the constant operator throws.
\<close>

type_synonym 'a may = "'a throws option"

definition may_bind :: "'a may \<Rightarrow> ('a \<Rightarrow> 'b may) \<Rightarrow> 'b may" where
  "may_bind m f = (case m of None \<Rightarrow> None | Some (Inl e) \<Rightarrow> Some (Inl e) | Some (Inr a) \<Rightarrow> f a)"

definition json_const_at :: "json \<Rightarrow> string \<Rightarrow> json may" where
  "json_const_at j k =
     (case j of
        JObject kvs \<Rightarrow> map_option Inr (map_of kvs k)
      | _ \<Rightarrow> Some (Inl (LibraryError ''type_error'')))"

definition json_read :: "(json \<Rightarrow> 'a throws) \<Rightarrow> json \<Rightarrow> string \<Rightarrow> 'a may" where
  "json_read conv j k = may_bind (json_const_at j k) (\<lambda>v. Some (conv v))"

lemma may_bind_simps [simp]:
  "may_bind None f = None" "may_bind (Some (Inl e)) f = Some (Inl e)" "may_bind (Some (Inr a)) f = f a"
  by (simp_all add: may_bind_def)

lemma may_bind_Inr_iff [throws_simps]:
  "may_bind m f = Some (Inr b) \<longleftrightarrow> (\<exists>a. m = Some (Inr a) \<and> f a = Some (Inr b))"
  by (auto simp: may_bind_def split: option.split sum.split)

lemma may_bind_None_iff [throws_simps]:
  "may_bind m f = None \<longleftrightarrow> m = None \<or> (\<exists>a. m = Some (Inr a) \<and> f a = None)"
  by (auto simp: may_bind_def split: option.split sum.split)

lemma json_read_None_iff: "json_read conv j k = None \<longleftrightarrow> (\<exists>kvs. j = JObject kvs \<and> map_of kvs k = None)"
  by (cases j) (auto simp: json_read_def json_const_at_def throws_simps)

definition json_get_bool :: "json \<Rightarrow> string \<Rightarrow> bool throws" where
  "json_get_bool j k = throws_bind (json_at j k) json_to_bool"

definition json_get_int :: "json \<Rightarrow> string \<Rightarrow> int throws" where
  "json_get_int j k = throws_bind (json_at j k) json_to_int"

definition json_get_string :: "json \<Rightarrow> string \<Rightarrow> string throws" where
  "json_get_string j k = throws_bind (json_at j k) json_to_string"

text \<open>\<^verbatim>\<open>push_back\<close> on null makes an array.\<close>

definition json_push_back :: "json \<Rightarrow> json \<Rightarrow> json" where
  "json_push_back j v = (case j of JArray vs \<Rightarrow> JArray (vs @ [v]) | _ \<Rightarrow> JArray [v])"

definition exn_what :: "exn \<Rightarrow> string" where
  "exn_what e = (case e of LogicError s \<Rightarrow> s | RuntimeError s \<Rightarrow> s | LibraryError s \<Rightarrow> s)"

named_theorems json_simps "reading JSON fields"

lemmas json_defs [json_simps] = json_find_def json_at_def json_to_bool_def json_to_int_def json_to_u32_def
  json_to_s64_def json_to_u64_def   json_to_string_def json_get_bool_def json_get_int_def json_get_string_def

end
