(* ===== verification/Http_Client.thy ===== *)
theory Http_Client
  imports Tap_Json
begin

text \<open>
  \<^verbatim>\<open>source/net/httpclient.h\<close>, \<^verbatim>\<open>httpclient.cpp\<close>, \<^verbatim>\<open>coro_httpclient.h\<close> and \<^verbatim>\<open>coro_httpclient.cpp\<close>: requests to the
  Tap services. The HTTP library is a parameter: \<open>send\<close> maps a request to the response. The coroutine
  overloads are plain functions of that response; \<open>parse\<close> is the JSON parser (None when it throws) and
  \<open>dump\<close> the printer. The pool of idle connections is the list of their numbers.
\<close>

section \<open>Requests and results\<close>

datatype HttpType = GET | POST
datatype ContentType = NONE | JSON | FORM

type_synonym pairs = "(string \<times> string) list"

record request =
  rq_url :: string
  rq_method :: HttpType
  rq_param :: string
  rq_content :: string
  rq_content_type :: ContentType
  rq_headers :: pairs
  rq_parts :: pairs

record response =
  rs_status :: int
  rs_net_err :: int
  rs_net_msg :: string
  rs_body :: string

record ResultWrapper =
  rw_code :: int
  rw_msg :: string
  rw_content :: json

record net_error =
  ne_status :: int
  ne_code :: int
  ne_msg :: string

definition MakeError :: "int \<Rightarrow> int \<Rightarrow> string \<Rightarrow> net_error" where
  "MakeError status code msg = \<lparr>ne_status = status, ne_code = code, ne_msg = msg\<rparr>"

text \<open>\<open>construct\<close> is the constructor of the result type from JSON, which may throw or be undefined (None).\<close>

definition MakeResult :: "(json \<Rightarrow> 'r may) \<Rightarrow> net_error + json \<Rightarrow> (net_error + 'r) option" where
  "MakeResult construct res =
     (case res of
        Inr j \<Rightarrow> map_option (\<lambda>c. case c of Inr r \<Rightarrow> Inr r | Inl e \<Rightarrow> Inl (MakeError 200 (- 1) (exn_what e))) (construct j)
      | Inl e \<Rightarrow> Some (Inl e))"

section \<open>Text of a request\<close>

fun pairs_loop :: "bool \<Rightarrow> string \<Rightarrow> pairs \<Rightarrow> string" where
  "pairs_loop first opening [] = []"
| "pairs_loop first opening ((key, value) # rest) =
     (if \<not> first then ''&'' else opening) @ key @ ''='' @ value @ pairs_loop False opening rest"

definition ToContent :: "pairs \<Rightarrow> string" where
  "ToContent forms = pairs_loop True [] forms"

definition ToParam :: "pairs \<Rightarrow> string" where
  "ToParam params = pairs_loop True ''?'' params"

section \<open>The wrapped answer\<close>

definition invalid_response :: ResultWrapper where
  "invalid_response = \<lparr>rw_code = - 1, rw_msg = ''Invalid response!'', rw_content = JNull\<rparr>"

definition unwrap_json :: "json \<Rightarrow> ResultWrapper throws" where
  "unwrap_json resp =
     (if json_find resp ''success'' \<noteq> None then
        throws_bind (json_get_bool resp ''success'') (\<lambda>success.
          if success then throws_bind (json_at resp ''data'') (\<lambda>content.
            Inr \<lparr>rw_code = 0, rw_msg = ''Invalid response!'', rw_content = content\<rparr>)
          else throws_bind (json_at resp ''data'') (\<lambda>resp.
            throws_bind (json_get_int resp ''code'') (\<lambda>code.
            throws_bind (json_get_string resp ''msg'') (\<lambda>msg.
              Inr \<lparr>rw_code = code, rw_msg = msg, rw_content = JNull\<rparr>))))
      else
        throws_bind (json_get_int resp ''code'') (\<lambda>code.
          if code = 0 then throws_bind (json_at resp ''data'') (\<lambda>content.
            Inr \<lparr>rw_code = code, rw_msg = ''Invalid response!'', rw_content = content\<rparr>)
          else throws_bind (json_get_string resp ''msg'') (\<lambda>msg.
            Inr \<lparr>rw_code = code, rw_msg = msg, rw_content = JNull\<rparr>)))"

definition TapUnwrapResult :: "(string \<Rightarrow> json option) \<Rightarrow> string \<Rightarrow> ResultWrapper" where
  "TapUnwrapResult parse response =
     (if response = [] then invalid_response
      else case parse response of
             None \<Rightarrow> invalid_response
           | Some resp \<Rightarrow> (case unwrap_json resp of Inr w \<Rightarrow> w | Inl _ \<Rightarrow> invalid_response))"

section \<open>The client\<close>

record http_client =
  hc_host :: string
  hc_https :: bool
  common_headers :: "string \<rightharpoonup> string"
  common_params :: "string \<rightharpoonup> string"
  client_pool :: "nat list"
  next_client :: nat

definition CreateHttpClient :: "string \<Rightarrow> bool \<Rightarrow> http_client" where
  "CreateHttpClient host https = \<lparr>hc_host = host, hc_https = https, common_headers = Map.empty,
     common_params = Map.empty, client_pool = [], next_client = 0\<rparr>"

definition CommonHeader :: "string \<Rightarrow> string \<Rightarrow> 'a http_client_scheme \<Rightarrow> 'a http_client_scheme throws" where
  "CommonHeader key value c =
     throws_bind (assert_that (key \<noteq> [] \<and> value \<noteq> []) ''!key.empty() && !value.empty()'')
       (\<lambda>_. Inr (c\<lparr>common_headers := (common_headers c)(key \<mapsto> value)\<rparr>))"

definition CommonParam :: "string \<Rightarrow> string \<Rightarrow> 'a http_client_scheme \<Rightarrow> 'a http_client_scheme throws" where
  "CommonParam key value c =
     throws_bind (assert_that (key \<noteq> [] \<and> value \<noteq> []) ''!key.empty() && !value.empty()'')
       (\<lambda>_. Inr (c\<lparr>common_params := (common_params c)(key \<mapsto> value)\<rparr>))"

definition AcquireClient :: "'a http_client_scheme \<Rightarrow> nat \<times> 'a http_client_scheme" where
  "AcquireClient c =
     (case client_pool c of
        [] \<Rightarrow> (next_client c, c\<lparr>next_client := Suc (next_client c)\<rparr>)
      | k # ks \<Rightarrow> (k, c\<lparr>client_pool := ks\<rparr>))"

definition max_pool_size :: nat where "max_pool_size = 10"

definition RecycleClient :: "nat \<Rightarrow> 'a http_client_scheme \<Rightarrow> 'a http_client_scheme" where
  "RecycleClient k c =
     (if length (client_pool c) < max_pool_size then c\<lparr>client_pool := client_pool c @ [k]\<rparr> else c)"

definition request_url :: "'a http_client_scheme \<Rightarrow> string \<Rightarrow> string" where
  "request_url c path = (if hc_https c then ''https://'' @ hc_host c else ''http://'' @ hc_host c) @ ''/'' @ path"

text \<open>The headers of a request: the common ones, in some order the map fixes, then the caller's.\<close>

definition make_request ::
    "((string \<rightharpoonup> string) \<Rightarrow> pairs) \<Rightarrow> 'a http_client_scheme \<Rightarrow> HttpType \<Rightarrow> string \<Rightarrow> pairs \<Rightarrow> pairs \<Rightarrow> string \<Rightarrow> ContentType \<Rightarrow> request" where
  "make_request listing c type path headers params content content_type =
     \<lparr>rq_url = request_url c path, rq_method = type, rq_param = ToParam params, rq_content = content,
      rq_content_type = content_type, rq_headers = listing (common_headers c) @ headers,
      rq_parts = listing (common_params c)\<rparr>"

definition answer_with :: "(string \<Rightarrow> ResultWrapper) \<Rightarrow> response \<Rightarrow> net_error + json" where
  "answer_with unwrap value =
     (if rs_status value = 200 then
        let tap_res = unwrap (rs_body value)
        in if rw_code tap_res = 0 then Inr (rw_content tap_res)
           else Inl (MakeError 200 (rw_code tap_res) (rw_msg tap_res))
      else Inl (MakeError (rs_status value) (rs_net_err value)
             (if rs_body value \<noteq> [] then rs_body value else rs_net_msg value)))"

text \<open>A client unwraps answers by \<^verbatim>\<open>TapUnwrapResult\<close> unless \<^verbatim>\<open>SetResultUnwrap\<close> has set another function.\<close>

definition answer_of :: "(string \<Rightarrow> json option) \<Rightarrow> response \<Rightarrow> net_error + json" where
  "answer_of parse value = answer_with (TapUnwrapResult parse) value"

definition RequestAsync ::
    "((string \<rightharpoonup> string) \<Rightarrow> pairs) \<Rightarrow> (string \<Rightarrow> json option) \<Rightarrow> (request \<Rightarrow> response) \<Rightarrow> HttpType \<Rightarrow> string \<Rightarrow> pairs \<Rightarrow> pairs
     \<Rightarrow> string \<Rightarrow> ContentType \<Rightarrow> http_client \<Rightarrow> (net_error + json) \<times> http_client" where
  "RequestAsync listing parse send type path headers params content content_type c =
     (let (k, c) = AcquireClient c;
          value = send (make_request listing c type path headers params content content_type);
          c = RecycleClient k c
      in (answer_of parse value, c))"

section \<open>Typed requests\<close>

type_synonym ('a) sender = "HttpType \<Rightarrow> string \<Rightarrow> pairs \<Rightarrow> pairs \<Rightarrow> string \<Rightarrow> ContentType \<Rightarrow> 'a"

definition PostAsync :: "(net_error + json) sender \<Rightarrow> (json \<Rightarrow> 'r may) \<Rightarrow> string \<Rightarrow> pairs \<Rightarrow> pairs \<Rightarrow> string \<Rightarrow> ContentType
    \<Rightarrow> (net_error + 'r) option" where
  "PostAsync request construct path headers params content type =
     MakeResult construct (request POST path headers params content type)"

definition PostAsync_forms :: "(net_error + json) sender \<Rightarrow> (json \<Rightarrow> 'r may) \<Rightarrow> string \<Rightarrow> pairs \<Rightarrow> pairs \<Rightarrow> pairs
    \<Rightarrow> (net_error + 'r) option" where
  "PostAsync_forms request construct path headers params forms =
     MakeResult construct (request POST path headers params (ToContent forms) FORM)"

definition PostAsync_json :: "(net_error + json) sender \<Rightarrow> (json \<Rightarrow> string) \<Rightarrow> (json \<Rightarrow> 'r may) \<Rightarrow> string \<Rightarrow> pairs \<Rightarrow> pairs
    \<Rightarrow> json throws \<Rightarrow> (net_error + 'r) option" where
  "PostAsync_json request dump construct path headers params content =
     (case content of
        Inl e \<Rightarrow> Some (Inl (MakeError (- 1) (- 1) (exn_what e)))
      | Inr j \<Rightarrow> MakeResult construct (request POST path headers params (dump j) JSON))"

fun collect_json :: "json \<Rightarrow> json throws list \<Rightarrow> json throws" where
  "collect_json acc [] = Inr acc"
| "collect_json acc (p # ps) = (case p of Inl e \<Rightarrow> Inl e | Inr j \<Rightarrow> collect_json (json_push_back acc j) ps)"

definition PostAsync_list :: "(net_error + json) sender \<Rightarrow> (json \<Rightarrow> string) \<Rightarrow> (json \<Rightarrow> 'r may) \<Rightarrow> string \<Rightarrow> pairs \<Rightarrow> pairs
    \<Rightarrow> json throws list \<Rightarrow> (net_error + 'r) option" where
  "PostAsync_list request dump construct path headers params content =
     PostAsync_json request dump construct path headers params (collect_json JNull content)"

definition GetAsync :: "(net_error + json) sender \<Rightarrow> (json \<Rightarrow> 'r may) \<Rightarrow> string \<Rightarrow> pairs \<Rightarrow> pairs \<Rightarrow> (net_error + 'r) option" where
  "GetAsync request construct path headers params = MakeResult construct (request GET path headers params [] NONE)"

definition GetAsync_forms :: "(net_error + json) sender \<Rightarrow> (json \<Rightarrow> 'r may) \<Rightarrow> string \<Rightarrow> pairs \<Rightarrow> pairs \<Rightarrow> pairs
    \<Rightarrow> (net_error + 'r) option" where
  "GetAsync_forms request construct path headers params forms =
     MakeResult construct (request GET path headers params (ToContent forms) FORM)"

section \<open>Lemmas\<close>

lemma collect_json_eq:
  "collect_json (JArray acc) ps =
     (if \<exists>e. Inl e \<in> set ps then collect_json (JArray acc) ps else Inr (JArray (acc @ map projr ps)))"
proof (induction ps arbitrary: acc)
  case (Cons p ps)
  show ?case
  proof (cases p)
    case (Inr j)
    then show ?thesis using Cons.IH [of "acc @ [j]"] by (auto simp: json_push_back_def)
  qed auto
qed simp

lemma collect_json_error: "Inl e \<in> set ps \<Longrightarrow> \<exists>e'. Inl e' \<in> set ps \<and> collect_json acc ps = Inl e'"
proof (induction ps arbitrary: acc)
  case (Cons p ps)
  then show ?case by (cases p) fastforce+
qed simp

lemma pool_bound: "length (client_pool c) \<le> max_pool_size \<Longrightarrow> length (client_pool (snd (AcquireClient c))) \<le> max_pool_size"
  by (auto simp: AcquireClient_def split: list.split)

lemma recycle_bound: "length (client_pool c) \<le> max_pool_size \<Longrightarrow> length (client_pool (RecycleClient k c)) \<le> max_pool_size"
  by (simp add: RecycleClient_def)

text \<open>No connection is in the pool twice, or in the pool and in use.\<close>

definition pool_ok :: "nat set \<Rightarrow> 'a http_client_scheme \<Rightarrow> bool" where
  "pool_ok used c \<longleftrightarrow> distinct (client_pool c) \<and> set (client_pool c) \<inter> used = {} \<and>
     (\<forall>k \<in> set (client_pool c) \<union> used. k < next_client c) \<and> length (client_pool c) \<le> max_pool_size"

lemma pool_ok_acquire:
  "pool_ok used c \<Longrightarrow> fst (AcquireClient c) \<notin> used \<and> pool_ok (insert (fst (AcquireClient c)) used) (snd (AcquireClient c))"
  by (auto simp: pool_ok_def AcquireClient_def less_Suc_eq split: list.splits)

lemma pool_ok_recycle: "pool_ok used c \<Longrightarrow> k \<in> used \<Longrightarrow> pool_ok (used - {k}) (RecycleClient k c)"
  by (auto simp: pool_ok_def RecycleClient_def)

text \<open>Reading a form back: fields between ampersands, each cut at its first equals sign.\<close>

fun split_on :: "char \<Rightarrow> string \<Rightarrow> string list" where
  "split_on c [] = [[]]"
| "split_on c (x # xs) = (if x = c then [] # split_on c xs
     else case split_on c xs of [] \<Rightarrow> [[x]] | y # ys \<Rightarrow> (x # y) # ys)"

definition split_field :: "string \<Rightarrow> string \<times> string" where
  "split_field s = (takeWhile (\<lambda>c. c \<noteq> CHR ''='') s, drop 1 (dropWhile (\<lambda>c. c \<noteq> CHR ''='') s))"

definition parse_form :: "string \<Rightarrow> pairs" where
  "parse_form s = map split_field (split_on (CHR ''&'') s)"

lemma split_on_free: "c \<notin> set xs \<Longrightarrow> split_on c xs = [xs]"
  by (induction xs) auto

lemma split_on_append: "c \<notin> set xs \<Longrightarrow> split_on c (xs @ c # ys) = xs # split_on c ys"
  by (induction xs) auto

lemma split_field_pair: "CHR ''='' \<notin> set k \<Longrightarrow> split_field (k @ CHR ''='' # v) = (k, v)"
proof -
  assume k: "CHR ''='' \<notin> set k"
  then have "takeWhile (\<lambda>c. c \<noteq> CHR ''='') (k @ CHR ''='' # v) = k"
    "dropWhile (\<lambda>c. c \<noteq> CHR ''='') (k @ CHR ''='' # v) = CHR ''='' # v"
    by (induction k) auto
  then show ?thesis by (simp add: split_field_def)
qed

definition form_ok :: "pairs \<Rightarrow> bool" where
  "form_ok forms \<longleftrightarrow> list_all (\<lambda>(k, v). CHR ''='' \<notin> set k \<and> CHR ''&'' \<notin> set k \<and> CHR ''&'' \<notin> set v) forms"

lemma pairs_loop_rest:
  "form_ok forms \<Longrightarrow> forms \<noteq> [] \<Longrightarrow> CHR ''&'' \<notin> set x \<Longrightarrow>
   map split_field (split_on (CHR ''&'') (x @ pairs_loop False w forms)) = split_field x # forms"
proof (induction forms arbitrary: x)
  case (Cons f forms)
  obtain k v where f: "f = (k, v)" by (cases f)
  have "map split_field (split_on (CHR ''&'') ((k @ ''='' @ v) @ pairs_loop False w forms)) = split_field (k @ ''='' @ v) # forms"
    using Cons.prems f Cons.IH [of "k @ ''='' @ v"] by (cases "forms = []") (auto simp: form_ok_def split_on_free)
  moreover have "split_field (k @ ''='' @ v) = (k, v)"
    using Cons.prems f by (auto simp: form_ok_def split_field_pair)
  ultimately show ?case using Cons.prems f by (simp add: split_on_append)
qed simp

section \<open>Concurrent requests\<close>

datatype pool_op = Acquire | Recycle nat

text \<open>Requests in flight hold a connection from \<^verbatim>\<open>AcquireClient\<close> until \<^verbatim>\<open>RecycleClient\<close>.\<close>

inductive pool_step :: "nat set \<times> http_client \<Rightarrow> nat set \<times> http_client \<Rightarrow> bool" where
  acquire: "AcquireClient c = (k, c') \<Longrightarrow> pool_step (used, c) (insert k used, c')"
| recycle: "k \<in> used \<Longrightarrow> pool_step (used, c) (used - {k}, RecycleClient k c)"

inductive pool_reachable :: "nat set \<times> http_client \<Rightarrow> bool" where
  start: "pool_reachable ({}, CreateHttpClient host https)"
| step: "pool_reachable s \<Longrightarrow> pool_step s t \<Longrightarrow> pool_reachable t"

lemma pool_reachable_ok: "pool_reachable s \<Longrightarrow> pool_ok (fst s) (snd s)"
proof (induction rule: pool_reachable.induct)
  case (start host https)
  then show ?case by (simp add: pool_ok_def CreateHttpClient_def)
next
  case (step s t)
  from step(2) step.IH show ?case
  proof (induction rule: pool_step.induct)
    case (acquire c k c' used)
    then show ?case using pool_ok_acquire [of used c] by simp
  next
    case (recycle k used c)
    then show ?case using pool_ok_recycle [of used c k] by simp
  qed
qed

section \<open>Properties\<close>

text \<open>
  The connection pool. However requests overlap, a request never gets a connection that another
  one still uses, no connection is pooled twice, and at most ten idle connections are kept.
\<close>

theorem pool_exclusive:
  assumes "pool_reachable (used, c)"
  shows "fst (AcquireClient c) \<notin> used \<and> distinct (client_pool c) \<and> set (client_pool c) \<inter> used = {}
     \<and> length (client_pool c) \<le> 10"
  using pool_reachable_ok [OF assms] pool_ok_acquire [of used c]
  by (simp add: pool_ok_def max_pool_size_def)

theorem pool_exclusive_witness:
  "fst (AcquireClient (RecycleClient 0 ((CreateHttpClient ''h'' True)\<lparr>next_client := 1\<rparr>))) \<notin> ({0} - {0} :: nat set)"
proof -
  have "pool_reachable ({}, CreateHttpClient ''h'' True)" by (rule pool_reachable.start)
  moreover have "pool_step ({}, CreateHttpClient ''h'' True) ({0}, (CreateHttpClient ''h'' True)\<lparr>next_client := 1\<rparr>)"
    by (rule pool_step.acquire) (simp add: AcquireClient_def CreateHttpClient_def)
  ultimately have "pool_reachable ({0}, (CreateHttpClient ''h'' True)\<lparr>next_client := 1\<rparr>)"
    by (rule pool_reachable.step)
  then have "pool_reachable ({0} - {0}, RecycleClient 0 ((CreateHttpClient ''h'' True)\<lparr>next_client := 1\<rparr>))"
    by (rule pool_reachable.step) (rule pool_step.recycle, simp)
  from pool_exclusive [OF this] show ?thesis by simp
qed

text \<open>
  C35: when an answer counts as a success. The HTTP status is 200 and the body is a JSON object that
  either says \<^verbatim>\<open>success\<close>, or has no such field and the code 0, or says failure but carries the code 0
  and a message in its data, where the code is the number truncated to an \<^verbatim>\<open>int\<close> (so that 0.5, \<^verbatim>\<open>false\<close> and
  4294967296 count as 0); every other body, and any body that cannot be read, is an error and never an exception.
\<close>

theorem answer_accepted_iff:
  "(\<exists>j. answer_of parse value = Inr j) \<longleftrightarrow>
     rs_status value = 200 \<and> rs_body value \<noteq> [] \<and>
     (\<exists>resp. parse (rs_body value) = Some resp \<and>
       (json_find resp ''success'' = Some (JBool True)
        \<or> json_find resp ''success'' = None \<and> json_get_int resp ''code'' = Inr 0
        \<or> json_find resp ''success'' = Some (JBool False) \<and>
            (\<exists>d m. json_at resp ''data'' = Inr d \<and> json_get_int d ''code'' = Inr 0 \<and> json_get_string d ''msg'' = Inr m)))"
proof -
  have u: "(\<exists>w. unwrap_json resp = Inr w \<and> rw_code w = 0) \<longleftrightarrow>
      json_find resp ''success'' = Some (JBool True)
        \<or> json_find resp ''success'' = None \<and> json_get_int resp ''code'' = Inr 0
        \<or> json_find resp ''success'' = Some (JBool False) \<and>
            (\<exists>d m. json_at resp ''data'' = Inr d \<and> json_get_int d ''code'' = Inr 0 \<and> json_get_string d ''msg'' = Inr m)" for resp
  proof (cases "json_find resp ''success''")
    case None
    have at: "\<exists>v. json_at resp k = Inr v" if "json_at resp ''code'' = Inr c" for c k
      using that by (cases resp) (auto simp: json_at_def)
    show ?thesis
    proof (cases "json_get_int resp ''code''")
      case (Inl e)
      then show ?thesis using None by (simp add: unwrap_json_def)
    next
      case (Inr c)
      then obtain v where "json_at resp ''data'' = Inr v"
        using at by (auto simp: json_get_int_def throws_simps)
      then show ?thesis using None Inr by (auto simp: unwrap_json_def throws_simps split: if_splits)
    qed
  next
    case (Some s)
    then obtain kvs where resp: "resp = JObject kvs" "map_of kvs ''success'' = Some s"
      by (cases resp) (auto simp: json_find_def)
    then have g: "json_get_bool resp ''success'' = json_to_bool s" "\<exists>d. json_at resp ''data'' = Inr d"
      by (auto simp: json_get_bool_def json_at_def)
    show ?thesis
      using Some g by (cases s) (auto simp: unwrap_json_def json_to_bool_def throws_simps split: if_splits)
  qed
  have "(\<exists>j. answer_of parse value = Inr j) \<longleftrightarrow> rs_status value = 200 \<and> rs_body value \<noteq> [] \<and>
      (\<exists>resp. parse (rs_body value) = Some resp \<and> (\<exists>w. unwrap_json resp = Inr w \<and> rw_code w = 0))"
    by (auto simp: answer_of_def answer_with_def TapUnwrapResult_def invalid_response_def Let_def split: option.splits sum.splits)
  then show ?thesis by (simp only: u)
qed

text \<open>The truncation at work: a code of \<open>2 ^ 32\<close> is taken for 0 and the answer for a success.\<close>

theorem code_truncated:
  "answer_of (\<lambda>body. Some (JObject [(''code'', JInt 4294967296), (''data'', JString ''d'')]))
     \<lparr>rs_status = 200, rs_net_err = 0, rs_net_msg = [], rs_body = ''b''\<rparr> = Inr (JString ''d'')"
  by (simp add: answer_of_def answer_with_def TapUnwrapResult_def unwrap_json_def json_simps)

text \<open>
  A form can be read back field by field when no key holds an equals sign and nothing holds an
  ampersand; \<^verbatim>\<open>ToContent\<close> does not escape, so these are the forms it can carry.
\<close>

theorem ToContent_roundtrip:
  assumes "form_ok forms" and "forms \<noteq> []"
  shows "parse_form (ToContent forms) = forms"
proof (cases forms)
  case (Cons f rest)
  obtain k v where f: "f = (k, v)" by (cases f)
  have kv: "split_field (k @ ''='' @ v) = (k, v)" "CHR ''&'' \<notin> set (k @ ''='' @ v)" "form_ok rest"
    using assms f Cons by (auto simp: form_ok_def split_field_pair)
  show ?thesis
  proof (cases "rest = []")
    case True
    then show ?thesis using Cons f kv by (simp add: ToContent_def parse_form_def split_on_free)
  next
    case False
    then show ?thesis
      using Cons f kv pairs_loop_rest [OF kv(3) False kv(2), of "[]"]
      by (simp add: ToContent_def parse_form_def)
  qed
qed (use assms in simp)

theorem ToContent_roundtrip_witness:
  "parse_form (ToContent [(''a'', ''1''), (''b'', ''x=y'')]) = [(''a'', ''1''), (''b'', ''x=y'')]"
  using ToContent_roundtrip [of "[(''a'', ''1''), (''b'', ''x=y'')]"] by (simp add: form_ok_def)

end
