(* ===== verification/Http_Calls.thy ===== *)
theory Http_Calls
  imports Http_Client
begin

text \<open>
  The rest of \<^verbatim>\<open>source/net/\<close>: the settings of a connection (\<^verbatim>\<open>coro_httpclient.cpp\<close>) and what a pooled one
  carries over from its last use, the overloads with callbacks and the blocking ones (\<^verbatim>\<open>httpclient.h\<close>),
  \<^verbatim>\<open>SetResultUnwrap\<close>, and \<^verbatim>\<open>DownloadAsync\<close> with the host it reads off a URL. Of a cinatra connection the model
  has what the client sets: timeouts, TLS, and the headers and parts of the next request.
\<close>

section \<open>Connections\<close>

datatype ssl = NoSsl | CaPath string | DefaultCa

record connection =
  cn_req_timeout :: nat
  cn_conn_timeout :: nat
  cn_sni :: string
  cn_ssl :: ssl
  cn_headers :: "string \<rightharpoonup> string"
  cn_parts :: "string \<rightharpoonup> string"

record coro_client = http_client +
  conns :: "nat \<Rightarrow> connection"
  unwrap_result :: "string \<Rightarrow> ResultWrapper"

definition http_timeout_ms :: nat where "http_timeout_ms = 10 * 1000"

definition plain_connection :: connection where
  "plain_connection = \<lparr>cn_req_timeout = http_timeout_ms, cn_conn_timeout = http_timeout_ms, cn_sni = [], cn_ssl = NoSsl,
     cn_headers = Map.empty, cn_parts = Map.empty\<rparr>"

text \<open>\<open>ca\<close> is the certificate directory of the current device, empty if there is none.\<close>

definition init_tls :: "string \<Rightarrow> string \<Rightarrow> connection \<Rightarrow> connection" where
  "init_tls name ca cn = cn\<lparr>cn_sni := name, cn_ssl := if ca \<noteq> [] then CaPath ca else DefaultCa\<rparr>"

definition create_client :: "string \<Rightarrow> 'a http_client_scheme \<Rightarrow> connection" where
  "create_client ca c = (if hc_https c then init_tls (hc_host c) ca plain_connection else plain_connection)"

text \<open>\<^verbatim>\<open>coro_http_client::reset\<close> closes the socket and clears headers and parts; the TLS set-up stays.\<close>

definition reset_conn :: "connection \<Rightarrow> connection" where
  "reset_conn cn = cn\<lparr>cn_headers := Map.empty, cn_parts := Map.empty\<rparr>"

text \<open>\<^verbatim>\<open>add_header\<close> of cinatra drops a header without a name and \<^verbatim>\<open>Host\<close>, and replaces one of the same name; \<^verbatim>\<open>add_str_part\<close> keeps the first.\<close>

fun store_header :: "string \<times> string \<Rightarrow> (string \<rightharpoonup> string) \<Rightarrow> (string \<rightharpoonup> string)" where
  "store_header (key, val) m = (if key = [] then m else if key = ''Host'' then m else m(key \<mapsto> val))"

fun store_part :: "string \<times> string \<Rightarrow> (string \<rightharpoonup> string) \<Rightarrow> (string \<rightharpoonup> string)" where
  "store_part (name, content) m = (case m name of None \<Rightarrow> m(name \<mapsto> content) | Some _ \<Rightarrow> m)"

definition add_header :: "string \<times> string \<Rightarrow> connection \<Rightarrow> connection" where
  "add_header h cn = cn\<lparr>cn_headers := store_header h (cn_headers cn)\<rparr>"

definition add_str_part :: "string \<times> string \<Rightarrow> connection \<Rightarrow> connection" where
  "add_str_part h cn = cn\<lparr>cn_parts := store_part h (cn_parts cn)\<rparr>"

definition set_conn :: "nat \<Rightarrow> connection \<Rightarrow> coro_client \<Rightarrow> coro_client" where
  "set_conn k cn c = c\<lparr>conns := (conns c)(k := cn)\<rparr>"

definition AcquireConn :: "((string \<rightharpoonup> string) \<Rightarrow> pairs) \<Rightarrow> string \<Rightarrow> coro_client \<Rightarrow> nat \<times> coro_client" where
  "AcquireConn listing ca c =
     (let cn = (case client_pool c of [] \<Rightarrow> create_client ca c | k # ks \<Rightarrow> reset_conn (conns c k));
          (k, c) = AcquireClient c;
          cn = fold add_str_part (listing (common_params c)) cn;
          cn = fold add_header (listing (common_headers c)) cn
      in (k, set_conn k cn c))"

definition CoroHttpClient :: "(string \<Rightarrow> json option) \<Rightarrow> string \<Rightarrow> bool \<Rightarrow> coro_client" where
  "CoroHttpClient parse host https =
     http_client.extend (CreateHttpClient host https) \<lparr>conns = (\<lambda>_. plain_connection), unwrap_result = TapUnwrapResult parse\<rparr>"

definition SetResultUnwrap :: "(string \<Rightarrow> ResultWrapper) \<Rightarrow> coro_client \<Rightarrow> coro_client" where
  "SetResultUnwrap f c = c\<lparr>unwrap_result := f\<rparr>"

section \<open>Requests on a connection\<close>

datatype req_content_type = req_none | req_json | req_form_url_encode | req_string

definition cina_content_type :: "ContentType \<Rightarrow> req_content_type" where
  "cina_content_type content_type =
     (if content_type = FORM then req_form_url_encode else if content_type = JSON then req_json else req_none)"

text \<open>What goes out: the connection adds what was set on it to the request proper.\<close>

record wire_request =
  wr_url :: string
  wr_method :: HttpType
  wr_param :: string
  wr_content :: string
  wr_content_type :: req_content_type
  wr_headers :: "string \<rightharpoonup> string"
  wr_parts :: "string \<rightharpoonup> string"

definition begin_request ::
    "((string \<rightharpoonup> string) \<Rightarrow> pairs) \<Rightarrow> string \<Rightarrow> HttpType \<Rightarrow> string \<Rightarrow> pairs \<Rightarrow> pairs \<Rightarrow> string \<Rightarrow> req_content_type
     \<Rightarrow> coro_client \<Rightarrow> nat \<times> wire_request \<times> coro_client" where
  "begin_request listing ca type path headers params content content_type c =
     (let (k, c) = AcquireConn listing ca c;
          cn = fold add_header headers (conns c k)
      in (k, \<lparr>wr_url = request_url c path, wr_method = type, wr_param = ToParam params, wr_content = content,
              wr_content_type = content_type, wr_headers = cn_headers cn, wr_parts = cn_parts cn\<rparr>, set_conn k cn c))"

definition begin_coroutine where
  "begin_coroutine listing ca type path headers params content content_type c =
     begin_request listing ca type path headers params content (cina_content_type content_type) c"

definition begin_callback where
  "begin_callback listing ca type path headers params c = begin_request listing ca type path headers params [] req_string c"

text \<open>The end of the coroutine overload, when the response has come.\<close>

definition end_request :: "nat \<Rightarrow> response \<Rightarrow> coro_client \<Rightarrow> (net_error + json) \<times> coro_client" where
  "end_request k value c = (answer_with (unwrap_result c) value, RecycleClient k c)"

text \<open>
  The end of the callback overload with typed results. \<^verbatim>\<open>std::make_shared<R>(content)\<close> runs inside the
  callback, outside any handler: an exception of the constructor leaves it before \<^verbatim>\<open>RecycleClient\<close>.
\<close>

datatype callback_run = RanSuccess json | RanFailed int int string | RanNone

datatype 'r typed_run = GotResult 'r | GotFailed int int string | GotNothing | Escaped exn

definition typed_cb :: "(json \<Rightarrow> 'r may) \<Rightarrow> callback_run \<Rightarrow> 'r typed_run option" where
  "typed_cb construct run =
     (case run of
        RanSuccess j \<Rightarrow> map_option (\<lambda>r. case r of Inr x \<Rightarrow> GotResult x | Inl e \<Rightarrow> Escaped e) (construct j)
      | RanFailed status code msg \<Rightarrow> Some (GotFailed status code msg)
      | RanNone \<Rightarrow> Some GotNothing)"

definition callback_answer :: "(string \<Rightarrow> ResultWrapper) \<Rightarrow> bool \<Rightarrow> response option \<Rightarrow> callback_run" where
  "callback_answer unwrap has_failed result =
     (case result of
        Some value \<Rightarrow>
          if rs_status value = 200 then
            let tap_res = unwrap (rs_body value)
            in if rw_code tap_res = 0 then RanSuccess (rw_content tap_res)
               else if has_failed then RanFailed 200 (rw_code tap_res) (rw_msg tap_res) else RanNone
          else if has_failed then RanFailed (rs_status value) (rs_net_err value) (rs_body value) else RanNone
      | None \<Rightarrow> if has_failed then RanFailed (- 1) (- 1) ''Unk!'' else RanNone)"

definition end_request_cb ::
    "(json \<Rightarrow> 'r may) \<Rightarrow> bool \<Rightarrow> nat \<Rightarrow> response option \<Rightarrow> coro_client \<Rightarrow> ('r typed_run \<times> coro_client) option" where
  "end_request_cb construct has_failed k result c =
     map_option (\<lambda>run. (run, case run of Escaped e \<Rightarrow> c | _ \<Rightarrow> RecycleClient k c))
       (typed_cb construct (callback_answer (unwrap_result c) has_failed result))"

definition PostAsync_cb where
  "PostAsync_cb listing ca path headers params c = begin_callback listing ca POST path headers params c"

definition GetAsync_cb where
  "GetAsync_cb listing ca path headers params c = begin_callback listing ca GET path headers params c"

section \<open>Blocking requests\<close>

text \<open>\<^verbatim>\<open>SyncAwait\<close> runs the coroutine to its end and returns its value.\<close>

definition SyncAwait :: "'a \<Rightarrow> 'a" where
  "SyncAwait lazy = lazy"

definition GetSync where
  "GetSync request construct path headers params = SyncAwait (GetAsync request construct path headers params)"

definition GetSync_forms where
  "GetSync_forms request construct path headers params forms = SyncAwait (GetAsync_forms request construct path headers params forms)"

definition PostSync where
  "PostSync request construct path headers params = SyncAwait (PostAsync request construct path headers params [] NONE)"

definition PostSync_forms where
  "PostSync_forms request construct path headers params forms = SyncAwait (PostAsync_forms request construct path headers params forms)"

definition PostSync_json where
  "PostSync_json request dump construct path headers params content =
     SyncAwait (PostAsync_json request dump construct path headers params content)"

definition PostSync_list where
  "PostSync_list request dump construct path headers params content =
     SyncAwait (PostAsync_list request dump construct path headers params content)"

section \<open>Downloads\<close>

text \<open>
  The regular expression of \<^verbatim>\<open>GetHost\<close>, an optional \<^verbatim>\<open>http://\<close> or \<^verbatim>\<open>https://\<close> and then at least one character that
  is none of \<^verbatim>\<open>/?#\<close>, anchored at the start. When nothing follows the scheme, the matcher backtracks and
  takes the host from the start of the text.
\<close>

definition host_char :: "char \<Rightarrow> bool" where
  "host_char x \<longleftrightarrow> x \<notin> {CHR ''/'', CHR ''?'', CHR ''#''}"

definition strip_prefix :: "string \<Rightarrow> string \<Rightarrow> string option" where
  "strip_prefix p s = (if take (length p) s = p then Some (drop (length p) s) else None)"

definition skip_scheme :: "string \<Rightarrow> string option" where
  "skip_scheme url = (case strip_prefix ''https://'' url of Some rest \<Rightarrow> Some rest | None \<Rightarrow> strip_prefix ''http://'' url)"

definition GetHost :: "string \<Rightarrow> string" where
  "GetHost url =
     (case skip_scheme url of
        Some rest \<Rightarrow> if takeWhile host_char rest \<noteq> [] then takeWhile host_char rest else takeWhile host_char url
      | None \<Rightarrow> takeWhile host_char url)"

definition download_connection :: "string \<Rightarrow> string \<Rightarrow> connection" where
  "download_connection ca url = init_tls (GetHost url) ca plain_connection"

definition DownloadAsync :: "string \<Rightarrow> (connection \<Rightarrow> string \<Rightarrow> string \<Rightarrow> response) \<Rightarrow> string \<Rightarrow> string \<Rightarrow> net_error + unit" where
  "DownloadAsync ca async_download url path =
     (let value = async_download (download_connection ca url) url path
      in if rs_status value = 200 then Inr ()
         else Inl (MakeError (rs_status value) (rs_net_err value) (if rs_body value \<noteq> [] then rs_body value else rs_net_msg value)))"

section \<open>Settings of a connection\<close>

definition conn_settings :: "string \<Rightarrow> bool \<Rightarrow> connection \<Rightarrow> bool" where
  "conn_settings host https cn \<longleftrightarrow> cn_req_timeout cn = 10000 \<and> cn_conn_timeout cn = 10000
     \<and> (if https then cn_sni cn = host \<and> cn_ssl cn \<noteq> NoSsl else cn_ssl cn = NoSsl)"

definition header_map :: "pairs \<Rightarrow> (string \<rightharpoonup> string)" where
  "header_map hs = fold store_header hs Map.empty"

definition part_map :: "pairs \<Rightarrow> (string \<rightharpoonup> string)" where
  "part_map ps = fold store_part ps Map.empty"

lemma fold_add:
  "fold add_header hs cn = cn\<lparr>cn_headers := fold store_header hs (cn_headers cn)\<rparr>"
  "fold add_str_part hs cn = cn\<lparr>cn_parts := fold store_part hs (cn_parts cn)\<rparr>"
  by (induction hs arbitrary: cn) (simp_all add: add_header_def add_str_part_def)

lemma settings_frame [simp]:
  "conn_settings host https (cn\<lparr>cn_headers := hs\<rparr>) = conn_settings host https cn"
  "conn_settings host https (cn\<lparr>cn_parts := ps\<rparr>) = conn_settings host https cn"
  "conn_settings host https (reset_conn cn) = conn_settings host https cn"
  by (simp_all add: conn_settings_def reset_conn_def)

lemma create_settings: "conn_settings (hc_host c) (hc_https c) (create_client ca c)"
  by (simp add: conn_settings_def create_client_def init_tls_def plain_connection_def http_timeout_ms_def)

text \<open>The state between two requests: the pool is sound, and all live connections are set up for the host.\<close>

definition client_ok :: "string \<Rightarrow> bool \<Rightarrow> nat set \<Rightarrow> coro_client \<Rightarrow> bool" where
  "client_ok host https used c \<longleftrightarrow> hc_host c = host \<and> hc_https c = https \<and> pool_ok used c
     \<and> (\<forall>k \<in> set (client_pool c) \<union> used. conn_settings host https (conns c k))"

lemma AcquireConn_eq:
  assumes "client_ok host https used c" and "AcquireConn listing ca c = (k, c')"
  shows "k = fst (AcquireClient c)" "\<exists>cn. c' = (snd (AcquireClient c))\<lparr>conns := (conns c)(k := cn)\<rparr> \<and> conn_settings host https cn
     \<and> cn_headers cn = header_map (listing (common_headers c)) \<and> cn_parts cn = part_map (listing (common_params c))"
proof -
  let ?b = "case client_pool c of [] \<Rightarrow> create_client ca c | k # ks \<Rightarrow> reset_conn (conns c k)"
  have "conn_settings host https ?b" "cn_headers ?b = Map.empty" "cn_parts ?b = Map.empty"
    using assms(1) create_settings [of c ca]
    by (auto simp: client_ok_def create_client_def init_tls_def plain_connection_def reset_conn_def split: list.split)
  then show "k = fst (AcquireClient c)" "\<exists>cn. c' = (snd (AcquireClient c))\<lparr>conns := (conns c)(k := cn)\<rparr> \<and> conn_settings host https cn
     \<and> cn_headers cn = header_map (listing (common_headers c)) \<and> cn_parts cn = part_map (listing (common_params c))"
    using assms(2) by (auto simp: AcquireConn_def AcquireClient_def set_conn_def fold_add header_map_def part_map_def Let_def split: list.splits)
qed

lemma begin_request_eq:
  assumes "client_ok host https used c" and "begin_request listing ca type path headers params content ct c = (k, r, c')"
  shows "k = fst (AcquireClient c)" "\<exists>cn. c' = (snd (AcquireClient c))\<lparr>conns := (conns c)(k := cn)\<rparr> \<and> conn_settings host https cn"
    "wr_headers r = header_map (listing (common_headers c) @ headers)" "wr_parts r = part_map (listing (common_params c))"
    "wr_url r = request_url c path" "wr_content r = content"
proof -
  obtain c1 where a: "AcquireConn listing ca c = (k, c1)"
    using assms(2) by (auto simp: begin_request_def Let_def split: prod.splits)
  note A = AcquireConn_eq [OF assms(1) a]
  from A(2) obtain cn where cn: "c1 = (snd (AcquireClient c))\<lparr>conns := (conns c)(k := cn)\<rparr>" "conn_settings host https cn"
    "cn_headers cn = header_map (listing (common_headers c))" "cn_parts cn = part_map (listing (common_params c))" by blast
  have url: "request_url c1 path = request_url c path" by (simp add: cn request_url_def AcquireClient_def split: list.split)
  from assms(2) a cn url have "c' = (snd (AcquireClient c))\<lparr>conns := (conns c)(k := cn\<lparr>cn_headers := fold store_header headers (cn_headers cn)\<rparr>)\<rparr>"
    "wr_headers r = header_map (listing (common_headers c) @ headers)" "wr_parts r = part_map (listing (common_params c))" "wr_url r = request_url c path" "wr_content r = content"
    by (auto simp: begin_request_def set_conn_def fold_add header_map_def Let_def)
  with cn(2) A(1) show "k = fst (AcquireClient c)" "\<exists>cn. c' = (snd (AcquireClient c))\<lparr>conns := (conns c)(k := cn)\<rparr> \<and> conn_settings host https cn"
    "wr_headers r = header_map (listing (common_headers c) @ headers)" "wr_parts r = part_map (listing (common_params c))" "wr_url r = request_url c path" "wr_content r = content"
    by auto
qed

section \<open>Interleaved requests\<close>

inductive client_step :: "((string \<rightharpoonup> string) \<Rightarrow> pairs) \<Rightarrow> (json \<Rightarrow> 'r may) \<Rightarrow> nat set \<times> coro_client \<Rightarrow> nat set \<times> coro_client \<Rightarrow> bool"
  for listing construct where
  begins: "begin_request listing ca type path headers params content ct c = (k, r, c')
     \<Longrightarrow> client_step listing construct (used, c) (insert k used, c')"
| ends: "k \<in> used \<Longrightarrow> client_step listing construct (used, c) (used - {k}, snd (end_request k value c))"
| ends_cb: "k \<in> used \<Longrightarrow> end_request_cb construct has_failed k result c = Some (run, c')
     \<Longrightarrow> client_step listing construct (used, c) (used - {k}, c')"
| header: "CommonHeader key value c = Inr c' \<Longrightarrow> client_step listing construct (used, c) (used, c')"
| param: "CommonParam key value c = Inr c' \<Longrightarrow> client_step listing construct (used, c) (used, c')"
| unwrap: "client_step listing construct (used, c) (used, SetResultUnwrap f c)"

inductive client_reachable :: "((string \<rightharpoonup> string) \<Rightarrow> pairs) \<Rightarrow> (json \<Rightarrow> 'r may) \<Rightarrow> string \<Rightarrow> bool \<Rightarrow> nat set \<times> coro_client \<Rightarrow> bool"
  for listing construct host https where
  start: "client_reachable listing construct host https ({}, CoroHttpClient parse host https)"
| step: "client_reachable listing construct host https s \<Longrightarrow> client_step listing construct s t \<Longrightarrow> client_reachable listing construct host https t"

lemma client_ok_recycle: "client_ok host https used c \<Longrightarrow> k \<in> used \<Longrightarrow> client_ok host https (used - {k}) (RecycleClient k c)"
  using pool_ok_recycle [of used c k] by (auto simp: client_ok_def RecycleClient_def)

lemma client_ok_drop: "client_ok host https used c \<Longrightarrow> client_ok host https (used - {k}) c"
  by (auto simp: client_ok_def pool_ok_def)

lemma client_ok_begin:
  assumes "client_ok host https used c" and "begin_request listing ca type path headers params content ct c = (k, r, c')"
  shows "client_ok host https (insert k used) c'" "k \<notin> used"
proof -
  note b = begin_request_eq [OF assms]
  from b(2) obtain cn where cn: "c' = (snd (AcquireClient c))\<lparr>conns := (conns c)(k := cn)\<rparr>" "conn_settings host https cn" by blast
  have p: "k \<notin> used" "pool_ok (insert k used) (snd (AcquireClient c))"
    using pool_ok_acquire [of used c] assms(1) b(1) by (simp_all add: client_ok_def)
  then show "k \<notin> used" by simp
  have "pool_ok (insert k used) c'" using p(2) by (simp add: cn(1) pool_ok_def)
  moreover have "set (client_pool c') \<subseteq> set (client_pool c)" "hc_host c' = hc_host c" "hc_https c' = hc_https c"
    by (auto simp: cn(1) AcquireClient_def split: list.splits)
  ultimately show "client_ok host https (insert k used) c'" using assms(1) cn by (auto simp: client_ok_def)
qed

lemma client_reachable_ok: "client_reachable listing construct host https s \<Longrightarrow> client_ok host https (fst s) (snd s)"
proof (induction rule: client_reachable.induct)
  case (start parse)
  then show ?case by (simp add: client_ok_def CoroHttpClient_def CreateHttpClient_def pool_ok_def http_client.extend_def)
next
  case (step s t)
  from step(2) step.IH show ?case
  proof (induction rule: client_step.induct)
    case (begins ca type path headers params content ct c k r c' used)
    then show ?case using client_ok_begin(1) by simp
  next
    case (ends k used c v)
    then show ?case by (simp add: end_request_def client_ok_recycle)
  next
    case (ends_cb k used has_failed result c run c')
    then show ?case by (auto simp: end_request_cb_def client_ok_recycle client_ok_drop split: typed_run.splits)
  qed (auto simp: client_ok_def pool_ok_def CommonHeader_def CommonParam_def SetResultUnwrap_def assert_that_def throws_bind_def split: sum.splits if_splits)
qed

section \<open>Properties\<close>

text \<open>
  C26: requests do not see each other. However requests begin and end, with a coroutine or a callback, a new one gets
  a connection no other request uses and leaves theirs alone; it is set up for the host of the client
  with the timeouts and, for https, the server name and a certificate; and its headers and parts are built from
  the common ones and its own alone, with nothing a pooled connection has kept from an earlier request.
\<close>

theorem request_isolated:
  assumes "client_reachable listing construct host https (used, c)"
    and "begin_request listing ca type path headers params content ct c = (k, r, c')"
  shows "k \<notin> used \<and> (\<forall>j \<in> used. conns c' j = conns c j) \<and> conn_settings host https (conns c' k)
     \<and> wr_headers r = header_map (listing (common_headers c) @ headers) \<and> wr_parts r = part_map (listing (common_params c))"
proof -
  have ok: "client_ok host https used c" using client_reachable_ok [OF assms(1)] by simp
  note b = begin_request_eq [OF ok assms(2)]
  obtain cn where cn: "c' = (snd (AcquireClient c))\<lparr>conns := (conns c)(k := cn)\<rparr>" "conn_settings host https cn" using b(2) by blast
  then show ?thesis using b(3,4) client_ok_begin(2) [OF ok assms(2)] by auto
qed

definition demo_listing :: "(string \<rightharpoonup> string) \<Rightarrow> pairs" where
  "demo_listing m = []"

definition demo_client :: coro_client where
  "demo_client = CoroHttpClient (\<lambda>_. None) ''h'' True"

definition demo_begin :: "pairs \<Rightarrow> coro_client \<Rightarrow> nat \<times> wire_request \<times> coro_client" where
  "demo_begin headers c = begin_coroutine demo_listing [] GET ''p'' headers [] [] NONE c"

theorem request_isolated_witness:
  "\<exists>k r c k2 r2 c2. demo_begin [(''Authorization'', ''x'')] demo_client = (k, r, c) \<and> wr_headers r = [''Authorization'' \<mapsto> ''x'']
     \<and> demo_begin [] (RecycleClient k c) = (k2, r2, c2) \<and> k2 = k \<and> wr_headers r2 = Map.empty"
proof -
  let ?construct = "\<lambda>j. Some (Inr ())"
  obtain k r c where 1: "demo_begin [(''Authorization'', ''x'')] demo_client = (k, r, c)" by (metis prod.exhaust)
  obtain k2 r2 c2 where 2: "demo_begin [] (RecycleClient k c) = (k2, r2, c2)" by (metis prod.exhaust)
  note d = demo_begin_def begin_coroutine_def
  have s: "client_reachable demo_listing ?construct ''h'' True ({}, demo_client)"
    unfolding demo_client_def by (rule client_reachable.start)
  have "client_reachable demo_listing ?construct ''h'' True (insert k {}, c)"
    by (rule client_reachable.step [OF s client_step.begins [OF 1 [unfolded d]]])
  then have t: "client_reachable demo_listing ?construct ''h'' True (insert k {} - {k}, snd (end_request k v c))" for v
    by (rule client_reachable.step) (rule client_step.ends, simp)
  have "wr_headers r = [''Authorization'' \<mapsto> ''x'']" "wr_headers r2 = Map.empty"
    using request_isolated [OF s 1 [unfolded d]] request_isolated [OF t [unfolded end_request_def snd_conv] 2 [unfolded d]]
    by (simp_all add: demo_listing_def header_map_def)
  moreover have "k2 = k"
    using 1 2 by (auto simp: d begin_request_def AcquireConn_def AcquireClient_def RecycleClient_def set_conn_def demo_client_def CoroHttpClient_def
        CreateHttpClient_def http_client.extend_def max_pool_size_def Let_def)
  ultimately show ?thesis using 1 2 by blast
qed

text \<open>The tracker's clients accept any body (\<^verbatim>\<open>tracker_impl.cpp\<close>): an upload succeeds exactly when the status is 200.\<close>

definition tracker_unwrap :: "string \<Rightarrow> ResultWrapper" where
  "tracker_unwrap response = \<lparr>rw_code = 0, rw_msg = [], rw_content = JNull\<rparr>"

lemma tracker_accepts_200:
  "(\<exists>j. fst (end_request k value (SetResultUnwrap tracker_unwrap c)) = Inr j) \<longleftrightarrow> rs_status value = 200"
  by (simp add: end_request_def SetResultUnwrap_def answer_with_def tracker_unwrap_def)

text \<open>
  An answer the result type cannot be built from: the overload with a coroutine reports an error; the one with
  callbacks runs neither of them, and its connection never comes back to the pool.
\<close>

lemma constructor_failure:
  assumes "rs_status value = 200" and "rw_code (unwrap_result c (rs_body value)) = 0" and "construct (rw_content (unwrap_result c (rs_body value))) = Some (Inl e)"
  shows "MakeResult construct (fst (end_request k value c)) = Some (Inl (MakeError 200 (- 1) (exn_what e)))"
    and "end_request_cb construct has_failed k (Some value) c = Some (Escaped e, c)"
  using assms by (simp_all add: end_request_def answer_with_def MakeResult_def end_request_cb_def callback_answer_def typed_cb_def)

text \<open>The host of a URL is found with and without a scheme, whatever follows it.\<close>

lemma takeWhile_host:
  assumes "list_all host_char host" and "rest = [] \<or> \<not> host_char (hd rest)"
  shows "takeWhile host_char (host @ rest) = host"
  using assms by (cases rest) (auto simp: list_all_iff)

lemma skip_scheme_eq:
  "skip_scheme (''https://'' @ s) = Some s" "skip_scheme (''http://'' @ s) = Some s"
  by (simp_all add: skip_scheme_def strip_prefix_def)

theorem GetHost_url:
  assumes "list_all host_char host" and "host \<noteq> []" and "rest = [] \<or> \<not> host_char (hd rest)" and "scheme \<in> {''http://'', ''https://''}"
  shows "GetHost (scheme @ host @ rest) = host"
proof -
  have "skip_scheme (scheme @ host @ rest) = Some (host @ rest)" using assms(4) skip_scheme_eq by blast
  then show ?thesis using takeWhile_host [OF assms(1,3)] assms(2) by (simp only: GetHost_def option.case) simp
qed

theorem GetHost_url_witness: "GetHost ''https://a.b:80/c?d'' = ''a.b:80''"
  using GetHost_url [of "''a.b:80''" "''/c?d''" "''https://''"] by (simp add: host_char_def)

text \<open>A URL that is nothing but a scheme yields the scheme's name as host.\<close>

lemma GetHost_no_host: "GetHost ''https://'' = ''https:''"
  by (simp add: GetHost_def skip_scheme_def strip_prefix_def host_char_def)

end
