(* ===== verification/Dur_Store.thy ===== *)
theory Dur_Store
  imports Tap_Json
begin

text \<open>
  \<^verbatim>\<open>source/duration/dur_model.h\<close>, \<^verbatim>\<open>dur_model.cpp\<close>, \<^verbatim>\<open>persistence.h\<close> and \<^verbatim>\<open>persistence.cpp\<close>: the events and
  sessions of the duration statistics and their SQLite tables. The database engine is a parameter:
  a record of the four table operations the code uses, whose documented behaviour (AUTOINCREMENT
  keys, update and removal by key, rows in key order) is the locale \<open>sql_table\<close>.
\<close>

section \<open>Events, sessions, configuration\<close>

datatype EventAction = NULL_EVENT | GAME_START | GAME_FOREGROUND | GAME_BACKGROUND | GAME_END
  | HEAT_BEAT | USER_LOGIN | USER_LOGOUT

datatype DeviceType = Local | Sandbox | Cloud

record DeviceInfo =
  dev_version :: string
  dev_model :: string
  dev_platform :: string
  dev_engine :: string
  dev_os_version :: string
  dev_android_id :: string
  dev_ram_size :: string
  dev_rom_size :: string
  dev_network_type :: string
  dev_mobile_type :: string
  dev_cpu_info :: string

record DurEvent =
  ev_id :: nat
  ev_action :: EventAction
  ev_tap_user :: bool
  ev_user_id :: string
  ev_game_id :: string
  ev_game_pkg :: string
  ev_device_id :: string
  ev_session :: string
  ev_timestamp :: u64
  ev_last_timestamp :: u64
  ev_dev_type :: DeviceType
  ev_device_info :: "DeviceInfo option"
  ev_sdk_version :: string

record GameSession =
  gs_id :: nat
  gs_tap_user :: bool
  gs_session :: string
  gs_user_id :: string
  gs_game_id :: string
  gs_game_pkg :: string
  gs_game_start :: u64
  gs_last_beats :: u64
  gs_last_timestamp :: u64

record ReportConfig =
  rc_id :: nat
  rc_enable :: bool
  rc_no_tap_enable :: bool
  rc_tap_frequency :: u32
  rc_no_tap_frequency :: u32
  rc_available_start_ts :: u64
  rc_server_ts :: u64

definition ReportConfig_default :: ReportConfig where
  "ReportConfig_default = \<lparr>rc_id = 0, rc_enable = True, rc_no_tap_enable = True, rc_tap_frequency = 150,
     rc_no_tap_frequency = 300, rc_available_start_ts = 0, rc_server_ts = 0\<rparr>"

definition ActionString :: "EventAction \<Rightarrow> string" where
  "ActionString action =
     (case action of GAME_START \<Rightarrow> ''start'' | GAME_END \<Rightarrow> ''end'' | HEAT_BEAT \<Rightarrow> ''heartbeat''
      | USER_LOGIN \<Rightarrow> ''login'' | USER_LOGOUT \<Rightarrow> ''logout'' | GAME_FOREGROUND \<Rightarrow> ''resume''
      | GAME_BACKGROUND \<Rightarrow> ''pause'' | _ \<Rightarrow> '''')"

definition DevTypeString :: "DeviceType \<Rightarrow> string" where
  "DevTypeString type = (case type of Local \<Rightarrow> ''local'' | Sandbox \<Rightarrow> ''sandbox'' | Cloud \<Rightarrow> ''cloud'')"

section \<open>JSON forms\<close>

definition ReportConfig_of_json :: "json \<Rightarrow> ReportConfig may" where
  "ReportConfig_of_json j =
     may_bind (json_read json_to_bool j ''enable'') (\<lambda>enable.
     may_bind (json_read json_to_bool j ''notap_enable'') (\<lambda>no_tap_enable.
     may_bind (json_read json_to_u32 j ''tap_frequency'') (\<lambda>tap_frequency.
     may_bind (json_read json_to_u32 j ''notap_frequency'') (\<lambda>no_tap_frequency.
     may_bind (json_read json_to_u64 j ''available_start_ts'') (\<lambda>available_start_ts.
     may_bind (json_read json_to_u64 j ''server_ts'') (\<lambda>server_ts.
       Some (Inr \<lparr>rc_id = 0, rc_enable = enable, rc_no_tap_enable = no_tap_enable,
            rc_tap_frequency = tap_frequency, rc_no_tap_frequency = no_tap_frequency,
            rc_available_start_ts = available_start_ts, rc_server_ts = server_ts\<rparr>)))))))"

text \<open>\<open>parse\<close> is \<^verbatim>\<open>net::Json::parse\<close>: None when it throws.\<close>

definition ReportContent_ToJson :: "(string \<Rightarrow> json option) \<Rightarrow> DurEvent \<Rightarrow> json throws" where
  "ReportContent_ToJson parse event =
     throws_bind
       (if ev_user_id event \<noteq> [] then
          (case parse (ev_user_id event) of
             Some user \<Rightarrow> Inr [(''user'', user)]
           | None \<Rightarrow> Inl (RuntimeError ''Error user json''))
        else Inr [])
       (\<lambda>user_field.
         let extra = (''session_id'', JString (ev_session event)) #
               (if ev_last_timestamp event \<noteq> 0
                then [(''last_ts'', JInt (uint (ev_last_timestamp event div 1000)))] else []);
             info = (case ev_device_info event of
               None \<Rightarrow> []
             | Some d \<Rightarrow> [(''os'', JString (dev_platform d)), (''engine'', JString (dev_engine d)),
                          (''device_model'', JString (dev_model d))])
         in Inr (JObject
              ([(''event'', JString (ActionString (ev_action event))),
                (''ts'', JInt (uint (ev_timestamp event div 1000))),
                (''client_id'', JString (ev_game_id event)),
                (''identifier'', JString (ev_game_pkg event))]
               @ user_field @
               [(''device_id'', JString (ev_device_id event)), (''extra'', JObject extra),
                (''environment'', JString (DevTypeString (ev_dev_type event))),
                (''sdk_version'', JString (ev_sdk_version event))] @ info)))"

section \<open>Tables\<close>

record ('d, 'r) table_ops =
  tb_insert :: "'d \<Rightarrow> 'r \<Rightarrow> nat \<times> 'd"
  tb_update :: "'d \<Rightarrow> nat \<Rightarrow> 'r \<Rightarrow> 'd"
  tb_remove :: "'d \<Rightarrow> nat \<Rightarrow> 'd"
  tb_rows :: "'d \<Rightarrow> (nat \<times> 'r) list"

text \<open>The columns \<^verbatim>\<open>InitDB\<close> declares: what is not among them reads back as its default.\<close>

definition event_columns :: "DurEvent \<Rightarrow> DurEvent" where
  "event_columns e = e\<lparr>ev_dev_type := Local, ev_device_info := None, ev_sdk_version := ''''\<rparr>"

definition config_columns :: "ReportConfig \<Rightarrow> ReportConfig" where
  "config_columns c = c\<lparr>rc_server_ts := 0\<rparr>"

definition event_of_row :: "nat \<times> DurEvent \<Rightarrow> DurEvent" where
  "event_of_row p = event_columns (snd p)\<lparr>ev_id := fst p\<rparr>"

definition AddOrMergeEvent :: "('d, DurEvent) table_ops \<Rightarrow> DurEvent \<Rightarrow> 'd \<Rightarrow> DurEvent \<times> 'd" where
  "AddOrMergeEvent T event db =
     (let latest = tb_rows T db
      in if latest \<noteq> [] then
           let old = event_of_row (last latest)
           in if ev_action event = ev_action old \<and> ev_session old = ev_session event
              then let event = event\<lparr>ev_id := ev_id old\<rparr>
                   in (event, tb_update T db (ev_id event) event)
              else let (i, db) = tb_insert T db event in (event\<lparr>ev_id := i\<rparr>, db)
         else let (i, db) = tb_insert T db event in (event\<lparr>ev_id := i\<rparr>, db))"

definition UpdateEvent :: "('d, DurEvent) table_ops \<Rightarrow> DurEvent \<Rightarrow> 'd \<Rightarrow> 'd" where
  "UpdateEvent T event db = tb_update T db (ev_id event) event"

definition DeleteEvent :: "('d, DurEvent) table_ops \<Rightarrow> DurEvent \<Rightarrow> 'd \<Rightarrow> 'd" where
  "DeleteEvent T event db = tb_remove T db (ev_id event)"

definition DeleteEvents :: "('d, DurEvent) table_ops \<Rightarrow> DurEvent list \<Rightarrow> 'd \<Rightarrow> 'd" where
  "DeleteEvents T events db =
     foldl (\<lambda>db event. if ev_id event \<noteq> 0 then tb_remove T db (ev_id event) else db) db events"

definition GetLatestEvent :: "('d, DurEvent) table_ops \<Rightarrow> 'd \<Rightarrow> DurEvent option" where
  "GetLatestEvent T db = (if tb_rows T db \<noteq> [] then Some (event_of_row (last (tb_rows T db))) else None)"

definition GetEvents :: "('d, DurEvent) table_ops \<Rightarrow> 'd \<Rightarrow> DurEvent list" where
  "GetEvents T db = map event_of_row (tb_rows T db)"

definition UpdateSession :: "('d, GameSession) table_ops \<Rightarrow> GameSession \<Rightarrow> 'd \<Rightarrow> GameSession \<times> 'd" where
  "UpdateSession T session db =
     (if gs_id session = 0
      then let (i, db) = tb_insert T db session in (session\<lparr>gs_id := i\<rparr>, db)
      else (session, tb_update T db (gs_id session) session))"

definition UpdateConfig :: "('d, ReportConfig) table_ops \<Rightarrow> ReportConfig \<Rightarrow> 'd \<Rightarrow> ReportConfig \<times> 'd" where
  "UpdateConfig T config db =
     (if rc_id config = 0
      then let (i, db) = tb_insert T db config in (config\<lparr>rc_id := i\<rparr>, db)
      else (config, tb_update T db (rc_id config) config))"

definition GetLatestConfig :: "('d, ReportConfig) table_ops \<Rightarrow> 'd \<Rightarrow> ReportConfig option" where
  "GetLatestConfig T db =
     (if tb_rows T db \<noteq> []
      then Some (config_columns (snd (last (tb_rows T db)))\<lparr>rc_id := fst (last (tb_rows T db))\<rparr>) else None)"

definition GetLatestSession :: "('d, GameSession) table_ops \<Rightarrow> 'd \<Rightarrow> GameSession option" where
  "GetLatestSession T db =
     (if tb_rows T db \<noteq> []
      then Some (snd (last (tb_rows T db))\<lparr>gs_id := fst (last (tb_rows T db))\<rparr>) else None)"

section \<open>What the code relies on of the database\<close>

locale sql_table =
  fixes T :: "('d, 'r) table_ops"
    and ok :: "'d \<Rightarrow> bool"
  assumes rows_ok: "ok db \<Longrightarrow> sorted_wrt (<) (map fst (tb_rows T db)) \<and> 0 \<notin> fst ` set (tb_rows T db)"
    and insert_ok: "ok db \<Longrightarrow> ok (snd (tb_insert T db r))"
    and rows_insert: "ok db \<Longrightarrow> tb_rows T (snd (tb_insert T db r)) = tb_rows T db @ [(fst (tb_insert T db r), r)]"
    and update_ok: "ok db \<Longrightarrow> ok (tb_update T db i r)"
    and rows_update: "ok db \<Longrightarrow> tb_rows T (tb_update T db i r) = map (\<lambda>(k, x). (k, if k = i then r else x)) (tb_rows T db)"
    and remove_ok: "ok db \<Longrightarrow> ok (tb_remove T db i)"
    and rows_remove: "ok db \<Longrightarrow> tb_rows T (tb_remove T db i) = filter (\<lambda>(k, x). k \<noteq> i) (tb_rows T db)"
begin

lemma insert_id_fresh: "ok db \<Longrightarrow> fst (tb_insert T db r) \<notin> fst ` set (tb_rows T db)"
  using rows_ok [OF insert_ok, of db r] rows_insert [of db r]
  by (auto simp: sorted_wrt_append)

lemma insert_id_pos: "ok db \<Longrightarrow> fst (tb_insert T db r) \<noteq> 0"
  using rows_ok [OF insert_ok, of db r] rows_insert [of db r] by auto

lemma last_key_unique:
  assumes "ok db" and "tb_rows T db = xs @ [(i, x)]"
  shows "i \<notin> fst ` set xs"
  using rows_ok [OF assms(1)] assms(2) by (auto simp: sorted_wrt_append)

lemma rows_update_last:
  assumes "ok db" and "tb_rows T db = xs @ [(i, x)]"
  shows "tb_rows T (tb_update T db i r) = xs @ [(i, r)]"
proof -
  have "map (\<lambda>(k, x). (k, if k = i then r else x)) xs = xs"
    using last_key_unique [OF assms] by (induction xs) auto
  then show ?thesis using assms by (simp add: rows_update)
qed

end

text \<open>A table in memory: the next key, and the rows in key order.\<close>

definition mem_table :: "(nat \<times> (nat \<times> 'r) list, 'r) table_ops" where
  "mem_table = \<lparr>tb_insert = (\<lambda>(n, rows) r. (n, (Suc n, rows @ [(n, r)]))),
     tb_update = (\<lambda>(n, rows) i r. (n, map (\<lambda>(k, x). (k, if k = i then r else x)) rows)),
     tb_remove = (\<lambda>(n, rows) i. (n, filter (\<lambda>(k, x). k \<noteq> i) rows)),
     tb_rows = snd\<rparr>"

definition mem_ok :: "nat \<times> (nat \<times> 'r) list \<Rightarrow> bool" where
  "mem_ok db \<longleftrightarrow> 0 < fst db \<and> sorted_wrt (<) (map fst (snd db)) \<and> (\<forall>k \<in> fst ` set (snd db). 0 < k \<and> k < fst db)"

lemma fst_comp_update [simp]: "fst \<circ> (\<lambda>(k, x). (k, g k x)) = fst"
  by auto

lemma sorted_wrt_map_filter: "sorted_wrt (<) (map fst rows) \<Longrightarrow> sorted_wrt (<) (map fst (filter P (rows :: (nat \<times> 'r) list)))"
  by (induction rows) auto

interpretation mem: sql_table mem_table mem_ok
proof (unfold_locales, goal_cases)
  case (4 db i r)
  then show ?case
    using fst_comp_update [of "\<lambda>k x. if k = i then r else x"]
    by (cases db) (auto simp: mem_table_def mem_ok_def)
next
  case (6 db i)
  then show ?case by (auto simp: mem_table_def mem_ok_def split_beta sorted_wrt_map_filter)
qed (auto simp: mem_table_def mem_ok_def split_beta sorted_wrt_append less_Suc_eq)


section \<open>The persistent event log\<close>

definition merges :: "DurEvent \<Rightarrow> DurEvent list \<Rightarrow> bool" where
  "merges event log \<longleftrightarrow> log \<noteq> [] \<and> ev_action event = ev_action (last log) \<and> ev_session (last log) = ev_session event"

lemma event_of_row_simps [simp]:
  "ev_id (event_of_row (i, e)) = i" "ev_action (event_of_row (i, e)) = ev_action e"
  "ev_session (event_of_row (i, e)) = ev_session e"
  by (simp_all add: event_of_row_def event_columns_def)

text \<open>
  C29: the event log. \<^verbatim>\<open>AddOrMergeEvent\<close> appends the event, or replaces the latest one when it has the
  same action and session; all other events stay as they are; reading the log back gives the event's
  stored columns under the key it was given, which is never the null key 0.
\<close>

theorem AddOrMergeEvent_log:
  assumes "sql_table T ok" and "ok db"
  shows "GetEvents T (snd (AddOrMergeEvent T event db)) =
     (if merges event (GetEvents T db) then butlast (GetEvents T db) else GetEvents T db)
       @ [event_columns (fst (AddOrMergeEvent T event db))]
   \<and> ev_id (fst (AddOrMergeEvent T event db)) \<noteq> 0 \<and> ok (snd (AddOrMergeEvent T event db))"
proof -
  note laws = sql_table.rows_insert [OF assms] sql_table.insert_ok [OF assms] sql_table.insert_id_pos [OF assms]
  obtain i db' where ins: "tb_insert T db event = (i, db')" by (cases "tb_insert T db event")
  have row: "event_of_row (i, event) = event_columns (event\<lparr>ev_id := i\<rparr>)" for i
    by (simp add: event_of_row_def event_columns_def)
  have row': "event_of_row (i, event\<lparr>ev_id := i\<rparr>) = event_columns (event\<lparr>ev_id := i\<rparr>)" for i
    by (simp add: event_of_row_def event_columns_def)
  show ?thesis
  proof (cases "tb_rows T db" rule: rev_exhaust)
    case Nil
    then show ?thesis
      using laws [of event] by (simp add: AddOrMergeEvent_def GetEvents_def merges_def ins row)
  next
    case (snoc xs p)
    obtain k e where p: "p = (k, e)" by (cases p)
    have "k \<noteq> 0" using sql_table.rows_ok [OF assms] snoc p by auto
    then show ?thesis
      using laws [of event] snoc p sql_table.rows_update_last [OF assms, of xs k e "event\<lparr>ev_id := k\<rparr>"]
        sql_table.update_ok [OF assms]
      by (simp add: AddOrMergeEvent_def GetEvents_def merges_def ins row row' Let_def)
  qed
qed

definition example_event :: DurEvent where
  "example_event = \<lparr>ev_id = 0, ev_action = GAME_START, ev_tap_user = False, ev_user_id = [], ev_game_id = ''g'',
     ev_game_pkg = ''p'', ev_device_id = ''d'', ev_session = ''s'', ev_timestamp = 5000, ev_last_timestamp = 0,
     ev_dev_type = Cloud, ev_device_info = None, ev_sdk_version = ''1''\<rparr>"

theorem AddOrMergeEvent_log_witness:
  "GetEvents mem_table (snd (AddOrMergeEvent mem_table example_event (1, []))) = [event_columns (example_event\<lparr>ev_id := 1\<rparr>)]"
proof -
  have "mem_ok (1, [] :: (nat \<times> DurEvent) list)" by (simp add: mem_ok_def)
  from AddOrMergeEvent_log [OF mem.sql_table_axioms this, of example_event]
  show ?thesis by (simp add: GetEvents_def merges_def AddOrMergeEvent_def mem_table_def)
qed

end
