(* ===== verification/Blocking_Queue.thy ===== *)
theory Blocking_Queue
  imports Tap_Prelude
begin

text \<open>
  \<^verbatim>\<open>source/base/blocking_queue.h\<close>: a bounded queue guarded by one mutex and two condition
  variables. \<open>exec\<close> is what a thread does from taking the mutex to releasing it, either by
  returning or by waiting; a waiting thread sleeps until the condition variable is notified (or
  wakes spuriously) and then continues with the rest of its operation. \<open>bq_step\<close> interleaves any
  number of threads. \<open>asserts\<close> says whether the code is compiled with assertions: without them
  (\<^verbatim>\<open>NDEBUG\<close>) a \<^verbatim>\<open>Put\<close> that finds no room pushes all the same. An empty result list stands for the value-initialised \<^verbatim>\<open>T\<close> that \<^verbatim>\<open>Take\<close> and
  \<^verbatim>\<open>Back\<close> return once the queue is stopped.
\<close>

section \<open>The queue and its operations\<close>

record 'a bq =
  bq_queue :: "'a list"
  bq_capacity :: nat
  stopped :: bool

definition MAX_CAPACITY :: nat where "MAX_CAPACITY = 10000"

definition bq_new :: "nat \<Rightarrow> 'a bq" where
  "bq_new capacity = \<lparr>bq_queue = [], bq_capacity = capacity, stopped = False\<rparr>"

datatype cv = Full | Empty

text \<open>\<open>PutLoop\<close> is the element-wise branch of the vector overload of \<^verbatim>\<open>Put\<close>.\<close>

datatype 'a op = Put 'a | PutAll "'a list" | PutLoop "'a list" | Take | TakeUpTo nat
  | Front | Back | Size | IsEmpty | Stop

text \<open>
  How a critical section ends: the operation returns, waits with the rest of the operation still to
  do, or fails an assertion with that rest not done.
\<close>

datatype 'a outcome = Returned "'a list" | Waits cv "'a op" | AssertFailed "'a op"

record 'a effect =
  eff_queue :: "'a bq"
  eff_outcome :: "'a outcome"
  eff_notified :: "cv list"

definition effect_of :: "'a bq \<Rightarrow> 'a outcome \<Rightarrow> cv list \<Rightarrow> 'a effect" where
  "effect_of q out notified = \<lparr>eff_queue = q, eff_outcome = out, eff_notified = notified\<rparr>"

definition bq_push :: "'a bq \<Rightarrow> 'a \<Rightarrow> 'a bq" where
  "bq_push q x = q\<lparr>bq_queue := bq_queue q @ [x]\<rparr>"

definition must_wait_full :: "'a bq \<Rightarrow> bool" where
  "must_wait_full q \<longleftrightarrow> length (bq_queue q) = bq_capacity q \<and> \<not> stopped q"

definition bq_Put :: "bool \<Rightarrow> 'a \<Rightarrow> 'a bq \<Rightarrow> 'a effect" where
  "bq_Put asserts task q =
     (if must_wait_full q then effect_of q (Waits Full (Put task)) []
      else if asserts \<and> \<not> length (bq_queue q) < bq_capacity q then effect_of q (AssertFailed (Put task)) []
      else effect_of (bq_push q task) (Returned []) [Empty])"

fun bq_PutLoop :: "bool \<Rightarrow> 'a list \<Rightarrow> 'a bq \<Rightarrow> 'a effect" where
  "bq_PutLoop asserts [] q = effect_of q (Returned []) []"
| "bq_PutLoop asserts (task # tasks) q =
     (if must_wait_full q then effect_of q (Waits Full (PutLoop (task # tasks))) []
      else if asserts \<and> \<not> length (bq_queue q) < bq_capacity q
      then effect_of q (AssertFailed (PutLoop (task # tasks))) []
      else let e = bq_PutLoop asserts tasks (bq_push q task) in e\<lparr>eff_notified := Empty # eff_notified e\<rparr>)"

definition bq_PutAll :: "bool \<Rightarrow> 'a list \<Rightarrow> 'a bq \<Rightarrow> 'a effect" where
  "bq_PutAll asserts tasks q =
     (if length (bq_queue q) + length tasks \<le> bq_capacity q \<and> \<not> stopped q
      then effect_of (foldl bq_push q tasks) (Returned []) [Empty]
      else bq_PutLoop asserts tasks q)"

definition bq_Take :: "'a bq \<Rightarrow> 'a effect" where
  "bq_Take q =
     (if bq_queue q = [] \<and> \<not> stopped q then effect_of q (Waits Empty Take) []
      else if stopped q then effect_of q (Returned []) []
      else effect_of (q\<lparr>bq_queue := tl (bq_queue q)\<rparr>) (Returned [hd (bq_queue q)]) [Full])"

definition bq_TakeUpTo :: "nat \<Rightarrow> 'a bq \<Rightarrow> 'a effect" where
  "bq_TakeUpTo limit q =
     (if bq_queue q = [] \<and> \<not> stopped q then effect_of q (Waits Empty (TakeUpTo limit)) []
      else if stopped q then effect_of q (Returned []) []
      else let sz = min limit (length (bq_queue q)); result = take sz (bq_queue q)
           in effect_of (q\<lparr>bq_queue := drop sz (bq_queue q)\<rparr>) (Returned result) [Full])"

definition bq_Front :: "'a bq \<Rightarrow> 'a effect" where
  "bq_Front q =
     (if bq_queue q = [] then effect_of q (Waits Empty Front) []
      else effect_of q (Returned [hd (bq_queue q)]) [])"

definition bq_Back :: "'a bq \<Rightarrow> 'a effect" where
  "bq_Back q =
     (if bq_queue q = [] \<and> \<not> stopped q then effect_of q (Waits Empty Back) []
      else if stopped q then effect_of q (Returned []) []
      else effect_of q (Returned [last (bq_queue q)]) [])"

definition bq_Size :: "'a bq \<Rightarrow> nat" where
  "bq_Size q = length (bq_queue q)"

definition bq_Empty :: "'a bq \<Rightarrow> bool" where
  "bq_Empty q \<longleftrightarrow> bq_queue q = []"

definition bq_Stop :: "'a bq \<Rightarrow> 'a effect" where
  "bq_Stop q = effect_of (q\<lparr>stopped := True\<rparr>) (Returned []) [Empty, Full]"

text \<open>\<^verbatim>\<open>SetCapacity\<close> takes no lock and notifies nobody.\<close>

definition bq_SetCapacity :: "nat \<Rightarrow> 'a bq \<Rightarrow> 'a bq" where
  "bq_SetCapacity capacity q = q\<lparr>bq_capacity := (if capacity > 0 then capacity else MAX_CAPACITY)\<rparr>"

fun exec :: "bool \<Rightarrow> 'a op \<Rightarrow> 'a bq \<Rightarrow> 'a effect" where
  "exec asserts (Put task) q = bq_Put asserts task q"
| "exec asserts (PutAll tasks) q = bq_PutAll asserts tasks q"
| "exec asserts (PutLoop tasks) q = bq_PutLoop asserts tasks q"
| "exec asserts Take q = bq_Take q"
| "exec asserts (TakeUpTo limit) q = bq_TakeUpTo limit q"
| "exec asserts Front q = bq_Front q"
| "exec asserts Back q = bq_Back q"
| "exec asserts Size q = effect_of q (Returned []) []"
| "exec asserts IsEmpty q = effect_of q (Returned []) []"
| "exec asserts Stop q = bq_Stop q"

section \<open>What callers give and get\<close>

text \<open>
  The elements a caller has handed over when a critical section of its operation ends: all of them
  if the operation returns, otherwise those that are not in the rest still to be put.
\<close>

fun handed_over :: "'a list \<Rightarrow> 'a outcome \<Rightarrow> 'a list" where
  "handed_over ts (Returned xs) = ts"
| "handed_over ts (Waits c (PutLoop rest)) = take (length ts - length rest) ts"
| "handed_over ts (AssertFailed (PutLoop rest)) = take (length ts - length rest) ts"
| "handed_over ts out = []"

fun given :: "'a op \<Rightarrow> 'a outcome \<Rightarrow> 'a list" where
  "given (Put x) out = handed_over [x] out"
| "given (PutAll ts) out = handed_over ts out"
| "given (PutLoop ts) out = handed_over ts out"
| "given op out = []"

text \<open>The elements a caller gets to keep: what \<^verbatim>\<open>Take\<close> returns.\<close>

fun taken :: "'a op \<Rightarrow> 'a outcome \<Rightarrow> 'a list" where
  "taken Take (Returned xs) = xs"
| "taken (TakeUpTo limit) (Returned xs) = xs"
| "taken op out = []"

section \<open>Threads\<close>

datatype 'a thread = Ready "'a op" | Asleep cv "'a op" | Done "'a list" | Aborted

text \<open>The logs hold what all callers have given and taken, in the order of the critical sections.\<close>

record 'a sys =
  sys_queue :: "'a bq"
  threads :: "'a thread list"
  put_log :: "'a list"
  take_log :: "'a list"

fun thread_after :: "'a outcome \<Rightarrow> 'a thread" where
  "thread_after (Returned xs) = Done xs"
| "thread_after (Waits c op) = Asleep c op"
| "thread_after (AssertFailed op) = Aborted"

fun wake :: "cv list \<Rightarrow> 'a thread \<Rightarrow> 'a thread" where
  "wake cs (Asleep c op) = (if c \<in> set cs then Ready op else Asleep c op)"
| "wake cs t = t"

definition apply_effect :: "nat \<Rightarrow> 'a op \<Rightarrow> 'a effect \<Rightarrow> 'a sys \<Rightarrow> 'a sys" where
  "apply_effect i op e s =
     s\<lparr>sys_queue := eff_queue e,
       threads := (map (wake (eff_notified e)) (threads s))[i := thread_after (eff_outcome e)],
       put_log := put_log s @ given op (eff_outcome e),
       take_log := take_log s @ taken op (eff_outcome e)\<rparr>"

text \<open>
  \<open>resizes\<close> says whether \<^verbatim>\<open>SetCapacity\<close> is called while the threads run. It takes no lock, so it can come between any
  two critical sections (one that overlaps a critical section is a data race and has no meaning).
\<close>

inductive bq_step :: "bool \<Rightarrow> bool \<Rightarrow> 'a sys \<Rightarrow> 'a sys \<Rightarrow> bool" for asserts resizes where
  run: "i < length (threads s) \<Longrightarrow> threads s ! i = Ready op \<Longrightarrow>
        bq_step asserts resizes s (apply_effect i op (exec asserts op (sys_queue s)) s)"
| spurious: "i < length (threads s) \<Longrightarrow> threads s ! i = Asleep c op \<Longrightarrow>
        bq_step asserts resizes s (s\<lparr>threads := (threads s)[i := Ready op]\<rparr>)"
| call: "i < length (threads s) \<Longrightarrow> threads s ! i = Done xs \<Longrightarrow>
        bq_step asserts resizes s (s\<lparr>threads := (threads s)[i := Ready op]\<rparr>)"
| resize: "resizes \<Longrightarrow> bq_step asserts resizes s (s\<lparr>sys_queue := bq_SetCapacity capacity (sys_queue s)\<rparr>)"

definition bq_init :: "nat \<Rightarrow> nat \<Rightarrow> 'a sys" where
  "bq_init capacity n =
     \<lparr>sys_queue = bq_new capacity, threads = replicate n (Done []), put_log = [], take_log = []\<rparr>"

inductive bq_reachable :: "bool \<Rightarrow> bool \<Rightarrow> nat \<Rightarrow> nat \<Rightarrow> 'a sys \<Rightarrow> bool" for asserts resizes c n where
  init: "bq_reachable asserts resizes c n (bq_init c n)"
| step: "bq_reachable asserts resizes c n s \<Longrightarrow> bq_step asserts resizes s t \<Longrightarrow> bq_reachable asserts resizes c n t"

section \<open>First in, first out\<close>

lemmas bq_defs = effect_of_def bq_push_def must_wait_full_def bq_Put_def bq_PutAll_def bq_Take_def
  bq_TakeUpTo_def bq_Front_def bq_Back_def bq_Stop_def

lemma foldl_push: "foldl bq_push q xs = q\<lparr>bq_queue := bq_queue q @ xs\<rparr>"
  by (induction xs arbitrary: q) (simp_all add: bq_push_def)

text \<open>The element-wise branch pushes a prefix and keeps the rest.\<close>

lemma PutLoop_queue:
  "\<exists>done rest. ts = done @ rest \<and> eff_queue (bq_PutLoop asserts ts q) = q\<lparr>bq_queue := bq_queue q @ done\<rparr> \<and>
     set (eff_notified (bq_PutLoop asserts ts q)) = (if done = [] then {} else {Empty}) \<and>
     (eff_outcome (bq_PutLoop asserts ts q) = Returned [] \<and> rest = [] \<or>
      eff_outcome (bq_PutLoop asserts ts q) = Waits Full (PutLoop rest) \<and> length (bq_queue q @ done) = bq_capacity q \<and> \<not> stopped q \<or>
      eff_outcome (bq_PutLoop asserts ts q) = AssertFailed (PutLoop rest)) \<and>
     (asserts \<or> \<not> stopped q \<longrightarrow> length (bq_queue q) \<le> bq_capacity q \<longrightarrow> length (bq_queue q @ done) \<le> bq_capacity q)"
proof (induction ts arbitrary: q)
  case (Cons x ts)
  show ?case
  proof (cases "must_wait_full q \<or> asserts \<and> \<not> length (bq_queue q) < bq_capacity q")
    case True
    then show ?thesis by (intro exI [of _ "[]"] exI [of _ "x # ts"]) (auto simp: bq_defs)
  next
    case False
    let ?q = "bq_push q x"
    define e where "e = bq_PutLoop asserts ts ?q"
    obtain done' rest where r: "ts = done' @ rest" "eff_queue e = ?q\<lparr>bq_queue := bq_queue ?q @ done'\<rparr>"
      "set (eff_notified e) = (if done' = [] then {} else {Empty})"
      "eff_outcome e = Returned [] \<and> rest = [] \<or>
       eff_outcome e = Waits Full (PutLoop rest) \<and> length (bq_queue ?q @ done') = bq_capacity ?q \<and> \<not> stopped ?q \<or>
       eff_outcome e = AssertFailed (PutLoop rest)"
      "asserts \<or> \<not> stopped ?q \<longrightarrow> length (bq_queue ?q) \<le> bq_capacity ?q \<longrightarrow> length (bq_queue ?q @ done') \<le> bq_capacity ?q"
      unfolding e_def using Cons [of ?q] by blast
    have eq: "bq_PutLoop asserts (x # ts) q = e\<lparr>eff_notified := Empty # eff_notified e\<rparr>"
      using False by (auto simp: Let_def e_def)
    have room: "asserts \<or> \<not> stopped q \<Longrightarrow> length (bq_queue q) \<le> bq_capacity q \<Longrightarrow> length (bq_queue q) < bq_capacity q"
      using False by (auto simp: must_wait_full_def)
    show ?thesis unfolding eq
      by (rule exI [of _ "x # done'"], rule exI [of _ rest], use r room in \<open>simp add: bq_push_def Suc_le_eq\<close>)
  qed
qed (simp add: bq_defs)

lemma exec_fifo:
  "bq_queue q @ given op (eff_outcome (exec asserts op q)) =
   taken op (eff_outcome (exec asserts op q)) @ bq_queue (eff_queue (exec asserts op q))"
proof -
  have loop: "bq_queue (eff_queue (bq_PutLoop asserts ts q)) = bq_queue q @ handed_over ts (eff_outcome (bq_PutLoop asserts ts q))" for ts
    using PutLoop_queue [of ts asserts q] by auto
  show ?thesis by (cases op) (auto simp: bq_defs foldl_push loop Let_def min_def)
qed

lemma bq_fifo_reachable:
  "bq_reachable asserts resizes c n s \<Longrightarrow> put_log s = take_log s @ bq_queue (sys_queue s)"
proof (induction rule: bq_reachable.induct)
  case (step s t)
  from step.hyps(2) step.IH show ?case
    by (induction rule: bq_step.induct) (simp_all add: apply_effect_def exec_fifo bq_SetCapacity_def)
qed (simp add: bq_init_def bq_new_def)

section \<open>Capacity and sleepers\<close>

fun sleeper_ok :: "'a bq \<Rightarrow> 'a thread \<Rightarrow> bool" where
  "sleeper_ok q (Asleep Full op) \<longleftrightarrow> length (bq_queue q) = bq_capacity q \<and> \<not> stopped q"
| "sleeper_ok q (Asleep Empty op) \<longleftrightarrow> bq_queue q = [] \<and> (op = Front \<or> \<not> stopped q)"
| "sleeper_ok q t \<longleftrightarrow> True"

definition bq_inv :: "bool \<Rightarrow> nat \<Rightarrow> 'a sys \<Rightarrow> bool" where
  "bq_inv asserts c s \<longleftrightarrow> bq_capacity (sys_queue s) = c \<and>
     (asserts \<or> \<not> stopped (sys_queue s) \<longrightarrow> length (bq_queue (sys_queue s)) \<le> c) \<and>
     list_all (sleeper_ok (sys_queue s)) (threads s)"

lemma exec_queue:
  assumes "asserts \<or> \<not> stopped q \<Longrightarrow> length (bq_queue q) \<le> bq_capacity q"
  shows "bq_capacity (eff_queue (exec asserts op q)) = bq_capacity q"
    and "stopped (eff_queue (exec asserts op q)) = (stopped q \<or> op = Stop)"
    and "asserts \<or> \<not> stopped (eff_queue (exec asserts op q)) \<Longrightarrow>
         length (bq_queue (eff_queue (exec asserts op q))) \<le> bq_capacity q"
proof -
  have loop: "bq_capacity (eff_queue (bq_PutLoop asserts ts q)) = bq_capacity q"
    "stopped (eff_queue (bq_PutLoop asserts ts q)) = stopped q"
    "asserts \<or> \<not> stopped q \<Longrightarrow> length (bq_queue (eff_queue (bq_PutLoop asserts ts q))) \<le> bq_capacity q" for ts
    using PutLoop_queue [of ts asserts q] assms by auto
  show "bq_capacity (eff_queue (exec asserts op q)) = bq_capacity q"
    "stopped (eff_queue (exec asserts op q)) = (stopped q \<or> op = Stop)"
    by (cases op; auto simp: bq_defs foldl_push loop Let_def)+
  show "length (bq_queue (eff_queue (exec asserts op q))) \<le> bq_capacity q"
    if "asserts \<or> \<not> stopped (eff_queue (exec asserts op q))"
    using that assms loop(3) by (cases op) (auto simp: bq_defs foldl_push loop(1,2) Let_def split: if_splits)
qed

text \<open>A section that fills an empty queue has notified the readers, one that makes room the writers.\<close>

lemma exec_notified:
  assumes "asserts \<or> \<not> stopped q \<Longrightarrow> length (bq_queue q) \<le> bq_capacity q"
  shows "bq_queue q = [] \<Longrightarrow> bq_queue (eff_queue (exec asserts op q)) \<noteq> [] \<Longrightarrow> Empty \<in> set (eff_notified (exec asserts op q))"
    and "length (bq_queue q) = bq_capacity q \<Longrightarrow> \<not> stopped q \<Longrightarrow>
         length (bq_queue (eff_queue (exec asserts op q))) \<noteq> bq_capacity q \<Longrightarrow> Full \<in> set (eff_notified (exec asserts op q))"
    and "op = Stop \<Longrightarrow> set (eff_notified (exec asserts op q)) = {Empty, Full}"
proof -
  have loop: "Empty \<in> set (eff_notified (bq_PutLoop asserts ts q))" if "bq_queue (eff_queue (bq_PutLoop asserts ts q)) \<noteq> bq_queue q" for ts
    using PutLoop_queue [of ts asserts q] that by (elim exE conjE) (simp split: if_splits)
  have wait: "bq_queue (eff_queue (bq_PutLoop asserts ts q)) = bq_queue q" if "length (bq_queue q) = bq_capacity q" "\<not> stopped q" for ts
    using that by (cases ts) (simp_all add: bq_defs)
  show "Empty \<in> set (eff_notified (exec asserts op q))"
    if "bq_queue q = []" "bq_queue (eff_queue (exec asserts op q)) \<noteq> []"
    using that loop by (cases op) (auto simp: bq_defs foldl_push Let_def split: if_splits)
  show "Full \<in> set (eff_notified (exec asserts op q))"
    if "length (bq_queue q) = bq_capacity q" "\<not> stopped q" "length (bq_queue (eff_queue (exec asserts op q))) \<noteq> bq_capacity q"
    using that by (cases op) (auto simp: bq_defs foldl_push wait Let_def split: if_splits)
  show "set (eff_notified (exec asserts op q)) = {Empty, Full}" if "op = Stop"
    using that by (simp add: bq_defs)
qed

lemma exec_outcome: "sleeper_ok (eff_queue (exec asserts op q)) (thread_after (eff_outcome (exec asserts op q)))"
proof -
  have "sleeper_ok (eff_queue (bq_PutLoop asserts ts q)) (thread_after (eff_outcome (bq_PutLoop asserts ts q)))" for ts
    using PutLoop_queue [of ts asserts q] by auto
  then show ?thesis by (cases op) (auto simp: bq_defs foldl_push Let_def)
qed

lemma sleeper_ok_wake:
  assumes "asserts \<or> \<not> stopped q \<Longrightarrow> length (bq_queue q) \<le> bq_capacity q" and "sleeper_ok q t"
  shows "sleeper_ok (eff_queue (exec asserts op q)) (wake (eff_notified (exec asserts op q)) t)"
proof (cases t)
  case (Asleep c w)
  show ?thesis
    using assms(2) exec_notified [of asserts q op, OF assms(1)] exec_queue(1,2) [of asserts q op, OF assms(1)]
    by (cases c) (auto simp: Asleep)
qed auto

lemma bq_inv_init: "bq_inv asserts c (bq_init c n)"
  by (simp add: bq_inv_def bq_init_def bq_new_def list_all_iff)

lemma list_all_update: "list_all P xs \<Longrightarrow> P x \<Longrightarrow> list_all P (xs[i := x])"
  using set_update_subset_insert [of xs i x] by (auto simp: list_all_iff)

lemma bq_inv_step: "bq_step asserts False s t \<Longrightarrow> bq_inv asserts c s \<Longrightarrow> bq_inv asserts c t"
proof (induction rule: bq_step.induct)
  case (run i s op)
  let ?q = "sys_queue s"
  have le: "asserts \<or> \<not> stopped ?q \<Longrightarrow> length (bq_queue ?q) \<le> bq_capacity ?q"
    and sl: "list_all (sleeper_ok ?q) (threads s)" and c: "bq_capacity ?q = c"
    using run.prems by (simp_all add: bq_inv_def)
  have "list_all (sleeper_ok (eff_queue (exec asserts op ?q))) (map (wake (eff_notified (exec asserts op ?q))) (threads s))"
    using sl sleeper_ok_wake [of asserts ?q _ op, OF le] by (simp add: list_all_iff)
  then show ?case
    using exec_queue [of asserts ?q op, OF le] c
    by (simp add: bq_inv_def apply_effect_def list_all_update exec_outcome)
qed (auto simp: bq_inv_def list_all_update)

lemma bq_reachable_inv: "bq_reachable asserts False c n s \<Longrightarrow> bq_inv asserts c s"
  by (induction rule: bq_reachable.induct) (auto intro: bq_inv_init bq_inv_step)

inductive_cases bq_stepE: "bq_step asserts resizes s t"

section \<open>Properties\<close>

text \<open>
  C21: the queue is a first-in first-out buffer under any interleaving. In every reachable
  state of any number of threads, with or without assertions and while its capacity may change, the
  elements the callers of \<^verbatim>\<open>Put\<close> have handed over are those the callers of \<^verbatim>\<open>Take\<close> have been given, in the
  same order, followed by the queue's content: nothing is lost, duplicated or overtaken. If its
  capacity is not changed, the queue never holds more than that, except without assertions after a \<^verbatim>\<open>Stop\<close>.
\<close>

theorem bq_fifo:
  assumes "bq_reachable asserts resizes c n s"
  shows "put_log s = take_log s @ bq_queue (sys_queue s) \<and>
    (\<not> resizes \<and> (asserts \<or> \<not> stopped (sys_queue s)) \<longrightarrow> length (bq_queue (sys_queue s)) \<le> c)"
proof -
  have "length (bq_queue (sys_queue s)) \<le> c" if "\<not> resizes" "asserts \<or> \<not> stopped (sys_queue s)"
    using bq_reachable_inv [of asserts c n s] assms that by (simp add: bq_inv_def)
  then show ?thesis using bq_fifo_reachable [OF assms] by simp
qed

text \<open>One thread that makes the given calls one after the other.\<close>

fun run_calls :: "bool \<Rightarrow> 'a op list \<Rightarrow> 'a sys \<Rightarrow> 'a sys" where
  "run_calls asserts [] s = s"
| "run_calls asserts (op # ops) s = run_calls asserts ops (apply_effect 0 op (exec asserts op (sys_queue s)) (s\<lparr>threads := [Ready op]\<rparr>))"

fun all_return :: "bool \<Rightarrow> 'a op list \<Rightarrow> 'a bq \<Rightarrow> bool" where
  "all_return asserts [] q \<longleftrightarrow> True"
| "all_return asserts [op] q \<longleftrightarrow> True"
| "all_return asserts (op # ops) q \<longleftrightarrow>
     (case eff_outcome (exec asserts op q) of Returned xs \<Rightarrow> all_return asserts ops (eff_queue (exec asserts op q)) | _ \<Rightarrow> False)"

lemma run_calls_reachable:
  "bq_reachable asserts resizes c 1 s \<Longrightarrow> threads s = [Done xs] \<Longrightarrow> all_return asserts ops (sys_queue s) \<Longrightarrow>
   bq_reachable asserts resizes c 1 (run_calls asserts ops s)"
proof (induction ops arbitrary: s xs)
  case (Cons op ops)
  let ?s1 = "s\<lparr>threads := [Ready op]\<rparr>"
  let ?s2 = "apply_effect 0 op (exec asserts op (sys_queue s)) ?s1"
  have "bq_step asserts resizes s ?s1"
    using bq_step.call [of 0 s xs asserts resizes op] Cons.prems(2) by simp
  moreover have "bq_step asserts resizes ?s1 ?s2"
    using bq_step.run [of 0 ?s1 op asserts resizes] by simp
  ultimately have r: "bq_reachable asserts resizes c 1 ?s2"
    by (blast intro: bq_reachable.step Cons.prems(1))
  show ?case
  proof (cases ops)
    case (Cons op' ops')
    then obtain ys where "eff_outcome (exec asserts op (sys_queue s)) = Returned ys"
      "all_return asserts ops (eff_queue (exec asserts op (sys_queue s)))"
      using Cons.prems(3) by (auto split: outcome.splits)
    then show ?thesis using Cons.IH [OF r, of ys] by (simp add: apply_effect_def)
  qed (use r in simp)
qed simp

lemma run_first_reachable:
  "all_return asserts ops (bq_new c) \<Longrightarrow> bq_reachable asserts resizes c 1 (run_calls asserts ops (bq_init c 1))"
  by (rule run_calls_reachable [OF bq_reachable.init]) (simp_all add: bq_init_def)

theorem bq_fifo_witness:
  "let s = run_calls True [PutAll [7, 8 :: nat], Take, Put 9, TakeUpTo 1] (bq_init 2 1)
   in put_log s = [7, 8, 9] \<and> take_log s = [7, 8] \<and> put_log s = take_log s @ bq_queue (sys_queue s) \<and>
      length (bq_queue (sys_queue s)) \<le> 2"
proof -
  let ?ops = "[PutAll [7, 8 :: nat], Take, Put 9, TakeUpTo 1]"
  have "bq_reachable True False 2 1 (run_calls True ?ops (bq_init 2 1))"
    by (rule run_first_reachable) code_simp
  from bq_fifo [OF this] show ?thesis
    by (simp add: apply_effect_def bq_defs bq_new_def bq_init_def foldl_push)
qed

text \<open>
  C34: no wake-up is lost. While its capacity is not changed, a thread sleeps on \<^verbatim>\<open>full_\<close> only while the queue is full and not
  stopped, and on \<^verbatim>\<open>empty_\<close> only while it is empty and, except in \<^verbatim>\<open>Front\<close>, not stopped; so with
  a positive capacity a producer and a consumer never sleep at the same time, and once \<^verbatim>\<open>Stop\<close>
  has run only \<^verbatim>\<open>Front\<close> can be asleep.
\<close>

theorem bq_no_lost_wakeup:
  assumes "bq_reachable asserts False c n s" and "t \<in> set (threads s)"
  shows "(t = Asleep Full op \<longrightarrow> length (bq_queue (sys_queue s)) = c \<and> \<not> stopped (sys_queue s))
       \<and> (t = Asleep Empty op \<longrightarrow> bq_queue (sys_queue s) = [] \<and> (op = Front \<or> \<not> stopped (sys_queue s)))
       \<and> (0 < c \<longrightarrow> t = Asleep Full op \<longrightarrow> Asleep Empty op' \<notin> set (threads s))"
proof -
  have inv: "sleeper_ok (sys_queue s) u" if "u \<in> set (threads s)" for u
    using bq_reachable_inv [OF assms(1)] that by (simp add: bq_inv_def list_all_iff)
  have c: "bq_capacity (sys_queue s) = c" using bq_reachable_inv [OF assms(1)] by (simp add: bq_inv_def)
  show ?thesis
    using inv [OF assms(2)] inv [of "Asleep Empty op'"] c by auto
qed

theorem bq_no_lost_wakeup_witness:
  "let s = run_calls True [Take :: nat op] (bq_init 1 1)
   in threads s = [Asleep Empty Take] \<and> bq_queue (sys_queue s) = [] \<and> \<not> stopped (sys_queue s)"
  using bq_no_lost_wakeup [OF run_first_reachable [of True "[Take]" 1], of "Asleep Empty Take" Take Take]
  by (simp add: apply_effect_def bq_defs bq_new_def bq_init_def)

text \<open>
  Raising the capacity wakes nobody: a writer asleep on a full queue stays asleep although there is
  room, until some other operation notifies it.
\<close>

theorem SetCapacity_wakes_nobody:
  "\<exists>s :: nat sys. bq_reachable True True 1 1 s \<and> threads s = [Asleep Full (Put 8)] \<and>
     length (bq_queue (sys_queue s)) < bq_capacity (sys_queue s)"
proof -
  let ?s = "run_calls True [Put 7, Put (8 :: nat)] (bq_init 1 1)"
  have "bq_reachable True True 1 1 ?s"
    by (rule run_first_reachable) code_simp
  then have "bq_reachable True True 1 1 (?s\<lparr>sys_queue := bq_SetCapacity 2 (sys_queue ?s)\<rparr>)"
    by (rule bq_reachable.step) (rule bq_step.resize, simp)
  then show ?thesis
    by (intro exI [of _ "?s\<lparr>sys_queue := bq_SetCapacity 2 (sys_queue ?s)\<rparr>"]) (simp add: apply_effect_def bq_defs bq_new_def bq_init_def bq_SetCapacity_def)
qed

text \<open>
  Stopping a full queue breaks its writers. Every \<^verbatim>\<open>Put\<close> that finds the queue full and
  stopped, in particular one that \<^verbatim>\<open>Stop\<close> has just woken, skips the wait; it fails the assertion
  that there is room or, without assertions, pushes beyond the capacity. If there is room, it still pushes after the stop.
\<close>

theorem bq_put_after_stop:
  "eff_outcome (exec asserts (Put x) (eff_queue (exec asserts Stop q))) =
     (if asserts \<and> \<not> length (bq_queue q) < bq_capacity q then AssertFailed (Put x) else Returned []) \<and>
   bq_queue (eff_queue (exec asserts (Put x) (eff_queue (exec asserts Stop q)))) =
     (if asserts \<and> \<not> length (bq_queue q) < bq_capacity q then bq_queue q else bq_queue q @ [x])"
  by (simp add: bq_defs)

end
