(* ===== verification/Duration.thy ===== *)
theory Duration
  imports Dur_Store Blocking_Queue
begin

text \<open>
  \<^verbatim>\<open>source/duration/duration.h\<close> and \<^verbatim>\<open>duration.cpp\<close>: the statistics of playing time. Every member
  function is a definition over the record \<open>dur\<close> of the object's fields; the clock readings
  (\<^verbatim>\<open>Timestamp()\<close>, in milliseconds), the new session's identifier and the answers of the server are
  arguments. The three tables come with their operations (\<open>dur_ops\<close>), the queue is the one of
  \<open>Blocking_Queue\<close>, and the timer is seen through the events posted to it.
\<close>

section \<open>The object\<close>

record ('e, 's, 'c) dur_ops =
  ev_ops :: "('e, DurEvent) table_ops"
  gs_ops :: "('s, GameSession) table_ops"
  rc_ops :: "('c, ReportConfig) table_ops"

datatype timer_event = RequestConfig | LocalHeatBeat | OnlineHeatBeat

record ('e, 's, 'c) dur =
  running :: bool
  foreground :: bool
  local_session :: GameSession
  device_info :: "DeviceInfo option"
  sdk_version :: string
  report_config :: ReportConfig
  online_heat_beat_interval :: int
  online_heat_beat_interval_no_tap :: int
  online_tick_interval :: int
  ev_db :: 'e
  gs_db :: 's
  rc_db :: 'c
  report_queue :: "DurEvent bq"
  report_thread :: bool
  tap_user :: bool
  dev_type :: DeviceType
  device_id :: string
  user_id :: string
  game_id :: string
  game_pkg :: string
  game_session :: string
  posted :: "(timer_event \<times> int) list"
  online_set :: "int option"

definition retry_ms :: int where "retry_ms = 5 * 1000"
definition local_heat_beat_interval :: int where "local_heat_beat_interval = 5 * 1000"

text \<open>
  The queue is built with a capacity of \<^verbatim>\<open>UINT32_MAX\<close>; while it has room, \<^verbatim>\<open>Put\<close> does the same with and
  without assertions.
\<close>

definition dur_put :: "DurEvent \<Rightarrow> ('e, 's, 'c) dur \<Rightarrow> ('e, 's, 'c) dur" where
  "dur_put e d = d\<lparr>report_queue := eff_queue (bq_Put True e (report_queue d))\<rparr>"

definition post_event :: "timer_event \<Rightarrow> int \<Rightarrow> ('e, 's, 'c) dur \<Rightarrow> ('e, 's, 'c) dur" where
  "post_event e delay d = d\<lparr>posted := posted d @ [(e, delay)]\<rparr>"

definition update_session :: "('e, 's, 'c) dur_ops \<Rightarrow> ('e, 's, 'c) dur \<Rightarrow> ('e, 's, 'c) dur" where
  "update_session P d =
     (let (session, db) = UpdateSession (gs_ops P) (local_session d) (gs_db d)
      in d\<lparr>local_session := session, gs_db := db\<rparr>)"

definition new_event :: "EventAction \<Rightarrow> u64 \<Rightarrow> u64 \<Rightarrow> ('e, 's, 'c) dur \<Rightarrow> DurEvent" where
  "new_event action now prev d =
     \<lparr>ev_id = 0, ev_action = action, ev_tap_user = tap_user d, ev_user_id = user_id d, ev_game_id = game_id d,
      ev_game_pkg = game_pkg d, ev_device_id = device_id d, ev_session = game_session d, ev_timestamp = now,
      ev_last_timestamp = prev, ev_dev_type = Local, ev_device_info = None, ev_sdk_version = ''''\<rparr>"

text \<open>\<^verbatim>\<open>persistence->AddOrMergeEvent(event); report_queue.Put(event)\<close>.\<close>

definition store_and_put :: "('e, 's, 'c) dur_ops \<Rightarrow> DurEvent \<Rightarrow> ('e, 's, 'c) dur \<Rightarrow> ('e, 's, 'c) dur" where
  "store_and_put P event d =
     (let (event, db) = AddOrMergeEvent (ev_ops P) event (ev_db d)
      in dur_put event (d\<lparr>ev_db := db\<rparr>))"

section \<open>Handlers\<close>

definition Stop_dur :: "('e, 's, 'c) dur \<Rightarrow> ('e, 's, 'c) dur" where
  "Stop_dur d =
     (if running d then d\<lparr>running := False, report_queue := eff_queue (bq_Stop (report_queue d))\<rparr> else d)"

definition EventExpired :: "u64 \<Rightarrow> DurEvent \<Rightarrow> ('e, 's, 'c) dur \<Rightarrow> bool" where
  "EventExpired now event d =
     (let available_start_ts = (if rc_available_start_ts (report_config d) \<noteq> 0
                                then rc_available_start_ts (report_config d)
                                else now - 3 * 24 * 60 * 60)
      in ev_timestamp event < available_start_ts)"

definition InitReportThread :: "('e, 's, 'c) dur \<Rightarrow> ('e, 's, 'c) dur" where
  "InitReportThread d =
     (if running d then d
      else if \<not> rc_enable (report_config d) then d
      else d\<lparr>running := True, report_thread := True\<rparr>)"

definition InitRequest :: "('e, 's, 'c) dur \<Rightarrow> ('e, 's, 'c) dur" where
  "InitRequest d = d\<lparr>running := True\<rparr>"

definition pick_interval :: "('e, 's, 'c) dur \<Rightarrow> int" where
  "pick_interval d = (if tap_user d then online_heat_beat_interval d else online_heat_beat_interval_no_tap d)"

definition RefreshConfig :: "('e, 's, 'c) dur_ops \<Rightarrow> ReportConfig \<Rightarrow> bool \<Rightarrow> ('e, 's, 'c) dur \<Rightarrow> ('e, 's, 'c) dur" where
  "RefreshConfig P config net d =
     (let d = d\<lparr>report_config := config,
                online_heat_beat_interval := uint (rc_tap_frequency config * 1000),
                online_heat_beat_interval_no_tap := uint (rc_no_tap_frequency config * 1000)\<rparr>;
          d = d\<lparr>online_tick_interval := pick_interval d\<rparr>
      in if net then
           let d = d\<lparr>online_set := Some (sint (rc_server_ts config * 1000))\<rparr>;
               d = (if rc_enable config then InitReportThread d else Stop_dur d);
               (cfg, db) = UpdateConfig (rc_ops P) (report_config d) (rc_db d)
           in d\<lparr>report_config := cfg, rc_db := db\<rparr>
         else d)"

text \<open>The callback of \<^verbatim>\<open>InitRequest\<close>: the answer is a configuration, or None for a failure.\<close>

definition request_config_cb :: "('e, 's, 'c) dur_ops \<Rightarrow> ReportConfig option \<Rightarrow> ('e, 's, 'c) dur \<Rightarrow> ('e, 's, 'c) dur" where
  "request_config_cb P answer d =
     (let config_retry_times = (3 :: int)
      in case answer of
           Some config \<Rightarrow> RefreshConfig P config True d
         | None \<Rightarrow> if config_retry_times > 0 then post_event RequestConfig (3 * 1000) d else d)"

definition local_heat_beat_cb :: "('e, 's, 'c) dur_ops \<Rightarrow> u64 \<Rightarrow> ('e, 's, 'c) dur \<Rightarrow> ('e, 's, 'c) dur" where
  "local_heat_beat_cb P now d =
     (let d = (if foreground d \<and> game_id d \<noteq> []
               then update_session P (d\<lparr>local_session := (local_session d)\<lparr>gs_last_beats := now\<rparr>\<rparr>) else d)
      in post_event LocalHeatBeat local_heat_beat_interval d)"

definition online_heat_beat_cb :: "u64 \<Rightarrow> ('e, 's, 'c) dur \<Rightarrow> ('e, 's, 'c) dur" where
  "online_heat_beat_cb now d =
     (let d = (if foreground d \<and> game_id d \<noteq> []
               then dur_put (new_event HEAT_BEAT now (gs_last_timestamp (local_session d)) d) d else d)
      in post_event OnlineHeatBeat (online_tick_interval d) d)"

definition InitHeatBeats :: "('e, 's, 'c) dur \<Rightarrow> ('e, 's, 'c) dur" where
  "InitHeatBeats d =
     post_event OnlineHeatBeat (online_tick_interval d) (post_event LocalHeatBeat local_heat_beat_interval d)"

definition InitHistory :: "('e, 's, 'c) dur_ops \<Rightarrow> u64 \<Rightarrow> ('e, 's, 'c) dur \<Rightarrow> ('e, 's, 'c) dur" where
  "InitHistory P now d =
     (let d = (case GetLatestConfig (rc_ops P) (rc_db d) of
                 Some config \<Rightarrow> RefreshConfig P config False d | None \<Rightarrow> d);
          pending_events = GetEvents (ev_ops P) (ev_db d)
      in if pending_events \<noteq> []
         then d\<lparr>report_queue := eff_queue (bq_PutAll True (filter (\<lambda>e. \<not> EventExpired now e d) pending_events) (report_queue d))\<rparr>
         else d)"

definition NewGameSession :: "('e, 's, 'c) dur_ops \<Rightarrow> string \<Rightarrow> ('e, 's, 'c) dur \<Rightarrow> ('e, 's, 'c) dur" where
  "NewGameSession P uuid d =
     (let d = (case GetLatestSession (gs_ops P) (gs_db d) of
                 None \<Rightarrow> d
               | Some session \<Rightarrow>
                   let event = \<lparr>ev_id = 0, ev_action = GAME_END, ev_tap_user = tap_user d,
                         ev_user_id = gs_user_id session, ev_game_id = gs_game_id session,
                         ev_game_pkg = gs_game_pkg session, ev_device_id = device_id d,
                         ev_session = gs_session session, ev_timestamp = gs_last_beats session,
                         ev_last_timestamp = gs_last_timestamp session, ev_dev_type = Local,
                         ev_device_info = None, ev_sdk_version = ''''\<rparr>;
                       d = d\<lparr>ev_db := snd (AddOrMergeEvent (ev_ops P) event (ev_db d)),
                             user_id := gs_user_id session, tap_user := gs_tap_user session\<rparr>
                   in d\<lparr>online_tick_interval := pick_interval d\<rparr>);
          d = d\<lparr>game_session := uuid, local_session := (local_session d)\<lparr>gs_session := uuid\<rparr>\<rparr>
      in update_session P d)"

definition stamp_session :: "u64 \<Rightarrow> ('e, 's, 'c) dur \<Rightarrow> ('e, 's, 'c) dur" where
  "stamp_session t d = d\<lparr>local_session := (local_session d)\<lparr>gs_last_beats := t, gs_last_timestamp := t\<rparr>\<rparr>"

definition GameStart :: "('e, 's, 'c) dur_ops \<Rightarrow> u64 \<Rightarrow> string \<Rightarrow> string \<Rightarrow> ('e, 's, 'c) dur \<Rightarrow> ('e, 's, 'c) dur" where
  "GameStart P now gid pkg d =
     (let d = d\<lparr>game_id := gid, game_pkg := pkg\<rparr>;
          d = store_and_put P (new_event GAME_START now 0 d) d;
          d = d\<lparr>local_session := (local_session d)\<lparr>gs_game_id := gid, gs_game_pkg := pkg, gs_game_start := now\<rparr>\<rparr>;
          d = update_session P (stamp_session now d)
      in post_event RequestConfig 0 d)"

definition OnBackground :: "('e, 's, 'c) dur_ops \<Rightarrow> u64 \<Rightarrow> ('e, 's, 'c) dur \<Rightarrow> ('e, 's, 'c) dur throws" where
  "OnBackground P now d =
     throws_bind (assert_that (game_id d \<noteq> []) ''Set current game first!'') (\<lambda>_.
       let d = d\<lparr>foreground := False\<rparr>;
           event = new_event GAME_BACKGROUND now (gs_last_timestamp (local_session d)) d
       in Inr (store_and_put P event (update_session P (stamp_session now d))))"

definition OnForeground :: "('e, 's, 'c) dur_ops \<Rightarrow> u64 \<Rightarrow> ('e, 's, 'c) dur \<Rightarrow> ('e, 's, 'c) dur throws" where
  "OnForeground P now d =
     throws_bind (assert_that (game_id d \<noteq> []) ''Set current game first!'') (\<lambda>_.
       let d = d\<lparr>foreground := True\<rparr>;
           event = new_event GAME_FOREGROUND now (gs_last_timestamp (local_session d)) d
       in Inr (store_and_put P event (update_session P (stamp_session now d))))"

definition set_session_user :: "('e, 's, 'c) dur \<Rightarrow> ('e, 's, 'c) dur" where
  "set_session_user d = d\<lparr>local_session := (local_session d)\<lparr>gs_user_id := user_id d, gs_tap_user := tap_user d\<rparr>\<rparr>"

text \<open>A user is its identifier and whether it carries Tap account data; None is the logout.\<close>

definition OnNewUser :: "('e, 's, 'c) dur_ops \<Rightarrow> u64 \<Rightarrow> (string \<times> bool) option \<Rightarrow> ('e, 's, 'c) dur \<Rightarrow> ('e, 's, 'c) dur" where
  "OnNewUser P now user d =
     (case user of
        Some (uid, contain_tap_info) \<Rightarrow>
          let d = (if user_id d \<noteq> uid then
                     let d = d\<lparr>tap_user := contain_tap_info, user_id := uid\<rparr>;
                         event = new_event USER_LOGIN now (gs_last_timestamp (local_session d)) d
                     in store_and_put P event (update_session P (stamp_session now d))
                   else d);
              d = d\<lparr>online_tick_interval := pick_interval d\<rparr>
          in update_session P (set_session_user d)
      | None \<Rightarrow>
          let d = d\<lparr>tap_user := False, user_id := '''', online_tick_interval := online_heat_beat_interval_no_tap d\<rparr>;
              event = new_event USER_LOGOUT now (gs_last_timestamp (local_session d)) d
          in store_and_put P event (update_session P (set_session_user (stamp_session now d))))"

section \<open>The report thread\<close>

definition max_report_events :: nat where "max_report_events = 20"

definition stamp_report :: "('e, 's, 'c) dur \<Rightarrow> DurEvent \<Rightarrow> DurEvent" where
  "stamp_report d e = e\<lparr>ev_dev_type := dev_type d, ev_device_info := device_info d, ev_sdk_version := sdk_version d\<rparr>"

text \<open>
  The loop that fills \<^verbatim>\<open>reports\<close>: it changes the events of the batch in place and picks those to
  send; only the first heartbeat is sent, and none in the background.
\<close>

fun collect_reports :: "u64 \<Rightarrow> ('e, 's, 'c) dur \<Rightarrow> bool \<Rightarrow> DurEvent list \<Rightarrow> DurEvent list \<times> DurEvent list \<times> bool" where
  "collect_reports now d has_heat_beats [] = ([], [], has_heat_beats)"
| "collect_reports now d has_heat_beats (event # events) =
     (if ev_action event \<noteq> HEAT_BEAT then
        let event = stamp_report d event;
            (es, rs, hb) = collect_reports now d has_heat_beats events
        in (event # es, event # rs, hb)
      else if has_heat_beats \<or> \<not> foreground d then
        let (es, rs, hb) = collect_reports now d has_heat_beats events in (event # es, rs, hb)
      else
        let event = stamp_report d (event\<lparr>ev_timestamp := now,
                      ev_last_timestamp := gs_last_timestamp (local_session d)\<rparr>);
            (es, rs, hb) = collect_reports now d True events
        in (event # es, event # rs, hb))"

datatype post_answer = PostOk | PostFailed int

definition drop_status :: "int \<Rightarrow> bool" where
  "drop_status err_code \<longleftrightarrow> err_code \<ge> 400 \<and> err_code < 500 \<and> err_code \<noteq> 404"

definition next_retry :: "nat \<Rightarrow> nat" where
  "next_retry retry_time_ms = min (3 * 60 * 1000) (2 * retry_time_ms)"

definition report_done :: "('e, 's, 'c) dur_ops \<Rightarrow> u64 \<Rightarrow> bool \<Rightarrow> DurEvent list \<Rightarrow> ('e, 's, 'c) dur \<Rightarrow> ('e, 's, 'c) dur" where
  "report_done P now has_heat_beats events d =
     (let d = d\<lparr>ev_db := DeleteEvents (ev_ops P) events (ev_db d)\<rparr>
      in if has_heat_beats \<and> now > gs_last_timestamp (local_session d)
         then update_session P (d\<lparr>local_session := (local_session d)\<lparr>gs_last_timestamp := now\<rparr>\<rparr>) else d)"

record ('e, 's, 'c) report_run =
  rr_dur :: "('e, 's, 'c) dur"
  rr_posts :: "DurEvent list list"
  rr_sleeps :: "nat list"
  rr_finished :: bool

text \<open>
  The do-while loop of the thread for one batch. \<open>success\<close> is \<^verbatim>\<open>report_success\<close>, which the source leaves
  uninitialised; each element of the list is one round: the clock, the server's answer, and whether
  \<^verbatim>\<open>running\<close> is still set at its end. When the list is used up the run is unfinished.
\<close>

fun report_loop ::
    "('e, 's, 'c) dur_ops \<Rightarrow> bool \<Rightarrow> nat \<Rightarrow> DurEvent list \<Rightarrow> (u64 \<times> post_answer \<times> bool) list
     \<Rightarrow> ('e, 's, 'c) dur \<Rightarrow> ('e, 's, 'c) report_run" where
  "report_loop P success retry events [] d =
     \<lparr>rr_dur = d, rr_posts = [], rr_sleeps = [], rr_finished = False\<rparr>"
| "report_loop P success retry events ((now, answer, still_running) # rounds) d =
     (let (events, reports, hb) = collect_reports now d False events
      in if reports = [] then
           (if \<not> success \<and> still_running then report_loop P success retry events rounds d
            else \<lparr>rr_dur = d, rr_posts = [], rr_sleeps = [], rr_finished = True\<rparr>)
         else
           case answer of
             PostOk \<Rightarrow> \<lparr>rr_dur = report_done P now hb events d, rr_posts = [reports], rr_sleeps = [], rr_finished = True\<rparr>
           | PostFailed err_code \<Rightarrow>
               if drop_status err_code
               then \<lparr>rr_dur = d\<lparr>ev_db := DeleteEvents (ev_ops P) events (ev_db d)\<rparr>, rr_posts = [reports],
                     rr_sleeps = [], rr_finished = True\<rparr>
               else if still_running
               then let r = report_loop P False (next_retry retry) events rounds d
                    in r\<lparr>rr_posts := reports # rr_posts r, rr_sleeps := retry # rr_sleeps r\<rparr>
               else \<lparr>rr_dur = d, rr_posts = [reports], rr_sleeps = [retry], rr_finished = True\<rparr>)"

definition report_batch ::
    "('e, 's, 'c) dur_ops \<Rightarrow> bool \<Rightarrow> (u64 \<times> post_answer \<times> bool) list \<Rightarrow> ('e, 's, 'c) dur \<Rightarrow> ('e, 's, 'c) report_run" where
  "report_batch P uninit_success rounds d =
     (let e = bq_TakeUpTo max_report_events (report_queue d)
      in report_loop P uninit_success (10 * 1000) (taken (TakeUpTo max_report_events) (eff_outcome e)) rounds (d\<lparr>report_queue := eff_queue e\<rparr>))"

section \<open>Start and end\<close>

datatype Region = CN | Global | RND

definition collector_url :: "Region \<Rightarrow> string" where
  "collector_url region =
     (case region of Global \<Rightarrow> ''tds-activity-collector.tapapis.com''
      | CN \<Rightarrow> ''tds-activity-collector.tapapis.cn'' | RND \<Rightarrow> ''tds-activity-collector.xdrnd.cn'')"

text \<open>\<open>device\<close> is what the current device answers: its identifier, type and description.\<close>

definition Init_dur ::
    "('e, 's, 'c) dur_ops \<Rightarrow> (string \<times> DeviceType \<times> DeviceInfo option) option \<Rightarrow> string \<Rightarrow> string \<Rightarrow> u64
     \<Rightarrow> ('e, 's, 'c) dur \<Rightarrow> ('e, 's, 'c) dur throws" where
  "Init_dur P device version uuid now d =
     (case device of
        None \<Rightarrow> Inl (LogicError ''Please set current device first!'')
      | Some (did, dtype, info) \<Rightarrow>
          let d = d\<lparr>device_id := did, dev_type := dtype, device_info := info, sdk_version := version\<rparr>;
              d = NewGameSession P uuid d;
              d = InitHeatBeats d;
              d = InitHistory P now d;
              d = InitReportThread d
          in Inr (InitRequest d))"

definition destroy_dur :: "('e, 's, 'c) dur \<Rightarrow> ('e, 's, 'c) dur" where
  "destroy_dur d = (if report_thread d then Stop_dur d else d)"

section \<open>The reported intervals\<close>

datatype dur_call = CallGameStart string string | CallForeground | CallBackground
  | CallUser "(string \<times> bool) option" | CallLocalBeat

fun dur_handle :: "('e, 's, 'c) dur_ops \<Rightarrow> ('e, 's, 'c) dur \<Rightarrow> u64 \<times> dur_call \<Rightarrow> ('e, 's, 'c) dur" where
  "dur_handle P d (now, CallGameStart gid pkg) = GameStart P now gid pkg d"
| "dur_handle P d (now, CallForeground) = (case OnForeground P now d of Inl _ \<Rightarrow> d | Inr d' \<Rightarrow> d')"
| "dur_handle P d (now, CallBackground) = (case OnBackground P now d of Inl _ \<Rightarrow> d | Inr d' \<Rightarrow> d')"
| "dur_handle P d (now, CallUser user) = OnNewUser P now user d"
| "dur_handle P d (now, CallLocalBeat) = local_heat_beat_cb P now d"

text \<open>
  The events of a run tile the time line: each carries as its last timestamp the time of the event
  before it, except that a game start opens a new interval.
\<close>

fun chained :: "u64 \<Rightarrow> DurEvent list \<Rightarrow> bool" where
  "chained prev [] = True"
| "chained prev (e # es) \<longleftrightarrow>
     ev_last_timestamp e = (if ev_action e = GAME_START then 0 else prev) \<and> chained (ev_timestamp e) es"

definition last_stamp :: "u64 \<Rightarrow> DurEvent list \<Rightarrow> u64" where
  "last_stamp prev es = (if es = [] then prev else ev_timestamp (last es))"

definition session_stamp :: "('e, 's, 'c) dur \<Rightarrow> u64" where
  "session_stamp d = gs_last_timestamp (local_session d)"

definition queued :: "('e, 's, 'c) dur \<Rightarrow> DurEvent list" where
  "queued d = bq_queue (report_queue d)"

definition room :: "('e, 's, 'c) dur \<Rightarrow> nat" where
  "room d = bq_capacity (report_queue d) - length (queued d)"

lemma chained_append: "chained prev (es @ fs) \<longleftrightarrow> chained prev es \<and> chained (last_stamp prev es) fs"
  by (induction es arbitrary: prev) (auto simp: last_stamp_def)

lemma AddOrMergeEvent_fields [simp]:
  "ev_timestamp (fst (AddOrMergeEvent T e db)) = ev_timestamp e"
  "ev_last_timestamp (fst (AddOrMergeEvent T e db)) = ev_last_timestamp e"
  "ev_action (fst (AddOrMergeEvent T e db)) = ev_action e"
  by (simp_all add: AddOrMergeEvent_def Let_def split_beta)

lemma update_session_frame [simp]:
  "report_queue (update_session P d) = report_queue d"
  "session_stamp (update_session P d) = session_stamp d"
  "user_id (update_session P d) = user_id d" "tap_user (update_session P d) = tap_user d"
  "online_heat_beat_interval (update_session P d) = online_heat_beat_interval d"
  "online_heat_beat_interval_no_tap (update_session P d) = online_heat_beat_interval_no_tap d"
  by (simp_all add: update_session_def UpdateSession_def session_stamp_def split_beta)

lemma store_and_put_queue:
  assumes "0 < room d"
  shows "\<exists>e. queued (store_and_put P event d) = queued d @ [e] \<and> ev_timestamp e = ev_timestamp event \<and>
      ev_last_timestamp e = ev_last_timestamp event \<and> ev_action e = ev_action event"
    and "session_stamp (store_and_put P event d) = session_stamp d"
    and "room (store_and_put P event d) = room d - 1"
  using assms
  by (auto simp: store_and_put_def dur_put_def queued_def room_def session_stamp_def bq_Put_def
      must_wait_full_def effect_of_def bq_push_def split_beta)

lemma queue_frame [simp]:
  "queued (update_session P d) = queued d" "room (update_session P d) = room d"
  "queued (stamp_session t d) = queued d" "room (stamp_session t d) = room d"
  "queued (set_session_user d) = queued d" "room (set_session_user d) = room d"
  "queued (post_event x i d) = queued d" "room (post_event x i d) = room d"
  "session_stamp (stamp_session t d) = t" "session_stamp (set_session_user d) = session_stamp d"
  "session_stamp (post_event x i d) = session_stamp d"
  by (simp_all add: queued_def room_def session_stamp_def stamp_session_def set_session_user_def post_event_def)

lemma field_frame [simp]:
  "queued (d\<lparr>game_id := gid, game_pkg := pkg\<rparr>) = queued d" "room (d\<lparr>game_id := gid, game_pkg := pkg\<rparr>) = room d"
  "queued (d\<lparr>foreground := fg\<rparr>) = queued d" "room (d\<lparr>foreground := fg\<rparr>) = room d"
  "session_stamp (d\<lparr>foreground := fg\<rparr>) = session_stamp d"
  "queued (d\<lparr>tap_user := b, user_id := u\<rparr>) = queued d" "room (d\<lparr>tap_user := b, user_id := u\<rparr>) = room d"
  "session_stamp (d\<lparr>tap_user := b, user_id := u\<rparr>) = session_stamp d"
  "queued (d\<lparr>online_tick_interval := i\<rparr>) = queued d" "room (d\<lparr>online_tick_interval := i\<rparr>) = room d"
  "session_stamp (d\<lparr>online_tick_interval := i\<rparr>) = session_stamp d"
  "queued (d\<lparr>local_session := s\<rparr>) = queued d" "room (d\<lparr>local_session := s\<rparr>) = room d"
  by (simp_all add: queued_def room_def session_stamp_def)

definition chain_step :: "('e, 's, 'c) dur \<Rightarrow> ('e, 's, 'c) dur \<Rightarrow> bool" where
  "chain_step d d' \<longleftrightarrow>
     (\<exists>es. queued d' = queued d @ es \<and> length es \<le> 1 \<and> chained (session_stamp d) es \<and>
        session_stamp d' = last_stamp (session_stamp d) es \<and> room d' = room d - length es)"

lemma chain_step_refl: "queued d' = queued d \<Longrightarrow> session_stamp d' = session_stamp d \<Longrightarrow> room d' = room d \<Longrightarrow> chain_step d d'"
  unfolding chain_step_def by (rule exI [of _ "[]"]) (simp add: last_stamp_def)

lemma chain_step_event:
  assumes "0 < room d" and "queued d2 = queued d" and "room d2 = room d" and "session_stamp d3 = ev_timestamp event"
    and "queued d3 = queued (store_and_put P event d2)" and "room d3 = room (store_and_put P event d2)"
    and "ev_last_timestamp event = (if ev_action event = GAME_START then 0 else session_stamp d)"
  shows "chain_step d d3"
proof -
  have "0 < room d2" using assms by simp
  from store_and_put_queue [OF this, of P event] obtain e
    where e: "queued (store_and_put P event d2) = queued d2 @ [e]" "ev_timestamp e = ev_timestamp event"
      "ev_last_timestamp e = ev_last_timestamp event" "ev_action e = ev_action event"
      "room (store_and_put P event d2) = room d2 - 1" by blast
  then show ?thesis
    unfolding chain_step_def using assms by (intro exI [of _ "[e]"]) (simp add: last_stamp_def)
qed

lemma new_event_fields [simp]:
  "ev_timestamp (new_event a now prev d) = now" "ev_last_timestamp (new_event a now prev d) = prev"
  "ev_action (new_event a now prev d) = a"
  by (simp_all add: new_event_def)

lemma session_stamp_store [simp]: "session_stamp (store_and_put P e d) = session_stamp d"
  by (simp add: store_and_put_def dur_put_def session_stamp_def split_beta)

lemma store_queue_cong:
  assumes "report_queue d = report_queue d'" and "ev_db d = ev_db d'"
  shows "queued (store_and_put P e d) = queued (store_and_put P e d')"
    and "room (store_and_put P e d) = room (store_and_put P e d')"
  using assms by (simp_all add: store_and_put_def dur_put_def queued_def room_def split_beta)

lemma GameStart_chain: "0 < room d \<Longrightarrow> chain_step d (GameStart P now gid pkg d)"
  by (rule chain_step_event [where ?d2.0 = "d\<lparr>game_id := gid, game_pkg := pkg\<rparr>" and P = P
      and event = "new_event GAME_START now 0 (d\<lparr>game_id := gid, game_pkg := pkg\<rparr>)"])
    (simp_all add: GameStart_def Let_def)

lemma OnBackground_chain: "0 < room d \<Longrightarrow> OnBackground P now d = Inr d' \<Longrightarrow> chain_step d d'"
  by (rule chain_step_event [where ?d2.0 = "update_session P (stamp_session now (d\<lparr>foreground := False\<rparr>))" and P = P
      and event = "new_event GAME_BACKGROUND now (session_stamp d) (d\<lparr>foreground := False\<rparr>)"])
    (auto simp: OnBackground_def Let_def throws_simps session_stamp_def [of d, symmetric])

lemma OnForeground_chain: "0 < room d \<Longrightarrow> OnForeground P now d = Inr d' \<Longrightarrow> chain_step d d'"
  by (rule chain_step_event [where ?d2.0 = "update_session P (stamp_session now (d\<lparr>foreground := True\<rparr>))" and P = P
      and event = "new_event GAME_FOREGROUND now (session_stamp d) (d\<lparr>foreground := True\<rparr>)"])
    (auto simp: OnForeground_def Let_def throws_simps session_stamp_def [of d, symmetric])

lemma OnNewUser_chain: "0 < room d \<Longrightarrow> chain_step d (OnNewUser P now user d)"
proof (cases user)
  case None
  assume r: "0 < room d"
  let ?d1 = "d\<lparr>tap_user := False, user_id := [], online_tick_interval := online_heat_beat_interval_no_tap d\<rparr>"
  have f: "queued ?d1 = queued d" "room ?d1 = room d" "session_stamp ?d1 = session_stamp d"
    by (simp_all add: queued_def room_def session_stamp_def)
  show ?thesis
    by (rule chain_step_event [where ?d2.0 = "update_session P (set_session_user (stamp_session now ?d1))" and P = P
          and event = "new_event USER_LOGOUT now (session_stamp d) ?d1"])
      (simp_all add: r f None OnNewUser_def Let_def session_stamp_def [of d, symmetric])
next
  case (Some u)
  assume r: "0 < room d"
  obtain uid info where u: "u = (uid, info)" by (cases u)
  let ?d1 = "d\<lparr>tap_user := info, user_id := uid\<rparr>"
  show ?thesis
  proof (cases "user_id d = uid")
    case True
    then show ?thesis
      by (intro chain_step_refl) (simp_all add: Some u OnNewUser_def Let_def)
  next
    case False
    show ?thesis
      by (rule chain_step_event [where ?d2.0 = "update_session P (stamp_session now ?d1)" and P = P
            and event = "new_event USER_LOGIN now (session_stamp d) ?d1"])
        (simp_all add: r Some u False OnNewUser_def Let_def session_stamp_def [of d, symmetric])
  qed
qed

lemma local_beat_chain: "chain_step d (local_heat_beat_cb P now d)"
proof -
  have "session_stamp (d\<lparr>local_session := (local_session d)\<lparr>gs_last_beats := now\<rparr>\<rparr>) = session_stamp d"
    by (simp add: session_stamp_def)
  then show ?thesis by (intro chain_step_refl) (simp_all add: local_heat_beat_cb_def Let_def)
qed

lemma dur_handle_chain: "0 < room d \<Longrightarrow> chain_step d (dur_handle P d c)"
proof -
  assume r: "0 < room d"
  obtain now call where c: "c = (now, call)" by (cases c)
  show ?thesis
    using GameStart_chain [OF r] OnForeground_chain [OF r] OnBackground_chain [OF r] OnNewUser_chain [OF r] local_beat_chain
      chain_step_refl [of d d]
    by (cases call) (auto simp: c split: sum.split)
qed

lemma dur_run_chain:
  "length calls \<le> room d \<Longrightarrow>
   \<exists>es. queued (foldl (dur_handle P) d calls) = queued d @ es \<and> length es \<le> length calls \<and>
     chained (session_stamp d) es \<and> session_stamp (foldl (dur_handle P) d calls) = last_stamp (session_stamp d) es"
proof (induction calls arbitrary: d)
  case Nil
  then show ?case by (auto simp: last_stamp_def)
next
  case (Cons c calls)
  let ?d = "dur_handle P d c"
  obtain es where es: "queued ?d = queued d @ es" "length es \<le> 1" "chained (session_stamp d) es"
      "session_stamp ?d = last_stamp (session_stamp d) es" "room ?d = room d - length es"
    using dur_handle_chain [of d P c] Cons.prems by (auto simp: chain_step_def)
  have "length calls \<le> room ?d" using Cons.prems es by simp
  then obtain fs where fs: "queued (foldl (dur_handle P) ?d calls) = queued ?d @ fs" "length fs \<le> length calls"
      "chained (session_stamp ?d) fs"
      "session_stamp (foldl (dur_handle P) ?d calls) = last_stamp (session_stamp ?d) fs"
    using Cons.IH by blast
  show ?case
    using es fs by (intro exI [of _ "es @ fs"]) (auto simp: chained_append last_stamp_def)
qed

section \<open>Sending reports\<close>

lemma collect_reports_spec:
  "collect_reports now d hb events = (es, rs, hb') \<Longrightarrow>
   map ev_id es = map ev_id events \<and>
   filter (\<lambda>e. ev_action e \<noteq> HEAT_BEAT) rs = map (stamp_report d) (filter (\<lambda>e. ev_action e \<noteq> HEAT_BEAT) events) \<and>
   length (filter (\<lambda>e. ev_action e = HEAT_BEAT) rs) = of_bool (\<not> hb \<and> hb') \<and>
   hb' = (hb \<or> foreground d \<and> (\<exists>e \<in> set events. ev_action e = HEAT_BEAT))"
proof (induction events arbitrary: hb es rs hb')
  case Nil
  then show ?case by simp
next
  case (Cons e events)
  obtain es1 rs1 h1 where c1: "collect_reports now d hb events = (es1, rs1, h1)" by (metis prod_cases3)
  obtain es2 rs2 h2 where c2: "collect_reports now d True events = (es2, rs2, h2)" by (metis prod_cases3)
  show ?case
    using Cons.prems Cons.IH [OF c1] Cons.IH [OF c2]
    by (auto simp: c1 c2 stamp_report_def Let_def split: if_splits)
qed

lemma report_loop_sleeps:
  "rr_sleeps (report_loop P success (min 180000 (k * 2 ^ i)) events rounds d) =
     map (\<lambda>j. min 180000 (k * 2 ^ (i + j)))
       [0..<length (rr_sleeps (report_loop P success (min 180000 (k * 2 ^ i)) events rounds d))]"
proof (induction rounds arbitrary: i events success d)
  case Nil
  then show ?case by simp
next
  case (Cons r rounds)
  obtain now answer go where r: "r = (now, answer, go)" by (cases r)
  have nr: "next_retry (min 180000 (k * 2 ^ i)) = min 180000 (k * 2 ^ Suc i)"
    by (auto simp: next_retry_def min_def)
  obtain es rs hb where cr: "collect_reports now d False events = (es, rs, hb)"
    by (cases "collect_reports now d False events")
  note IH = Cons.IH [where i = "Suc i" and success = False and events = es and d = d]
  show ?case
  proof (cases "rs = []")
    case True
    then show ?thesis using Cons.IH [where i = i and success = False and events = es and d = d] by (simp add: r cr)
  next
    case False
    then show ?thesis
      using IH by (cases answer) (auto simp: r cr nr Let_def map_upt_Suc simp del: power_Suc upt_Suc)
  qed
qed

context sql_table
begin

lemma remove_all:
  "ok db \<Longrightarrow> ok (foldl (\<lambda>db i. if i \<noteq> 0 then tb_remove T db i else db) db is) \<and>
   tb_rows T (foldl (\<lambda>db i. if i \<noteq> 0 then tb_remove T db i else db) db is)
     = filter (\<lambda>(k, x). k \<notin> set is) (tb_rows T db)"
proof (induction "is" arbitrary: db)
  case Nil
  then show ?case by (simp add: filter_True split_beta)
next
  case (Cons i "is")
  show ?case
  proof (cases "i = 0")
    case True
    have "filter (\<lambda>(k, x). k \<notin> set (i # is)) (tb_rows T db) = filter (\<lambda>(k, x). k \<notin> set is) (tb_rows T db)"
      using rows_ok [OF Cons.prems] True by (intro filter_cong) (auto simp: image_iff)
    then show ?thesis using Cons True by simp
  next
    case False
    have "filter (\<lambda>(k, x). k \<notin> set is) (filter (\<lambda>(k, x). k \<noteq> i) (tb_rows T db))
        = filter (\<lambda>(k, x). k \<notin> set (i # is)) (tb_rows T db)"
      by (auto intro!: filter_cong)
    then show ?thesis using Cons.IH [OF remove_ok [OF Cons.prems, of i]] False
      by (simp add: rows_remove [OF Cons.prems])
  qed
qed

end

lemma DeleteEvents_rows:
  assumes "sql_table T ok" and "ok db"
  shows "GetEvents T (DeleteEvents T events db) = filter (\<lambda>e. ev_id e \<notin> ev_id ` set events) (GetEvents T db)"
    and "ok (DeleteEvents T events db)"
proof -
  have "DeleteEvents T events db = foldl (\<lambda>db i. if i \<noteq> 0 then tb_remove T db i else db) db (map ev_id events)"
    by (simp add: DeleteEvents_def foldl_map)
  with sql_table.remove_all [OF assms, of "map ev_id events"]
  show "GetEvents T (DeleteEvents T events db) = filter (\<lambda>e. ev_id e \<notin> ev_id ` set events) (GetEvents T db)"
    and "ok (DeleteEvents T events db)"
    by (auto simp: GetEvents_def filter_map comp_def case_prod_unfold event_of_row_def event_columns_def)
qed

lemma heartbeat_only:
  assumes "\<forall>e \<in> set events. ev_action e = HEAT_BEAT" and "\<not> foreground d"
  shows "collect_reports now d hb events = (events, [], hb)"
  using assms(1) assms(2) by (induction events) simp_all

section \<open>Properties\<close>

text \<open>
  C7: the reported intervals tile the playing time. Whatever sequence of game starts, switches to
  foreground and background, logins, logouts and local heartbeats the SDK handles, each event it
  queues carries as its last timestamp the time of the event queued before it (the session's last
  timestamp for the first one), a game start carries none, and the session ends up with the time of
  the last event.
\<close>

theorem dur_events_chained:
  assumes "length calls \<le> room d"
  shows "\<exists>es. queued (foldl (dur_handle P) d calls) = queued d @ es \<and> length es \<le> length calls \<and>
     chained (session_stamp d) es \<and> session_stamp (foldl (dur_handle P) d calls) = last_stamp (session_stamp d) es"
  using assms by (rule dur_run_chain)

definition example_ops :: "(nat \<times> (nat \<times> DurEvent) list, nat \<times> (nat \<times> GameSession) list, nat \<times> (nat \<times> ReportConfig) list) dur_ops" where
  "example_ops = \<lparr>ev_ops = mem_table, gs_ops = mem_table, rc_ops = mem_table\<rparr>"

definition example_dur :: "(nat \<times> (nat \<times> DurEvent) list, nat \<times> (nat \<times> GameSession) list, nat \<times> (nat \<times> ReportConfig) list) dur" where
  "example_dur = \<lparr>running = True, foreground = True,
     local_session = \<lparr>gs_id = 0, gs_tap_user = False, gs_session = ''s'', gs_user_id = [], gs_game_id = [],
       gs_game_pkg = [], gs_game_start = 0, gs_last_beats = 0, gs_last_timestamp = 0\<rparr>,
     device_info = None, sdk_version = ''1'', report_config = ReportConfig_default,
     online_heat_beat_interval = 150000, online_heat_beat_interval_no_tap = 300000, online_tick_interval = 300000,
     ev_db = (1, []), gs_db = (1, []), rc_db = (1, []), report_queue = bq_new 4294967295, report_thread = True,
     tap_user = False, dev_type = Local, device_id = ''d'', user_id = [], game_id = ''g'', game_pkg = ''p'',
     game_session = ''s'', posted = [], online_set = None\<rparr>"

lemma example_room: "length [(7 :: u64, CallBackground)] \<le> room example_dur"
  by (simp add: room_def queued_def example_dur_def bq_new_def)

theorem dur_events_chained_witness:
  "\<exists>es. queued (foldl (dur_handle example_ops) example_dur [(7, CallBackground)]) = queued example_dur @ es \<and>
     chained 0 es \<and> length es \<le> 1"
  using dur_events_chained [OF example_room, of example_ops]
  by (auto simp: session_stamp_def example_dur_def)

text \<open>
  What one round of the report thread sends. Every event of the batch other than a heartbeat is
  sent, in order, with the device's data filled in; at most one heartbeat is sent, and none while
  the game is in the background; the batch keeps its database keys.
\<close>

theorem collect_reports_sends:
  assumes "collect_reports now d False events = (es, rs, hb)"
  shows "filter (\<lambda>e. ev_action e \<noteq> HEAT_BEAT) rs = map (stamp_report d) (filter (\<lambda>e. ev_action e \<noteq> HEAT_BEAT) events)
     \<and> length (filter (\<lambda>e. ev_action e = HEAT_BEAT) rs)
        = of_bool (foreground d \<and> (\<exists>e \<in> set events. ev_action e = HEAT_BEAT))
     \<and> map ev_id es = map ev_id events"
  using collect_reports_spec [OF assms] by simp

theorem collect_reports_sends_witness:
  "filter (\<lambda>e. ev_action e \<noteq> HEAT_BEAT) (fst (snd (collect_reports 9 example_dur False [example_event])))
   = [stamp_report example_dur example_event]"
proof -
  obtain es rs hb where "collect_reports 9 example_dur False [example_event] = (es, rs, hb)"
    by (metis prod_cases3)
  from collect_reports_sends [OF this] this show ?thesis by (simp add: example_event_def)
qed

text \<open>
  C16: one answer settles a batch. If the server accepts the report, or rejects it with a 4xx status
  other than 404, the round ends, the report was posted once, and the event log loses exactly the
  events of the batch; any other failure posts again after a pause and touches nothing.
\<close>

theorem report_round_outcome:
  assumes "sql_table (ev_ops P) ok" and "ok (ev_db d)"
    and "collect_reports now d False events = (es, rs, hb)" and "rs \<noteq> []"
  shows "(answer = PostOk \<or> (\<exists>c. answer = PostFailed c \<and> drop_status c) \<longrightarrow>
       rr_finished (report_loop P success retry events ((now, answer, go) # rounds) d) \<and>
       rr_posts (report_loop P success retry events ((now, answer, go) # rounds) d) = [rs] \<and>
       GetEvents (ev_ops P) (ev_db (rr_dur (report_loop P success retry events ((now, answer, go) # rounds) d)))
         = filter (\<lambda>e. ev_id e \<notin> ev_id ` set events) (GetEvents (ev_ops P) (ev_db d)))
   \<and> (answer = PostFailed c \<longrightarrow> \<not> drop_status c \<longrightarrow> go \<longrightarrow>
       rr_sleeps (report_loop P success retry events ((now, answer, go) # rounds) d)
         = retry # rr_sleeps (report_loop P False (next_retry retry) es rounds d) \<and>
       rr_dur (report_loop P success retry events ((now, answer, go) # rounds) d)
         = rr_dur (report_loop P False (next_retry retry) es rounds d))"
proof -
  have "ev_id ` set es = ev_id ` set events"
    using collect_reports_spec [OF assms(3)] by (metis image_set)
  moreover have "ev_db (update_session P x) = ev_db x" for x :: "('a, 'b, 'c) dur"
    by (simp add: update_session_def split_beta)
  ultimately show ?thesis
    using assms(3,4) DeleteEvents_rows [OF assms(1,2), of es]
    by (auto simp: report_done_def Let_def)
qed

lemma example_collect: "collect_reports 9 example_dur False [example_event]
    = ([stamp_report example_dur example_event], [stamp_report example_dur example_event], False)"
  by (simp add: example_event_def Let_def)

theorem report_round_outcome_witness:
  "rr_posts (report_loop example_ops False 10000 [example_event] [(9, PostFailed 400, True)] example_dur)
     = [[stamp_report example_dur example_event]] \<and>
   rr_finished (report_loop example_ops False 10000 [example_event] [(9, PostFailed 400, True)] example_dur)"
proof -
  have "sql_table (ev_ops example_ops) mem_ok" "mem_ok (ev_db example_dur)"
    using mem.sql_table_axioms by (simp_all add: example_ops_def example_dur_def mem_ok_def)
  from report_round_outcome [OF this example_collect, of "PostFailed 400" False 10000 True "[]" 400]
  show ?thesis by (simp add: drop_status_def)
qed

text \<open>
  C37: the pauses between the attempts of one batch double from ten seconds and never exceed three
  minutes, however often the server fails.
\<close>

theorem report_backoff:
  "rr_sleeps (report_loop P success (10 * 1000) events rounds d) =
     map (\<lambda>j. min (3 * 60 * 1000) (10 * 1000 * 2 ^ j))
       [0..<length (rr_sleeps (report_loop P success (10 * 1000) events rounds d))]"
  using report_loop_sleeps [of P success 10000 0 events rounds d] by simp

text \<open>
  Events expire after four minutes, not three days. Without a start time from the server,
  \<^verbatim>\<open>EventExpired\<close> subtracts three days in seconds from a clock in milliseconds, so an event left
  over from an earlier run is dropped as soon as it is more than 259.2 seconds old.
\<close>

theorem EventExpired_after_minutes:
  assumes "rc_available_start_ts (report_config d) = 0" and "259200 \<le> unat now"
  shows "EventExpired now event d \<longleftrightarrow> unat (ev_timestamp event) + 259200 < unat now"
proof -
  have "(259200 :: u64) \<le> now" using assms(2) by (simp add: word_le_nat_alt)
  then have "unat (now - 259200) = unat now - 259200" by (simp add: unat_sub)
  then show ?thesis using assms by (auto simp: EventExpired_def word_less_nat_alt)
qed

theorem EventExpired_after_minutes_witness:
  "EventExpired 1000000 (example_event\<lparr>ev_timestamp := 700000\<rparr>) example_dur"
  using EventExpired_after_minutes [of example_dur 1000000 "example_event\<lparr>ev_timestamp := 700000\<rparr>"]
  by (simp add: example_dur_def ReportConfig_default_def)

text \<open>
  A batch of heartbeats taken in the background. Nothing is posted, and the \<^verbatim>\<open>continue\<close> of the
  source goes to a test of \<^verbatim>\<open>report_success\<close>, which was never assigned: if it happens to be false the
  thread spins without sleeping for as long as it runs; if true, it leaves the batch at once.
\<close>

theorem report_background_spin:
  assumes "\<forall>e \<in> set events. ev_action e = HEAT_BEAT" and "\<not> foreground d" and "\<forall>(now, answer, go) \<in> set rounds. go"
  shows "rr_posts (report_loop P success retry events rounds d) = [] \<and>
     rr_sleeps (report_loop P success retry events rounds d) = [] \<and>
     rr_finished (report_loop P success retry events rounds d) = (success \<and> rounds \<noteq> [])"
  using assms(3)
  by (induction rounds) (auto simp: heartbeat_only [OF assms(1,2)] split: if_splits)

theorem report_background_spin_witness:
  "\<not> rr_finished (report_loop example_ops False 10000 [example_event\<lparr>ev_action := HEAT_BEAT\<rparr>]
      [(1, PostOk, True), (2, PostOk, True)] (example_dur\<lparr>foreground := False\<rparr>))"
  using report_background_spin [of "[example_event\<lparr>ev_action := HEAT_BEAT\<rparr>]" "example_dur\<lparr>foreground := False\<rparr>"
      "[(1, PostOk, True), (2, PostOk, True)]" example_ops False 10000]
  by simp

text \<open>
  A configuration that enables reporting does not start the report thread. \<^verbatim>\<open>InitRequest\<close> sets
  \<^verbatim>\<open>running\<close> although no thread runs, and \<^verbatim>\<open>InitReportThread\<close> gives up when \<^verbatim>\<open>running\<close> is set; so after a start
  with reporting disabled in the stored configuration, the server's answer cannot enable it.
\<close>

theorem InitRequest_blocks_thread:
  "report_thread (RefreshConfig P config True (InitRequest d)) = report_thread d"
  by (simp add: RefreshConfig_def InitRequest_def InitReportThread_def Stop_dur_def Let_def split_beta)

end
