(* ===== verification/Play_Time.thy ===== *)
theory Play_Time
  imports Duration
begin

text \<open>
  The playing time that reaches the server. Handlers, online heart beats and rounds of the report thread
  run in any order, one at a time; every event a handler queues and every heart beat the server accepts stands for an
  interval of playing time.
\<close>

datatype play_step = Handle u64 dur_call | Online u64 | Take | Round u64 "DurEvent list" post_answer

fun play_dur :: "('e, 's, 'c) dur_ops \<Rightarrow> ('e, 's, 'c) dur \<Rightarrow> play_step \<Rightarrow> ('e, 's, 'c) dur" where
  "play_dur P d (Handle now c) = dur_handle P d (now, c)"
| "play_dur P d (Online now) = online_heat_beat_cb now d"
| "play_dur P d Take = d\<lparr>report_queue := eff_queue (bq_TakeUpTo max_report_events (report_queue d))\<rparr>"
| "play_dur P d (Round now events answer) = rr_dur (report_loop P True 10000 events [(now, answer, True)] d)"

text \<open>The intervals a step accounts for: what a handler queued, the heart beat of a report the server accepted.\<close>

fun play_events :: "('e, 's, 'c) dur_ops \<Rightarrow> ('e, 's, 'c) dur \<Rightarrow> play_step \<Rightarrow> DurEvent list" where
  "play_events P d (Handle now c) = drop (length (queued d)) (queued (dur_handle P d (now, c)))"
| "play_events P d (Online now) = []"
| "play_events P d Take = []"
| "play_events P d (Round now events answer) =
     (if answer = PostOk then filter (\<lambda>e. ev_action e = HEAT_BEAT) (concat (rr_posts (report_loop P True 10000 events [(now, answer, True)] d)))
      else [])"

fun play_run :: "('e, 's, 'c) dur_ops \<Rightarrow> ('e, 's, 'c) dur \<Rightarrow> play_step list \<Rightarrow> ('e, 's, 'c) dur \<times> DurEvent list" where
  "play_run P d [] = (d, [])"
| "play_run P d (s # steps) = (let (d', es) = play_run P (play_dur P d s) steps in (d', play_events P d s @ es))"

fun step_times :: "play_step \<Rightarrow> u64 list" where
  "step_times (Handle now c) = [now]"
| "step_times (Online now) = []"
| "step_times Take = []"
| "step_times (Round now events answer) = [now]"

definition played :: "DurEvent list \<Rightarrow> u64" where
  "played es = sum_list (map (\<lambda>e. ev_timestamp e - ev_last_timestamp e) es)"

section \<open>One step\<close>

lemma collect_beat:
  "collect_reports now d hb events = (es, rs, hb') \<Longrightarrow>
   (\<forall>e \<in> set (filter (\<lambda>e. ev_action e = HEAT_BEAT) rs). ev_timestamp e = now \<and> ev_last_timestamp e = session_stamp d)"
proof (induction events arbitrary: hb es rs hb')
  case (Cons e events)
  obtain es1 rs1 h1 where c1: "collect_reports now d hb events = (es1, rs1, h1)" by (metis prod_cases3)
  obtain es2 rs2 h2 where c2: "collect_reports now d True events = (es2, rs2, h2)" by (metis prod_cases3)
  show ?case
    using Cons.prems Cons.IH [OF c1] Cons.IH [OF c2]
    by (auto simp: c1 c2 stamp_report_def session_stamp_def Let_def split: if_splits)
qed simp

lemma done_stamp:
  "session_stamp (report_done P now hb es d) = (if hb \<and> session_stamp d < now then now else session_stamp d)"
proof -
  have "session_stamp (d\<lparr>ev_db := x\<rparr>) = session_stamp d"
    "session_stamp (d\<lparr>ev_db := x, local_session := (local_session d)\<lparr>gs_last_timestamp := now\<rparr>\<rparr>) = now" for x
    by (simp_all add: session_stamp_def)
  then show ?thesis by (simp add: report_done_def Let_def session_stamp_def [of d])
qed

definition tiles :: "('e, 's, 'c) dur \<Rightarrow> DurEvent list \<Rightarrow> ('e, 's, 'c) dur \<Rightarrow> bool" where
  "tiles d es d' \<longleftrightarrow> chained (session_stamp d) es \<and> session_stamp d' = last_stamp (session_stamp d) es"

lemma round_tiles:
  assumes "session_stamp d \<le> now"
  shows "tiles d (play_events P d (Round now events answer)) (play_dur P d (Round now events answer))"
proof -
  obtain es rs hb where c: "collect_reports now d False events = (es, rs, hb)" by (metis prod_cases3)
  note spec = collect_reports_spec [OF c] collect_beat [OF c]
  have frame: "session_stamp (d\<lparr>ev_db := x\<rparr>) = session_stamp d" for x by (simp add: session_stamp_def)
  show ?thesis
  proof (cases "answer = PostOk \<and> rs \<noteq> []")
    case False
    then show ?thesis by (cases answer) (auto simp: c tiles_def last_stamp_def frame Let_def split: if_splits)
  next
    case True
    let ?h = "filter (\<lambda>e. ev_action e = HEAT_BEAT) rs"
    have r: "play_dur P d (Round now events answer) = report_done P now hb es d" "play_events P d (Round now events answer) = ?h"
      using True by (simp_all add: c)
    show ?thesis
    proof (cases hb)
      case False
      then have "?h = []" using spec(1) by auto
      then show ?thesis unfolding r using False by (simp add: tiles_def last_stamp_def done_stamp)
    next
      case hb: True
      then obtain h where h: "?h = [h]" using spec(1) by (auto simp: length_Suc_conv)
      then have "ev_timestamp h = now" "ev_last_timestamp h = session_stamp d" "ev_action h = HEAT_BEAT" using spec(2) by (auto dest: filter_eq_ConsD)
      moreover have "session_stamp (report_done P now hb es d) = now"
        using hb assms by (auto simp: done_stamp)
      ultimately show ?thesis unfolding r h by (simp add: tiles_def last_stamp_def)
    qed
  qed
qed

lemma handle_tiles:
  assumes "0 < room d"
  shows "tiles d (play_events P d (Handle now c)) (play_dur P d (Handle now c))"
    "room d - 1 \<le> room (play_dur P d (Handle now c))" "session_stamp (play_dur P d (Handle now c)) \<in> {session_stamp d, now}"
proof -
  obtain es where "queued (dur_handle P d (now, c)) = queued d @ es" "length es \<le> 1" "chained (session_stamp d) es"
      "session_stamp (dur_handle P d (now, c)) = last_stamp (session_stamp d) es" "room (dur_handle P d (now, c)) = room d - length es"
    using dur_handle_chain [OF assms, of P "(now, c)"] by (auto simp: chain_step_def)
  then show "tiles d (play_events P d (Handle now c)) (play_dur P d (Handle now c))"
    "room d - 1 \<le> room (play_dur P d (Handle now c))" by (auto simp: tiles_def)
  have beats: "session_stamp (d\<lparr>local_session := (local_session d)\<lparr>gs_last_beats := t\<rparr>\<rparr>) = session_stamp d" for t
    by (simp add: session_stamp_def)
  show "session_stamp (play_dur P d (Handle now c)) \<in> {session_stamp d, now}"
    by (cases c) (auto simp: GameStart_def OnForeground_def OnBackground_def OnNewUser_def local_heat_beat_cb_def assert_that_def throws_bind_def
        beats Let_def split: option.split)
qed

lemma queue_steps:
  "tiles d (play_events P d (Online now)) (play_dur P d (Online now))" "room d - 1 \<le> room (play_dur P d (Online now))"
  "tiles d (play_events P d Take) (play_dur P d Take)" "room d \<le> room (play_dur P d Take)"
  "session_stamp (play_dur P d (Online now)) = session_stamp d" "session_stamp (play_dur P d Take) = session_stamp d"
  by (auto simp: tiles_def last_stamp_def online_heat_beat_cb_def dur_put_def post_event_def session_stamp_def room_def queued_def
      bq_Put_def bq_TakeUpTo_def effect_of_def bq_push_def Let_def)

lemma round_room: "room (play_dur P d (Round now events answer)) = room d"
proof -
  obtain es rs hb where c: "collect_reports now d False events = (es, rs, hb)" by (metis prod_cases3)
  have f: "room (d\<lparr>ev_db := x\<rparr>) = room d" for x by (simp add: room_def queued_def)
  show ?thesis by (cases answer) (simp_all add: c f report_done_def Let_def)
qed

lemma round_stamp:
  assumes "session_stamp d \<le> now"
  shows "session_stamp (play_dur P d (Round now events answer)) \<in> {session_stamp d, now}"
proof -
  obtain es rs hb where c: "collect_reports now d False events = (es, rs, hb)" by (metis prod_cases3)
  have f: "session_stamp (d\<lparr>ev_db := x\<rparr>) = session_stamp d" for x by (simp add: session_stamp_def)
  show ?thesis by (cases answer) (simp_all add: c f done_stamp Let_def)
qed

section \<open>Runs\<close>

lemma tiles_append: "tiles d es d' \<Longrightarrow> tiles d' fs d'' \<Longrightarrow> tiles d (es @ fs) d''"
  by (auto simp: tiles_def chained_append last_stamp_def)

lemma step_tiles:
  assumes "sorted (session_stamp d # step_times s @ ts)" and "0 < room d"
  shows "tiles d (play_events P d s) (play_dur P d s)" "room d - 1 \<le> room (play_dur P d s)"
    "sorted (session_stamp (play_dur P d s) # ts)"
proof -
  note [simp del] = play_dur.simps play_events.simps
  have next_ok: "sorted (x # ts)" if "x \<in> set (session_stamp d # step_times s)" for x
    using assms(1) that by (auto simp: sorted_append)
  show "tiles d (play_events P d s) (play_dur P d s)"
    using assms handle_tiles(1) queue_steps(1,3) round_tiles by (cases s) auto
  show "room d - 1 \<le> room (play_dur P d s)"
    using handle_tiles(2) [OF assms(2)] queue_steps(2,4) [of d P] round_room [of P d] by (cases s) (auto intro: order_trans)
  have "session_stamp (play_dur P d s) \<in> set (session_stamp d # step_times s)"
    using assms(1) handle_tiles(3) [OF assms(2)] queue_steps(5,6) [of P d] round_stamp [of d _ P] by (cases s) fastforce+
  then show "sorted (session_stamp (play_dur P d s) # ts)" by (rule next_ok)
qed

lemma play_run_tiles:
  assumes "play_run P d steps = (d', es)" and "sorted (session_stamp d # concat (map step_times steps))" and "length steps \<le> room d"
  shows "tiles d es d'"
  using assms
proof (induction steps arbitrary: d es)
  case Nil
  then show ?case by (simp add: tiles_def last_stamp_def)
next
  case (Cons s steps)
  obtain fs where fs: "play_run P (play_dur P d s) steps = (d', fs)" "es = play_events P d s @ fs"
    using Cons.prems(1) by (auto simp: Let_def split: prod.splits)
  have s: "sorted (session_stamp d # step_times s @ concat (map step_times steps))" "0 < room d" using Cons.prems by auto
  note st = step_tiles [OF s, of P]
  have "tiles (play_dur P d s) fs d'" using Cons.IH [OF fs(1)] st(2,3) Cons.prems(3) by simp
  with st(1) show ?case unfolding fs(2) by (rule tiles_append)
qed

lemma chained_played:
  "chained prev es \<Longrightarrow> \<forall>e \<in> set es. ev_action e \<noteq> GAME_START \<Longrightarrow> played es = last_stamp prev es - prev"
proof (induction es arbitrary: prev)
  case (Cons e es)
  then have "played es = last_stamp (ev_timestamp e) es - ev_timestamp e" by simp
  with Cons.prems show ?case by (auto simp: played_def last_stamp_def)
qed (simp add: played_def last_stamp_def)

text \<open>The stamped heart beat of a batch, and the event of going to the background.\<close>

definition beat_of :: "u64 \<Rightarrow> ('e, 's, 'c) dur \<Rightarrow> DurEvent \<Rightarrow> DurEvent" where
  "beat_of now d b = stamp_report d (b\<lparr>ev_timestamp := now, ev_last_timestamp := session_stamp d\<rparr>)"

lemma collect_one:
  "ev_action b = HEAT_BEAT \<Longrightarrow> foreground d \<Longrightarrow> collect_reports now d False [b] = ([beat_of now d b], [beat_of now d b], True)"
  by (simp add: beat_of_def session_stamp_def Let_def)

lemma background_event:
  assumes "game_id d \<noteq> []" and "0 < room d"
  shows "\<exists>d' e. OnBackground P t d = Inr d' \<and> queued d' = queued d @ [e] \<and> ev_timestamp e = t \<and> ev_last_timestamp e = session_stamp d
     \<and> ev_action e = GAME_BACKGROUND \<and> session_stamp d' = t"
proof -
  let ?d1 = "update_session P (stamp_session t (d\<lparr>foreground := False\<rparr>))"
  let ?e = "new_event GAME_BACKGROUND t (session_stamp d) (d\<lparr>foreground := False\<rparr>)"
  have bg: "OnBackground P t d = Inr (store_and_put P ?e ?d1)"
    using assms(1) by (simp add: OnBackground_def assert_that_def throws_bind_def Let_def session_stamp_def)
  have "0 < room ?d1" using assms(2) by simp
  from store_and_put_queue(1) [OF this, of P ?e] bg show ?thesis by fastforce
qed

text \<open>
  C8: the reported playing time is right. Let handlers, online heart beats and rounds of the report thread follow each
  other in any order, with a clock that does not run backwards. Then the intervals of the queued events and of the
  heart beats the server accepted tile the time line, each beginning where the one before it ended; unless a game
  was started in between, their lengths add up to the time that has passed between the first and the last.
\<close>

theorem play_time_adds_up:
  assumes "play_run P d steps = (d', es)" and "sorted (session_stamp d # concat (map step_times steps))" and "length steps \<le> room d"
  shows "chained (session_stamp d) es \<and> session_stamp d' = last_stamp (session_stamp d) es
     \<and> ((\<forall>e \<in> set es. ev_action e \<noteq> GAME_START) \<longrightarrow> played es = session_stamp d' - session_stamp d)"
  using play_run_tiles [OF assms] chained_played [of "session_stamp d" es] by (auto simp: tiles_def)

definition demo_beat :: DurEvent where
  "demo_beat = example_event\<lparr>ev_action := HEAT_BEAT\<rparr>"

theorem play_time_adds_up_witness:
  "\<exists>d' es. play_run example_ops example_dur [Round 5 [demo_beat] PostOk, Handle 7 CallBackground] = (d', es)
     \<and> length es = 2 \<and> played es = 7"
proof -
  let ?h = "beat_of 5 example_dur demo_beat" and ?d = "report_done example_ops 5 True [beat_of 5 example_dur demo_beat] example_dur"
  have c: "collect_reports 5 example_dur False [demo_beat] = ([?h], [?h], True)"
    by (rule collect_one) (simp_all add: demo_beat_def example_dur_def)
  have st: "session_stamp example_dur = 0" "room example_dur = 4294967295"
    by (simp_all add: session_stamp_def example_dur_def room_def queued_def bq_new_def)
  have 1: "play_dur example_ops example_dur (Round 5 [demo_beat] PostOk) = ?d" "play_events example_ops example_dur (Round 5 [demo_beat] PostOk) = [?h]"
    using c by (simp_all add: beat_of_def stamp_report_def demo_beat_def del: collect_reports.simps)
  have "game_id ?d \<noteq> []" by (simp add: report_done_def Let_def example_dur_def update_session_def UpdateSession_def split_beta)
  moreover have "0 < room ?d" using round_room [of example_ops example_dur 5 "[demo_beat]" PostOk] unfolding 1(1) st(2) by simp
  ultimately obtain d' e where 2: "OnBackground example_ops 7 ?d = Inr d'" "queued d' = queued ?d @ [e]" "ev_action e = GAME_BACKGROUND"
    "session_stamp d' = 7" using background_event by blast
  have h2: "play_dur example_ops ?d (Handle 7 CallBackground) = d'" "play_events example_ops ?d (Handle 7 CallBackground) = [e]"
    using 2 by simp_all
  have r: "play_run example_ops example_dur [Round 5 [demo_beat] PostOk, Handle 7 CallBackground] = (d', [?h, e])"
    by (simp only: play_run.simps 1 h2 Let_def prod.case append_Nil append_Cons)
  have "ev_action ?h = HEAT_BEAT" by (simp add: beat_of_def stamp_report_def demo_beat_def)
  then have "played [?h, e] = session_stamp d' - session_stamp example_dur"
    using play_time_adds_up [OF r] 2(3) st by simp
  then have "length [?h, e] = 2 \<and> played [?h, e] = 7" using 2(4) st by simp
  with r show ?thesis by blast
qed

text \<open>
  A report under way while a handler runs. The thread holds no lock between stamping a heart beat and the server's answer. When
  the game goes to the background in between, its event starts where the heart beat started: the time up to the heart
  beat is reported twice.
\<close>

theorem heart_beat_overlap:
  assumes "ev_action b = HEAT_BEAT" and "foreground d" and "game_id d \<noteq> []" and "0 < room d" and "session_stamp d < now" and "now < t"
  shows "\<exists>h e d'. collect_reports now d False [b] = ([h], [h], True) \<and> OnBackground P t d = Inr d' \<and> queued d' = queued d @ [e]
     \<and> ev_last_timestamp h = session_stamp d \<and> ev_timestamp h = now \<and> ev_last_timestamp e = session_stamp d \<and> ev_timestamp e = t
     \<and> session_stamp (report_done P now True [h] d') = t
     \<and> played [h, e] = (t - session_stamp d) + (now - session_stamp d)"
proof -
  obtain d' e where e: "OnBackground P t d = Inr d'" "queued d' = queued d @ [e]" "ev_timestamp e = t" "ev_last_timestamp e = session_stamp d"
    "session_stamp d' = t" using background_event [OF assms(3,4)] by blast
  let ?h = "beat_of now d b"
  have "session_stamp (report_done P now True [?h] d') = t"
    using assms(6) e(5) by (auto simp: done_stamp dest: less_asym)
  moreover have "ev_timestamp ?h = now" "ev_last_timestamp ?h = session_stamp d" by (simp_all add: beat_of_def stamp_report_def)
  ultimately show ?thesis using collect_one [OF assms(1,2)] e by (intro exI [of _ ?h] exI [of _ e] exI [of _ d']) (simp add: played_def)
qed

end
