(* ===== verification/Std_Heap.thy ===== *)
theory Std_Heap
  imports Tap_Prelude "HOL-Library.Product_Lexorder"
begin

text \<open>
  The heap algorithms of the C++ standard library that \<^verbatim>\<open>CoreTimer\<close> keeps its messages with:
  \<^verbatim>\<open>std::push_heap\<close>, \<^verbatim>\<open>std::pop_heap\<close> and \<^verbatim>\<open>std::make_heap\<close> with \<^verbatim>\<open>std::greater\<close>, on a vector in
  which the children of position \<open>i\<close> are \<open>2i + 1\<close> and \<open>2i + 2\<close>. The order is given by a key. The
  locale \<open>heap_queue\<close> is what a user of the three algorithms may rely on.
\<close>

section \<open>The algorithms\<close>

definition parent :: "nat \<Rightarrow> nat" where
  "parent i = (i - 1) div 2"

definition swap_at :: "nat \<Rightarrow> nat \<Rightarrow> 'a list \<Rightarrow> 'a list" where
  "swap_at i j xs = xs[i := xs ! j, j := xs ! i]"

function sift_up :: "('a \<Rightarrow> 'k::linorder) \<Rightarrow> 'a list \<Rightarrow> nat \<Rightarrow> 'a list" where
  "sift_up key xs i =
     (if i = 0 then xs
      else if key (xs ! i) < key (xs ! parent i)
      then sift_up key (swap_at i (parent i) xs) (parent i) else xs)"
  by pat_completeness auto
termination by (relation "measure (\<lambda>(key, xs, i). i)") (auto simp: parent_def)

definition smaller_child :: "('a \<Rightarrow> 'k::linorder) \<Rightarrow> nat \<Rightarrow> 'a list \<Rightarrow> nat \<Rightarrow> nat" where
  "smaller_child key n xs i =
     (if 2 * i + 2 < n \<and> key (xs ! (2 * i + 2)) < key (xs ! (2 * i + 1)) then 2 * i + 2 else 2 * i + 1)"

function sift_down :: "('a \<Rightarrow> 'k::linorder) \<Rightarrow> nat \<Rightarrow> 'a list \<Rightarrow> nat \<Rightarrow> 'a list" where
  "sift_down key n xs i =
     (if 2 * i + 1 < n \<and> key (xs ! smaller_child key n xs i) < key (xs ! i)
      then sift_down key n (swap_at i (smaller_child key n xs i) xs) (smaller_child key n xs i)
      else xs)"
  by pat_completeness auto
termination by (relation "measure (\<lambda>(key, n, xs, i). n - i)") (auto simp: smaller_child_def)

declare sift_up.simps [simp del] sift_down.simps [simp del]

definition push_heap :: "('a \<Rightarrow> 'k::linorder) \<Rightarrow> 'a list \<Rightarrow> 'a list" where
  "push_heap key xs = sift_up key xs (length xs - 1)"

definition pop_heap :: "('a \<Rightarrow> 'k::linorder) \<Rightarrow> 'a list \<Rightarrow> 'a list" where
  "pop_heap key xs =
     (let n = length xs - 1 in sift_down key n (swap_at 0 n xs) 0)"

definition make_heap :: "('a \<Rightarrow> 'k::linorder) \<Rightarrow> 'a list \<Rightarrow> 'a list" where
  "make_heap key xs = foldl (sift_down key (length xs)) xs (rev [0..<length xs div 2])"

definition is_heap :: "('a \<Rightarrow> 'k::linorder) \<Rightarrow> 'a list \<Rightarrow> bool" where
  "is_heap key xs \<longleftrightarrow> (\<forall>j < length xs. 0 < j \<longrightarrow> key (xs ! parent j) \<le> key (xs ! j))"

section \<open>Swapping\<close>

lemma length_swap_at [simp]: "length (swap_at i j xs) = length xs"
  by (simp add: swap_at_def)

lemma nth_swap_at:
  "i < length xs \<Longrightarrow> j < length xs \<Longrightarrow> k < length xs \<Longrightarrow>
   swap_at i j xs ! k = xs ! (if k = i then j else if k = j then i else k)"
  by (auto simp: swap_at_def nth_list_update)

lemma mset_swap_at: "i < length xs \<Longrightarrow> j < length xs \<Longrightarrow> mset (swap_at i j xs) = mset xs"
  unfolding swap_at_def by (rule mset_swap)

lemma parent_less [simp]: "0 < i \<Longrightarrow> parent i < i"
  by (auto simp: parent_def)

lemma parent_child [simp]: "parent (2 * i + 1) = i" "parent (2 * i + 2) = i" "parent (Suc (2 * i)) = i" "parent (Suc (Suc (2 * i))) = i"
  by (simp_all add: parent_def)

lemma parent_eq_iff: "0 < j \<Longrightarrow> parent j = i \<longleftrightarrow> j = 2 * i + 1 \<or> j = 2 * i + 2"
  by (auto simp: parent_def)

section \<open>sift\_up\<close>

text \<open>A heap everywhere but between \<open>i\<close> and its parent.\<close>

definition heap_but :: "('a \<Rightarrow> 'k::linorder) \<Rightarrow> 'a list \<Rightarrow> nat \<Rightarrow> bool" where
  "heap_but key xs i \<longleftrightarrow>
     (\<forall>j < length xs. 0 < j \<longrightarrow> j \<noteq> i \<longrightarrow> key (xs ! parent j) \<le> key (xs ! j)) \<and>
     (\<forall>j < length xs. 0 < j \<longrightarrow> parent j = i \<longrightarrow> 0 < i \<longrightarrow> key (xs ! parent i) \<le> key (xs ! j))"

lemma heap_but_swap:
  assumes h: "heap_but key xs i" and i: "0 < i" "i < length xs"
    and less: "key (xs ! i) < key (xs ! parent i)"
  shows "heap_but key (swap_at i (parent i) xs) (parent i)"
proof -
  let ?p = "parent i"
  have pi: "?p < i" using i by simp
  have p: "?p < length xs" "?p < i" using less_trans [OF pi i(2)] pi by simp_all
  note nth = nth_swap_at [OF i(2) p(1)]
  have up: "key (xs ! parent j) \<le> key (xs ! j)" if "j < length xs" "0 < j" "j \<noteq> i" for j
    using h that by (simp add: heap_but_def)
  have skip: "key (xs ! ?p) \<le> key (xs ! j)" if "j < length xs" "0 < j" "parent j = i" for j
    using h that i by (simp add: heap_but_def)
  have pj: "parent j < length xs" if "j < length xs" for j using that by (auto simp: parent_def)
  show ?thesis
    unfolding heap_but_def
  proof (intro conjI allI impI)
    fix j assume j: "j < length (swap_at i ?p xs)" "0 < j" "j \<noteq> ?p"
    then have "j < length xs" by simp
    then show "key (swap_at i ?p xs ! parent j) \<le> key (swap_at i ?p xs ! j)"
      using j up [of j] skip [of j] less p parent_less [of j] by (auto simp: nth pj)
  next
    fix j assume j: "j < length (swap_at i ?p xs)" "0 < j" "parent j = ?p" "0 < ?p"
    then have jl: "j < length xs" by simp
    have pp: "parent ?p \<noteq> ?p" using parent_less [OF j(4)] by (metis less_irrefl)
    have "key (xs ! parent ?p) \<le> key (xs ! ?p)" using up [of ?p] p j(4) by simp
    moreover have "key (xs ! ?p) \<le> key (xs ! j)" if "j \<noteq> i" using up [of j] j jl that by simp
    ultimately show "key (swap_at i ?p xs ! parent ?p) \<le> key (swap_at i ?p xs ! j)"
      using j jl p pp parent_less [of j] by (auto simp: nth pj)
  qed
qed

lemma length_sift_up [simp]: "length (sift_up key xs i) = length xs"
  by (induction key xs i rule: sift_up.induct) (subst sift_up.simps, simp)

lemma mset_sift_up: "i < length xs \<Longrightarrow> mset (sift_up key xs i) = mset xs"
proof (induction key xs i rule: sift_up.induct)
  case (1 key xs i)
  have "parent i < length xs" using "1.prems" by (auto simp: parent_def)
  then show ?case using 1 by (subst sift_up.simps) (simp add: mset_swap_at)
qed

lemma sift_up_heap: "i < length xs \<Longrightarrow> heap_but key xs i \<Longrightarrow> is_heap key (sift_up key xs i)"
proof (induction key xs i rule: sift_up.induct)
  case (1 key xs i)
  show ?case
  proof (cases "i \<noteq> 0 \<and> key (xs ! i) < key (xs ! parent i)")
    case True
    moreover have "parent i < length xs" using "1.prems" by (auto simp: parent_def)
    ultimately have "is_heap key (sift_up key (swap_at i (parent i) xs) (parent i))"
      using "1.prems" by (intro "1.IH") (auto intro: heap_but_swap)
    then show ?thesis using True by (subst sift_up.simps) simp
  next
    case False
    then have "is_heap key xs" using "1.prems" by (auto simp: is_heap_def heap_but_def not_less)
    then show ?thesis using False by (subst sift_up.simps) auto
  qed
qed

lemma heap_but_append: "is_heap key xs \<Longrightarrow> heap_but key (xs @ [x]) (length xs)"
proof -
  assume h: "is_heap key xs"
  have p: "parent j < length xs" if "j < length xs" for j using that by (auto simp: parent_def)
  then have "parent j \<noteq> length xs" if "j < length xs" for j using that by (metis less_irrefl)
  moreover have "xs \<noteq> [] \<Longrightarrow> parent (length xs) \<noteq> length xs" by (metis length_greater_0_conv less_irrefl parent_less)
  ultimately show ?thesis
    using h p by (auto simp: heap_but_def is_heap_def nth_append less_Suc_eq)
qed

section \<open>sift\_down\<close>

text \<open>
  The parents from \<open>lo\<close> on, in the prefix of length \<open>n\<close>, are no greater than their children, but
  for \<open>i\<close> and its children.
\<close>

definition heap_from :: "('a \<Rightarrow> 'k::linorder) \<Rightarrow> nat \<Rightarrow> nat \<Rightarrow> 'a list \<Rightarrow> bool" where
  "heap_from key lo n xs \<longleftrightarrow> (\<forall>j < n. 0 < j \<longrightarrow> lo \<le> parent j \<longrightarrow> key (xs ! parent j) \<le> key (xs ! j))"

definition heap_from_but :: "('a \<Rightarrow> 'k::linorder) \<Rightarrow> nat \<Rightarrow> nat \<Rightarrow> 'a list \<Rightarrow> nat \<Rightarrow> bool" where
  "heap_from_but key lo n xs i \<longleftrightarrow>
     (\<forall>j < n. 0 < j \<longrightarrow> lo \<le> parent j \<longrightarrow> parent j \<noteq> i \<longrightarrow> key (xs ! parent j) \<le> key (xs ! j)) \<and>
     (\<forall>j < n. 0 < j \<longrightarrow> parent j = i \<longrightarrow> 0 < i \<longrightarrow> lo \<le> parent i \<longrightarrow> key (xs ! parent i) \<le> key (xs ! j))"

lemma smaller_child_props:
  assumes "2 * i + 1 < n"
  shows "smaller_child key n xs i < n" "parent (smaller_child key n xs i) = i" "i < smaller_child key n xs i"
    "j < n \<Longrightarrow> 0 < j \<Longrightarrow> parent j = i \<Longrightarrow> key (xs ! smaller_child key n xs i) \<le> key (xs ! j)"
  using assms by (auto simp: smaller_child_def parent_eq_iff)

lemma heap_from_but_swap:
  assumes h: "heap_from_but key lo n xs i" and n: "n \<le> length xs" "2 * i + 1 < n" "lo \<le> i"
    and c: "c = smaller_child key n xs i" and less: "key (xs ! c) < key (xs ! i)"
  shows "heap_from_but key lo n (swap_at i c xs) c"
proof -
  note sc = smaller_child_props [OF n(2), where key = key and xs = xs, folded c]
  have ic: "i < length xs" "c < length xs" using n sc by simp_all
  note nth = nth_swap_at [OF ic]
  have pj: "parent j < n" if "j < n" for j using that by (auto simp: parent_def)
  have up: "key (xs ! parent j) \<le> key (xs ! j)" if "j < n" "0 < j" "lo \<le> parent j" "parent j \<noteq> i" for j
    using h that by (simp add: heap_from_but_def)
  have skip: "key (xs ! parent i) \<le> key (xs ! j)" if "j < n" "0 < j" "parent j = i" "0 < i" "lo \<le> parent i" for j
    using h that by (simp add: heap_from_but_def)
  show ?thesis
    unfolding heap_from_but_def
  proof (intro conjI allI impI)
    fix j assume j: "j < n" "0 < j" "lo \<le> parent j" "parent j \<noteq> c"
    show "key (swap_at i c xs ! parent j) \<le> key (swap_at i c xs ! j)"
    proof (cases "parent j = i")
      case True
      then have "swap_at i c xs ! parent j = xs ! c" using ic by (simp add: nth)
      moreover have "swap_at i c xs ! j = (if j = c then xs ! i else xs ! j)"
        using j n parent_less [of j] True by (simp add: nth)
      ultimately show ?thesis using sc(4) [of j] j less True by auto
    next
      case False
      then have "swap_at i c xs ! parent j = xs ! parent j" using j n pj [of j] by (simp add: nth)
      moreover have "j \<noteq> c" using False sc(2) by auto
      ultimately show ?thesis
        using j n False up [of j] skip [of c] sc by (cases "j = i") (auto simp: nth)
    qed
  next
    fix j assume j: "j < n" "0 < j" "parent j = c" "0 < c" "lo \<le> parent c"
    then have "j \<noteq> i" "j \<noteq> c" using sc parent_less [of j] by auto
    moreover have "key (xs ! c) \<le> key (xs ! j)" using up [of j] j sc n(3) by auto
    ultimately show "key (swap_at i c xs ! parent c) \<le> key (swap_at i c xs ! j)"
      using j n sc ic by (simp add: nth)
  qed
qed

lemma length_sift_down [simp]: "length (sift_down key n xs i) = length xs"
  by (induction key n xs i rule: sift_down.induct) (subst sift_down.simps, simp)

lemma mset_sift_down: "n \<le> length xs \<Longrightarrow> mset (sift_down key n xs i) = mset xs"
proof (induction key n xs i rule: sift_down.induct)
  case (1 key n xs i)
  show ?case
  proof (cases "2 * i + 1 < n")
    case True
    then have "smaller_child key n xs i < n" "i < n" using smaller_child_props(1) [OF True] by simp_all
    then show ?thesis using 1 by (subst sift_down.simps) (simp add: mset_swap_at)
  next
    case False
    then show ?thesis by (subst sift_down.simps) simp
  qed
qed

lemma sift_down_beyond: "n \<le> k \<Longrightarrow> sift_down key n xs i ! k = xs ! k"
proof (induction key n xs i rule: sift_down.induct)
  case (1 key n xs i)
  show ?case
  proof (cases "2 * i + 1 < n")
    case True
    then have "smaller_child key n xs i < n" "i < n" using smaller_child_props(1) [OF True] by simp_all
    then have "k \<noteq> smaller_child key n xs i" "k \<noteq> i" using "1.prems" by auto
    then have "swap_at i (smaller_child key n xs i) xs ! k = xs ! k" by (simp add: swap_at_def)
    then show ?thesis using 1 by (subst sift_down.simps) simp
  next
    case False
    then show ?thesis by (subst sift_down.simps) simp
  qed
qed

lemma sift_down_heap:
  "n \<le> length xs \<Longrightarrow> lo \<le> i \<Longrightarrow> heap_from_but key lo n xs i \<Longrightarrow> heap_from key lo n (sift_down key n xs i)"
proof (induction key n xs i rule: sift_down.induct)
  case (1 key n xs i)
  let ?c = "smaller_child key n xs i"
  show ?case
  proof (cases "2 * i + 1 < n \<and> key (xs ! ?c) < key (xs ! i)")
    case True
    then have "heap_from_but key lo n (swap_at i ?c xs) ?c"
      using "1.prems" by (intro heap_from_but_swap) auto
    moreover have "lo \<le> ?c" using smaller_child_props(3) [of i n key xs] True "1.prems" by simp
    ultimately have "heap_from key lo n (sift_down key n (swap_at i ?c xs) ?c)"
      using True "1.prems" by (intro "1.IH") auto
    then show ?thesis using True by (subst sift_down.simps) simp
  next
    case False
    have "key (xs ! i) \<le> key (xs ! j)" if "j < n" "0 < j" "parent j = i" for j
    proof -
      have "2 * i + 1 < n" using that by (auto simp: parent_eq_iff)
      then show ?thesis using False smaller_child_props(4) [of i n j key xs] that by auto
    qed
    then have "heap_from key lo n xs" using "1.prems"
      by (auto simp: heap_from_def heap_from_but_def)
    then show ?thesis using False by (subst sift_down.simps) auto
  qed
qed

section \<open>The three algorithms\<close>

lemma push_heap_correct:
  assumes "is_heap key xs"
  shows "is_heap key (push_heap key (xs @ [x]))" and "mset (push_heap key (xs @ [x])) = add_mset x (mset xs)"
  using assms by (simp_all add: push_heap_def sift_up_heap heap_but_append mset_sift_up)

lemma heap_from_0: "heap_from key 0 n xs \<Longrightarrow> n \<le> length xs \<Longrightarrow> is_heap key (take n xs)"
  by (auto simp: heap_from_def is_heap_def) (metis less_trans nth_take parent_less)

lemma pop_heap_correct:
  assumes "is_heap key xs" and "xs \<noteq> []"
  shows "last (pop_heap key xs) = hd xs" and "is_heap key (butlast (pop_heap key xs))"
    and "mset (pop_heap key xs) = mset xs" and "length (pop_heap key xs) = length xs"
proof -
  let ?n = "length xs - 1" and ?ys = "swap_at 0 (length xs - 1) xs"
  have n: "?n < length xs" "0 < length xs" using assms(2) by simp_all
  show len: "length (pop_heap key xs) = length xs" by (simp add: pop_heap_def Let_def)
  show "mset (pop_heap key xs) = mset xs"
    using n by (simp add: pop_heap_def Let_def mset_sift_down mset_swap_at)
  have "pop_heap key xs ! ?n = xs ! 0"
    using n by (simp add: pop_heap_def Let_def sift_down_beyond nth_swap_at)
  then show "last (pop_heap key xs) = hd xs"
    using assms(2) len by (metis hd_conv_nth last_conv_nth length_0_conv)
  have "key (?ys ! parent j) \<le> key (?ys ! j)" if j: "j < ?n" "0 < j" "parent j \<noteq> 0" for j
  proof -
    have p: "parent j < ?n" using less_trans [OF parent_less j(1)] j(2) by simp
    have "?ys ! k = xs ! k" if "k < ?n" "k \<noteq> 0" for k using that n by (simp add: nth_swap_at)
    then have "?ys ! j = xs ! j" "?ys ! parent j = xs ! parent j" using j p by simp_all
    then show ?thesis using assms(1) j n by (simp add: is_heap_def)
  qed
  then have "heap_from_but key 0 ?n ?ys 0" by (simp add: heap_from_but_def)
  then have "heap_from key 0 ?n (pop_heap key xs)"
    unfolding pop_heap_def Let_def by (intro sift_down_heap) simp_all
  then have "is_heap key (take ?n (pop_heap key xs))"
    by (rule heap_from_0) (simp add: len)
  then show "is_heap key (butlast (pop_heap key xs))" by (simp add: butlast_conv_take len)
qed

lemma make_heap_loop:
  "heap_from key k (length xs) xs \<Longrightarrow>
   heap_from key 0 (length xs) (foldl (sift_down key (length xs)) xs (rev [0..<k])) \<and>
   mset (foldl (sift_down key (length xs)) xs (rev [0..<k])) = mset xs"
proof (induction k arbitrary: xs)
  case 0
  then show ?case by simp
next
  case (Suc k)
  have "heap_from_but key k (length xs) xs k"
    using Suc.prems by (auto simp: heap_from_def heap_from_but_def Suc_le_eq)
      (metis leD parent_less)
  then have "heap_from key k (length xs) (sift_down key (length xs) xs k)"
    by (intro sift_down_heap) simp_all
  with Suc.IH [of "sift_down key (length xs) xs k"] show ?case by (simp add: mset_sift_down)
qed

lemma make_heap_correct:
  "is_heap key (make_heap key xs)" "mset (make_heap key xs) = mset xs"
proof -
  have "heap_from key (length xs div 2) (length xs) xs"
    by (auto simp: heap_from_def parent_def)
  from make_heap_loop [OF this]
  have h: "heap_from key 0 (length xs) (make_heap key xs)" and m: "mset (make_heap key xs) = mset xs"
    by (simp_all add: make_heap_def)
  show "mset (make_heap key xs) = mset xs" by (rule m)
  have "length (make_heap key xs) = length xs" using mset_eq_length [OF m] .
  then show "is_heap key (make_heap key xs)" using heap_from_0 [OF h] by simp
qed

lemma heap_root_least:
  assumes "is_heap key xs" and "x \<in> set xs"
  shows "key (hd xs) \<le> key x"
proof -
  have "key (xs ! 0) \<le> key (xs ! i)" if "i < length xs" for i
    using that
  proof (induction i rule: less_induct)
    case (less i)
    show ?case
    proof (cases "i = 0")
      case False
      then have p: "parent i < i" by simp
      then have "key (xs ! 0) \<le> key (xs ! parent i)" using less.prems by (intro less.IH) simp_all
      also have "\<dots> \<le> key (xs ! i)" using assms(1) less.prems False by (simp add: is_heap_def)
      finally show ?thesis .
    qed simp
  qed
  then show ?thesis using assms(2) by (metis hd_conv_nth in_set_conv_nth length_pos_if_in_set length_greater_0_conv)
qed

section \<open>The contract\<close>

locale heap_queue =
  fixes key :: "'a \<Rightarrow> 'k::linorder"
    and heap :: "'a list \<Rightarrow> bool"
    and push pop make :: "'a list \<Rightarrow> 'a list"
  assumes heap_Nil: "heap []"
    and heap_push: "heap xs \<Longrightarrow> heap (push (xs @ [x]))"
    and mset_push: "heap xs \<Longrightarrow> mset (push (xs @ [x])) = add_mset x (mset xs)"
    and pop_last: "heap xs \<Longrightarrow> xs \<noteq> [] \<Longrightarrow> last (pop xs) = hd xs"
    and pop_heap: "heap xs \<Longrightarrow> xs \<noteq> [] \<Longrightarrow> heap (butlast (pop xs))"
    and pop_mset: "heap xs \<Longrightarrow> xs \<noteq> [] \<Longrightarrow> mset (pop xs) = mset xs"
    and heap_make: "heap (make xs)"
    and mset_make: "mset (make xs) = mset xs"
    and root_least: "heap xs \<Longrightarrow> x \<in> set xs \<Longrightarrow> key (hd xs) \<le> key x"
begin

lemma mset_butlast_pop:
  assumes "heap xs" and "xs \<noteq> []"
  shows "mset xs = add_mset (hd xs) (mset (butlast (pop xs)))"
proof -
  have "pop xs \<noteq> []" using pop_mset [OF assms] assms(2) by (metis mset_zero_iff)
  then have "mset (pop xs) = add_mset (last (pop xs)) (mset (butlast (pop xs)))"
    by (metis append_butlast_last_id mset.simps(2) mset_append mset_single_iff_right union_mset_add_mset_right add.right_neutral mset.simps(1))
  then show ?thesis using pop_mset [OF assms] pop_last [OF assms] by simp
qed

lemma length_butlast_pop: "heap xs \<Longrightarrow> xs \<noteq> [] \<Longrightarrow> length (butlast (pop xs)) < length xs"
  using mset_eq_length [OF pop_mset, of xs] by simp

text \<open>Removing elements and rebuilding, as \<^verbatim>\<open>remove_if\<close>, \<^verbatim>\<open>erase\<close> and \<^verbatim>\<open>make_heap\<close> do.\<close>

lemma heap_filter:
  "heap xs \<Longrightarrow> heap (if filter P xs \<noteq> xs then make (filter P xs) else xs)"
  "mset (if filter P xs \<noteq> xs then make (filter P xs) else xs) = filter_mset P (mset xs)"
  by (auto simp: heap_make mset_make simp flip: mset_filter)

end

interpretation std: heap_queue key "is_heap key" "push_heap key" "pop_heap key" "make_heap key"
  for key :: "'a \<Rightarrow> 'k::linorder"
  by unfold_locales
    (simp_all add: is_heap_def push_heap_correct [unfolded is_heap_def] pop_heap_correct [unfolded is_heap_def]
      make_heap_correct [unfolded is_heap_def] heap_root_least [unfolded is_heap_def])

end
