(* ===== verification/Core_Timer.thy ===== *)
theory Core_Timer
  imports Std_Heap
begin

text \<open>
  \<^verbatim>\<open>source/base/timer.h\<close>, \<^verbatim>\<open>timer.cpp\<close> and \<^verbatim>\<open>event.h\<close>: the timer every periodic task of the SDK runs on.
  The first part is the message queue, a heap ordered by due time and handle; times are integers
  of nanoseconds, the clock readings are an argument. The second part is the control of the timer
  thread: the loop of \<^verbatim>\<open>Looper\<close>, the two auto-reset events it waits on, and the destructor that
  must end it. An event is identified by a number; a message holds it weakly, so the set of
  events still alive is part of the state.
\<close>

section \<open>Messages\<close>

record message =
  msg_event :: nat
  when_ns :: int
  user_data :: nat
  handle :: u32

definition msg_key :: "message \<Rightarrow> int \<times> nat" where
  "msg_key m = (when_ns m, unat (handle m))"

record timer =
  msg_queue :: "message list"
  event_fifo_id :: u32
  active_events :: "nat set"
  alive_events :: "nat set"
  global_timer :: int
  host_set :: bool
  online_time_set :: bool
  online_time :: int
  time_ep_since_online :: int

text \<open>\<^verbatim>\<open>Event::Create\<close>: a new event, active, owned by the caller.\<close>

definition Event_Create :: "nat \<Rightarrow> 'a timer_scheme \<Rightarrow> 'a timer_scheme" where
  "Event_Create e t = t\<lparr>alive_events := insert e (alive_events t), active_events := insert e (active_events t)\<rparr>"

definition Event_Active :: "nat \<Rightarrow> 'a timer_scheme \<Rightarrow> 'a timer_scheme" where
  "Event_Active e t = t\<lparr>active_events := insert e (active_events t)\<rparr>"

definition Event_InActive :: "nat \<Rightarrow> 'a timer_scheme \<Rightarrow> 'a timer_scheme" where
  "Event_InActive e t = t\<lparr>active_events := active_events t - {e}\<rparr>"

definition Event_IsActive :: "nat \<Rightarrow> 'a timer_scheme \<Rightarrow> bool" where
  "Event_IsActive e t \<longleftrightarrow> e \<in> active_events t"

definition HostEvent_Set :: "bool \<Rightarrow> bool \<times> bool" where
  "HostEvent_Set is_set = (if \<not> is_set then (True, True) else (is_set, False))"

definition PostEvent :: "int \<Rightarrow> nat \<Rightarrow> int \<Rightarrow> nat \<Rightarrow> 'a timer_scheme \<Rightarrow> u32 \<times> 'a timer_scheme" where
  "PostEvent now e duration data t =
     (let t = Event_Active e t;
          timeout = duration + now;
          h = event_fifo_id t;
          t = t\<lparr>event_fifo_id := h + 1,
                msg_queue := push_heap msg_key (msg_queue t @
                  [\<lparr>msg_event = e, when_ns = timeout, user_data = data, handle = h\<rparr>])\<rparr>
      in (h, t\<lparr>host_set := fst (HostEvent_Set (host_set t))\<rparr>))"

definition remove_messages :: "(message \<Rightarrow> bool) \<Rightarrow> message list \<Rightarrow> message list" where
  "remove_messages P q =
     (if filter (\<lambda>m. \<not> P m) q \<noteq> q then make_heap msg_key (filter (\<lambda>m. \<not> P m) q) else q)"

definition RemoveMessage :: "u32 \<Rightarrow> 'a timer_scheme \<Rightarrow> 'a timer_scheme" where
  "RemoveMessage h t = t\<lparr>msg_queue := remove_messages (\<lambda>m. handle m = h) (msg_queue t)\<rparr>"

text \<open>The caller of \<^verbatim>\<open>RemoveEvent\<close> owns the event, so locking a message's weak pointer yields it.\<close>

definition RemoveEvent :: "nat \<Rightarrow> 'a timer_scheme \<Rightarrow> 'a timer_scheme" where
  "RemoveEvent e t =
     (let t = Event_InActive e t
      in t\<lparr>msg_queue := remove_messages (\<lambda>m. msg_event m \<in> alive_events t \<and> msg_event m = e) (msg_queue t)\<rparr>)"

text \<open>
  \<^verbatim>\<open>Advance\<close>: deliver every due message, reading the clock again after each. \<open>clock n\<close> is the
  \<open>n\<close>-th reading; \<open>invoke\<close> is what the callback does to the timer, which is unlocked meanwhile.
  A message whose event is gone or inactive is dropped. The result is the log of callbacks run,
  the number of clock readings, the time to sleep, and the timer. A callback may keep posting
  due messages for ever, so the loop is a partial function.
\<close>

type_synonym 'a callback = "message \<Rightarrow> int \<Rightarrow> 'a timer_scheme \<Rightarrow> 'a timer_scheme"

definition deliver :: "'a callback \<Rightarrow> message \<Rightarrow> 'a timer_scheme \<Rightarrow> message list \<times> 'a timer_scheme" where
  "deliver invoke m t =
     (if msg_event m \<in> alive_events t \<and> Event_IsActive (msg_event m) t
      then ([m], invoke m (global_timer t - when_ns m) t) else ([], t))"

partial_function (option) advance_loop ::
    "(nat \<Rightarrow> int) \<Rightarrow> 'a callback \<Rightarrow> nat \<Rightarrow> 'a timer_scheme \<Rightarrow> (message list \<times> message list \<times> nat \<times> 'a timer_scheme) option" where
  "advance_loop clock invoke n t =
     (if msg_queue t \<noteq> [] \<and> when_ns (hd (msg_queue t)) \<le> global_timer t
      then let m = hd (msg_queue t);
               t1 = t\<lparr>msg_queue := butlast (pop_heap msg_key (msg_queue t))\<rparr>;
               (ran, t2) = deliver invoke m t1
           in Option.bind (advance_loop clock invoke (Suc n) (t2\<lparr>global_timer := clock n\<rparr>))
                (\<lambda>(popped, log, k, t3). Some (m # popped, ran @ log, k, t3))
      else Some ([], [], n, t))"

declare advance_loop.simps [code]

definition Advance ::
    "(nat \<Rightarrow> int) \<Rightarrow> 'a callback \<Rightarrow> 'a timer_scheme \<Rightarrow> (message list \<times> message list \<times> nat \<times> int option \<times> 'a timer_scheme) option" where
  "Advance clock invoke t =
     Option.bind (advance_loop clock invoke 1 (t\<lparr>global_timer := clock 0\<rparr>))
       (\<lambda>(popped, log, k, t). Some (popped, log, k,
          (if msg_queue t \<noteq> [] then Some (when_ns (hd (msg_queue t)) - global_timer t) else None), t))"

definition SetOnlineTime :: "int \<Rightarrow> int \<Rightarrow> 'a timer_scheme \<Rightarrow> 'a timer_scheme" where
  "SetOnlineTime local_now ms t =
     t\<lparr>online_time := ms, time_ep_since_online := local_now, online_time_set := True\<rparr>"

definition OnlineTimestamp :: "int \<Rightarrow> 'a timer_scheme \<Rightarrow> int" where
  "OnlineTimestamp local_now_ms t =
     (if online_time_set t then local_now_ms - time_ep_since_online t + online_time t else local_now_ms)"

section \<open>The queue\<close>

definition timer_ok :: "'a timer_scheme \<Rightarrow> bool" where
  "timer_ok t \<longleftrightarrow> is_heap msg_key (msg_queue t)"

lemma remove_messages_mset: "mset (remove_messages P q) = filter_mset (\<lambda>m. \<not> P m) (mset q)"
  unfolding remove_messages_def by (rule std.heap_filter)

lemma remove_messages_heap: "is_heap msg_key q \<Longrightarrow> is_heap msg_key (remove_messages P q)"
  unfolding remove_messages_def by (rule std.heap_filter)

lemma PostEvent_ok:
  assumes "timer_ok t"
  shows "timer_ok (snd (PostEvent now e duration data t))"
    and "mset (msg_queue (snd (PostEvent now e duration data t)))
       = add_mset \<lparr>msg_event = e, when_ns = duration + now, user_data = data, handle = event_fifo_id t\<rparr>
           (mset (msg_queue t))"
  using assms
  by (simp_all add: timer_ok_def PostEvent_def Let_def Event_Active_def std.heap_push std.mset_push)

lemma RemoveMessage_ok: "timer_ok t \<Longrightarrow> timer_ok (RemoveMessage h t)"
  by (simp add: timer_ok_def RemoveMessage_def remove_messages_heap)

lemma RemoveEvent_ok: "timer_ok t \<Longrightarrow> timer_ok (RemoveEvent e t)"
  by (simp add: timer_ok_def RemoveEvent_def Event_InActive_def remove_messages_heap)

lemma msg_key_hd_least:
  "is_heap msg_key q \<Longrightarrow> m \<in> set q \<Longrightarrow> msg_key (hd q) \<le> msg_key m"
  by (rule std.root_least)

section \<open>Delivery\<close>

text \<open>A callback that leaves the queue and the events alone.\<close>

definition quiet :: "'a callback \<Rightarrow> bool" where
  "quiet invoke \<longleftrightarrow> (\<forall>m d t. msg_queue (invoke m d t) = msg_queue t \<and>
     alive_events (invoke m d t) = alive_events t \<and> active_events (invoke m d t) = active_events t)"

lemma deliver_quiet [simp]:
  assumes "quiet invoke"
  shows "msg_queue (snd (deliver invoke m t)) = msg_queue t"
    and "alive_events (snd (deliver invoke m t)) = alive_events t"
    and "active_events (snd (deliver invoke m t)) = active_events t"
  using assms by (auto simp: deliver_def quiet_def)

lemma fst_deliver:
  "fst (deliver invoke m t) = (if msg_event m \<in> alive_events t \<and> msg_event m \<in> active_events t then [m] else [])"
  by (simp add: deliver_def Event_IsActive_def)

lemma advance_loop_pop:
  assumes "msg_queue t \<noteq> []" and "when_ns (hd (msg_queue t)) \<le> global_timer t"
  shows "advance_loop clock invoke n t =
     (let m = hd (msg_queue t); t1 = t\<lparr>msg_queue := butlast (pop_heap msg_key (msg_queue t))\<rparr>;
          (ran, t2) = deliver invoke m t1
      in Option.bind (advance_loop clock invoke (Suc n) (t2\<lparr>global_timer := clock n\<rparr>))
           (\<lambda>(popped, log, k, t3). Some (m # popped, ran @ log, k, t3)))"
  using assms by (subst advance_loop.simps) simp

lemma advance_loop_stop:
  "\<not> (msg_queue t \<noteq> [] \<and> when_ns (hd (msg_queue t)) \<le> global_timer t) \<Longrightarrow>
   advance_loop clock invoke n t = Some ([], [], n, t)"
  by (subst advance_loop.simps) auto

text \<open>
  What a run of the loop may do when \<open>now j\<close> is the reading of the clock before the \<open>j\<close>-th message is
  popped: the \<open>j\<close>-th message popped was due at \<open>now j\<close>, and at the reading after the last one
  nothing that is left is due.
\<close>

definition delivered :: "(nat \<Rightarrow> int) \<Rightarrow> 'a timer_scheme \<Rightarrow> message list \<Rightarrow> message list \<Rightarrow> 'a timer_scheme \<Rightarrow> bool" where
  "delivered now t popped log t' \<longleftrightarrow> timer_ok t' \<and>
     (\<forall>j < length popped. when_ns (popped ! j) \<le> now j) \<and>
     (\<forall>m \<in> set (msg_queue t'). now (length popped) < when_ns m) \<and>
     mset popped + mset (msg_queue t') = mset (msg_queue t) \<and>
     sorted (map msg_key popped) \<and>
     (\<forall>m \<in> set popped. \<forall>m' \<in> set (msg_queue t'). msg_key m \<le> msg_key m') \<and>
     global_timer t' = now (length popped) \<and>
     log = filter (\<lambda>m. msg_event m \<in> alive_events t \<and> msg_event m \<in> active_events t) popped"

lemma advance_loop_quiet:
  assumes "quiet invoke"
  shows "timer_ok t \<Longrightarrow> \<exists>popped log k t'. advance_loop clock invoke n t = Some (popped, log, k, t') \<and>
     k = n + length popped \<and> delivered (case_nat (global_timer t) (\<lambda>j. clock (n + j))) t popped log t'"
proof (induction "length (msg_queue t)" arbitrary: t n rule: less_induct)
  case less
  let ?q = "msg_queue t"
  have heap: "is_heap msg_key ?q" using less.prems by (simp add: timer_ok_def)
  show ?case
  proof (cases "?q \<noteq> [] \<and> when_ns (hd ?q) \<le> global_timer t")
    case False
    have "global_timer t < when_ns m" if "m \<in> set ?q" for m
    proof -
      have "?q \<noteq> []" using that by auto
      moreover have "when_ns (hd ?q) \<le> when_ns m"
        using msg_key_hd_least [OF heap that] by (auto simp: msg_key_def less_eq_prod_def)
      ultimately show ?thesis using False by auto
    qed
    then show ?thesis using less.prems by (auto simp: advance_loop_stop [OF False] delivered_def)
  next
    case True
    let ?m = "hd ?q" and ?q1 = "butlast (pop_heap msg_key ?q)"
    let ?d = "deliver invoke ?m (t\<lparr>msg_queue := ?q1\<rparr>)"
    let ?t2 = "(snd ?d)\<lparr>global_timer := clock n\<rparr>"
    have q2: "msg_queue ?t2 = ?q1" using assms by simp
    have ev: "alive_events ?t2 = alive_events t" "active_events ?t2 = active_events t"
      using assms by simp_all
    have "timer_ok ?t2" using True std.pop_heap [OF heap] by (simp add: timer_ok_def assms)
    moreover have "length (msg_queue ?t2) < length ?q"
      using True std.length_butlast_pop [OF heap] by (simp add: assms)
    ultimately obtain popped log k t' where r: "advance_loop clock invoke (Suc n) ?t2 = Some (popped, log, k, t')"
      and k: "k = Suc n + length popped"
      and "delivered (case_nat (global_timer ?t2) (\<lambda>j. clock (Suc n + j))) ?t2 popped log t'"
      using less.hyps [of ?t2 "Suc n"] by blast
    moreover have "case_nat (global_timer ?t2) (\<lambda>j. clock (Suc n + j)) = (\<lambda>j. clock (n + j))"
      by (auto split: nat.split)
    ultimately have d: "delivered (\<lambda>j. clock (n + j)) ?t2 popped log t'" by metis
    have mq: "mset ?q = add_mset ?m (mset ?q1)" using True std.mset_butlast_pop [OF heap] by simp
    have least: "msg_key ?m \<le> msg_key x" if "x \<in># mset ?q1" for x
    proof -
      have "x \<in> set ?q" unfolding set_mset_mset [symmetric] mq using that by simp
      then show ?thesis by (rule msg_key_hd_least [OF heap])
    qed
    have d': "timer_ok t'" "mset popped + mset (msg_queue t') = mset ?q1" "sorted (map msg_key popped)"
      "\<forall>m \<in> set popped. \<forall>m' \<in> set (msg_queue t'). msg_key m \<le> msg_key m'"
      "\<forall>j < length popped. when_ns (popped ! j) \<le> clock (n + j)"
      "\<forall>m \<in> set (msg_queue t'). clock (n + length popped) < when_ns m"
      "global_timer t' = clock (n + length popped)"
      "log = filter (\<lambda>m. msg_event m \<in> alive_events t \<and> msg_event m \<in> active_events t) popped"
      using d unfolding delivered_def q2 ev by blast+
    have "set popped \<union> set (msg_queue t') = set ?q1"
      using arg_cong [OF d'(2), of set_mset] by simp
    then have "\<forall>x \<in> set popped \<union> set (msg_queue t'). msg_key ?m \<le> msg_key x"
      using least by simp
    moreover have "\<forall>j < length (?m # popped). when_ns ((?m # popped) ! j) \<le> case_nat (global_timer t) (\<lambda>j. clock (n + j)) j"
      using True d'(5) by (auto simp: nth_Cons split: nat.split)
    ultimately have "delivered (case_nat (global_timer t) (\<lambda>j. clock (n + j))) t (?m # popped) (fst ?d @ log) t'"
      unfolding delivered_def mq using d'
      by (auto simp del: mset.simps simp: mset.simps(2) fst_deliver)
    moreover have "advance_loop clock invoke n t = Some (?m # popped, fst ?d @ log, k, t')"
      using advance_loop_pop [of t clock invoke n] True r by (simp add: Let_def split_beta)
    ultimately show ?thesis using k by auto
  qed
qed

section \<open>Properties of the queue\<close>

lemma Advance_quiet:
  assumes "quiet invoke" and "timer_ok t"
  shows "\<exists>popped log nxt t'. Advance clock invoke t = Some (popped, log, Suc (length popped), nxt, t') \<and>
     delivered clock t popped log t' \<and>
     (case nxt of None \<Rightarrow> msg_queue t' = [] | Some d \<Rightarrow> 0 < d \<and> d = when_ns (hd (msg_queue t')) - global_timer t')"
proof -
  let ?t = "t\<lparr>global_timer := clock 0\<rparr>"
  have "timer_ok ?t" using assms(2) by (simp add: timer_ok_def)
  then obtain popped log k t' where r: "advance_loop clock invoke 1 ?t = Some (popped, log, k, t')"
    and k: "k = 1 + length popped"
    and d: "delivered (case_nat (clock 0) (\<lambda>j. clock (1 + j))) ?t popped log t'"
    using advance_loop_quiet [OF assms(1), of ?t clock 1] by auto
  have "case_nat (clock 0) (\<lambda>j. clock (1 + j)) = clock" by (auto split: nat.split)
  then have d: "delivered clock t popped log t'" using d by (simp add: delivered_def)
  moreover have "msg_queue t' \<noteq> [] \<Longrightarrow> 0 < when_ns (hd (msg_queue t')) - global_timer t'"
    using d by (auto simp: delivered_def)
  ultimately show ?thesis using r k by (auto simp: Advance_def)
qed

text \<open>
  C14: \<^verbatim>\<open>Advance\<close> returns and delivers in order. When the callbacks do not touch the timer, it pops
  messages the earliest first and, for the same time, in the order of their handles; each one it pops was due
  at the reading of the clock before it; it runs the callback of those whose event is alive and
  active; what stays in the queue is not due at the last reading, nothing else is taken from the queue, and the
  time to sleep it returns is positive, or none if the queue is empty. The witness has a message
  due at once and one due later.
\<close>

theorem Advance_delivers:
  assumes "quiet invoke" and "timer_ok t"
  shows "\<exists>popped log nxt t'. Advance clock invoke t = Some (popped, log, Suc (length popped), nxt, t') \<and>
     delivered clock t popped log t' \<and>
     (case nxt of None \<Rightarrow> msg_queue t' = [] | Some d \<Rightarrow> 0 < d \<and> d = when_ns (hd (msg_queue t')) - global_timer t')"
  using assms by (rule Advance_quiet)

definition example_message :: message where
  "example_message = \<lparr>msg_event = 1, when_ns = 5, user_data = 0, handle = 0\<rparr>"

definition later_message :: message where
  "later_message = \<lparr>msg_event = 1, when_ns = 9, user_data = 0, handle = 1\<rparr>"

definition example_timer :: timer where
  "example_timer = \<lparr>msg_queue = [example_message, later_message], event_fifo_id = 2, active_events = {1},
     alive_events = {1}, global_timer = 0, host_set = True, online_time_set = False, online_time = 0,
     time_ep_since_online = 0\<rparr>"

lemma example_timer_ok: "quiet (\<lambda>m d t. t)" "timer_ok example_timer"
  by (simp_all add: quiet_def timer_ok_def example_timer_def is_heap_def less_Suc_eq msg_key_def
      example_message_def later_message_def parent_def)

theorem Advance_delivers_witness:
  "\<exists>popped log nxt t'. Advance (\<lambda>n. 7) (\<lambda>m d t. t) example_timer = Some (popped, log, Suc (length popped), nxt, t') \<and>
     mset popped = {#example_message#} \<and> log = popped \<and> msg_queue t' = [later_message] \<and> nxt = Some 2"
proof -
  obtain popped log nxt t' where
    r: "Advance (\<lambda>n. 7) (\<lambda>m d t. t) example_timer = Some (popped, log, Suc (length popped), nxt, t')"
    and d: "delivered (\<lambda>n. 7) example_timer popped log t'"
    and nxt: "case nxt of None \<Rightarrow> msg_queue t' = [] | Some d \<Rightarrow> 0 < d \<and> d = when_ns (hd (msg_queue t')) - global_timer t'"
    using Advance_delivers [OF example_timer_ok, of "\<lambda>n. 7"] by blast
  have all: "mset popped + mset (msg_queue t') = {#example_message, later_message#}"
    and soon: "\<forall>m \<in> set popped. when_ns m \<le> 7" and later: "\<forall>m \<in> set (msg_queue t'). 7 < when_ns m"
    using d by (auto simp: delivered_def example_timer_def in_set_conv_nth)
  have "mset popped = filter_mset (\<lambda>m. when_ns m \<le> 7) (mset popped + mset (msg_queue t'))"
    "mset (msg_queue t') = filter_mset (\<lambda>m. 7 < when_ns m) (mset popped + mset (msg_queue t'))"
    using soon later by (simp_all add: mset_filter [symmetric] not_le not_less flip: mset_append del: mset_append)
  then have "mset popped = {#example_message#}" "mset (msg_queue t') = {#later_message#}"
    unfolding all by (simp_all add: example_message_def later_message_def)
  then show ?thesis using r d nxt
    by (cases nxt) (auto simp: delivered_def example_timer_def example_message_def later_message_def)
qed

section \<open>The timer thread and its shutdown\<close>

text \<open>
  Where the thread stands in \<^verbatim>\<open>Looper\<close>: before the test of \<^verbatim>\<open>shutting_down\<close>, before the test of
  \<^verbatim>\<open>paused\<close>, in \<^verbatim>\<open>Advance\<close>, in \<^verbatim>\<open>host_event.Wait\<close> or \<^verbatim>\<open>WaitFor\<close>, in \<^verbatim>\<open>pause_event.Wait\<close>, or out of the
  loop. \<^verbatim>\<open>HostEvent::Wait\<close> returns when the event is set and clears it; \<^verbatim>\<open>WaitFor\<close> may also time out
  and then leaves it alone. The other components' actions are \<^verbatim>\<open>PostEvent\<close> (which sets
  \<^verbatim>\<open>host_event\<close>), \<^verbatim>\<open>Pause\<close>, \<^verbatim>\<open>Resume\<close>, and, at the end, the writes of the destructor in their order.
\<close>

datatype pc = Outer | Inner | Advancing | WaitHost | WaitHostFor | WaitPause | Exited

record looper =
  lp_pc :: pc
  shutting_down :: bool
  paused :: bool
  host_event :: bool
  pause_event :: bool
  dtor :: nat

definition HostEvent_Wait :: "bool \<Rightarrow> bool option" where
  "HostEvent_Wait is_set = (if is_set then Some False else None)"

definition HostEvent_WaitFor :: "bool \<Rightarrow> bool \<Rightarrow> (bool \<times> bool) option" where
  "HostEvent_WaitFor timeout is_set =
     (if is_set then Some (True, False) else if timeout then Some (False, is_set) else None)"

definition HostEvent_Reset :: "bool \<Rightarrow> bool" where
  "HostEvent_Reset is_set = False"

definition lp_Pause :: "looper \<Rightarrow> looper" where
  "lp_Pause s = s\<lparr>paused := True, pause_event := fst (HostEvent_Set (pause_event s))\<rparr>"

definition lp_Resume :: "looper \<Rightarrow> looper" where
  "lp_Resume s = s\<lparr>paused := False, pause_event := fst (HostEvent_Set (pause_event s))\<rparr>"

inductive looper_step :: "looper \<Rightarrow> looper \<Rightarrow> bool" where
  test_shutdown: "lp_pc s = Outer \<Longrightarrow>
     looper_step s (s\<lparr>lp_pc := if shutting_down s then Exited else Inner\<rparr>)"
| test_paused: "lp_pc s = Inner \<Longrightarrow>
     looper_step s (s\<lparr>lp_pc := if paused s then WaitPause else Advancing\<rparr>)"
| advanced_due: "lp_pc s = Advancing \<Longrightarrow> looper_step s (s\<lparr>lp_pc := Inner\<rparr>)"
| advanced_sleep: "lp_pc s = Advancing \<Longrightarrow> looper_step s (s\<lparr>lp_pc := WaitHostFor\<rparr>)"
| advanced_empty: "lp_pc s = Advancing \<Longrightarrow> looper_step s (s\<lparr>lp_pc := WaitHost\<rparr>)"
| host_wait: "lp_pc s = WaitHost \<Longrightarrow> HostEvent_Wait (host_event s) = Some b \<Longrightarrow>
     looper_step s (s\<lparr>lp_pc := Inner, host_event := b\<rparr>)"
| host_wait_for: "lp_pc s = WaitHostFor \<Longrightarrow> HostEvent_WaitFor timeout (host_event s) = Some (r, b) \<Longrightarrow>
     looper_step s (s\<lparr>lp_pc := Inner, host_event := b\<rparr>)"
| pause_wait: "lp_pc s = WaitPause \<Longrightarrow> HostEvent_Wait (pause_event s) = Some b \<Longrightarrow>
     looper_step s (s\<lparr>lp_pc := Outer, pause_event := b\<rparr>)"

text \<open>The writes of \<^verbatim>\<open>~CoreTimer\<close> before it joins the thread; \<open>dtor\<close> counts them.\<close>

fun dtor_write :: "nat \<Rightarrow> looper \<Rightarrow> looper" where
  "dtor_write 0 s = s\<lparr>shutting_down := True\<rparr>"
| "dtor_write (Suc 0) s = s\<lparr>paused := True\<rparr>"
| "dtor_write (Suc (Suc 0)) s = s\<lparr>shutting_down := True\<rparr>"
| "dtor_write (Suc (Suc (Suc 0))) s = s\<lparr>pause_event := fst (HostEvent_Set (pause_event s))\<rparr>"
| "dtor_write _ s = s\<lparr>host_event := fst (HostEvent_Set (host_event s))\<rparr>"

inductive env_step :: "looper \<Rightarrow> looper \<Rightarrow> bool" where
  post: "env_step s (s\<lparr>host_event := fst (HostEvent_Set (host_event s))\<rparr>)"
| pause: "dtor s = 0 \<Longrightarrow> env_step s (lp_Pause s)"
| resume: "dtor s = 0 \<Longrightarrow> env_step s (lp_Resume s)"
| destruct: "dtor s < 5 \<Longrightarrow> env_step s ((dtor_write (dtor s) s)\<lparr>dtor := Suc (dtor s)\<rparr>)"

definition looper_init :: looper where
  "looper_init = \<lparr>lp_pc = Outer, shutting_down = False, paused = False, host_event = False,
     pause_event = False, dtor = 0\<rparr>"

inductive looper_reachable :: "looper \<Rightarrow> bool" where
  start: "looper_reachable looper_init"
| thread: "looper_reachable s \<Longrightarrow> looper_step s t \<Longrightarrow> looper_reachable t"
| env: "looper_reachable s \<Longrightarrow> env_step s t \<Longrightarrow> looper_reachable t"

inductive_cases looper_stepE: "looper_step s t"
inductive_cases env_stepE: "env_step s t"

definition looper_inv :: "looper \<Rightarrow> bool" where
  "looper_inv s \<longleftrightarrow> dtor s \<le> 5 \<and>
     (1 \<le> dtor s \<longrightarrow> shutting_down s) \<and> (2 \<le> dtor s \<longrightarrow> paused s) \<and>
     (4 \<le> dtor s \<longrightarrow> pause_event s \<or> lp_pc s \<in> {Outer, Exited}) \<and>
     (5 \<le> dtor s \<longrightarrow> host_event s \<or> lp_pc s \<in> {Inner, WaitPause, Outer, Exited})"

lemma HostEvent_Set_set [simp]: "fst (HostEvent_Set b)"
  by (simp add: HostEvent_Set_def)

lemma looper_inv_thread: "looper_step s t \<Longrightarrow> looper_inv s \<Longrightarrow> looper_inv t"
  by (induction rule: looper_step.induct)
    (auto simp: looper_inv_def HostEvent_Wait_def HostEvent_WaitFor_def split: if_splits)

lemma dtor_cases:
  assumes "d < 5"
  obtains "d = 0" | "d = Suc 0" | "d = Suc (Suc 0)" | "d = Suc (Suc (Suc 0))" | "d = Suc (Suc (Suc (Suc 0)))"
  using assms by linarith

lemma looper_inv_env: "env_step s t \<Longrightarrow> looper_inv s \<Longrightarrow> looper_inv t"
proof (induction rule: env_step.induct)
  case (destruct s)
  then show ?case by (elim dtor_cases) (auto simp: looper_inv_def)
qed (auto simp: looper_inv_def lp_Pause_def lp_Resume_def)

lemma looper_reachable_inv: "looper_reachable s \<Longrightarrow> looper_inv s"
proof (induction rule: looper_reachable.induct)
  case start
  then show ?case by (simp add: looper_inv_def looper_init_def)
qed (blast intro: looper_inv_thread looper_inv_env)+

definition pc_rank :: "pc \<Rightarrow> nat" where
  "pc_rank p = (case p of Advancing \<Rightarrow> 5 | WaitHost \<Rightarrow> 4 | WaitHostFor \<Rightarrow> 4 | Inner \<Rightarrow> 3 | WaitPause \<Rightarrow> 2
     | Outer \<Rightarrow> 1 | Exited \<Rightarrow> 0)"

lemma looper_rank:
  assumes "looper_step s t" and "looper_inv s" and "dtor s = 5"
  shows "pc_rank (lp_pc t) < pc_rank (lp_pc s)"
  using assms by (induction rule: looper_step.induct) (auto simp: looper_inv_def pc_rank_def)

lemma looper_not_stuck:
  assumes "looper_inv s" and "dtor s = 5" and "lp_pc s \<noteq> Exited"
  shows "\<exists>t. looper_step s t"
proof (cases "lp_pc s")
  case WaitHost
  then have "HostEvent_Wait (host_event s) = Some False" using assms by (simp add: looper_inv_def HostEvent_Wait_def)
  with WaitHost show ?thesis by (blast intro: looper_step.host_wait)
next
  case WaitHostFor
  then have "HostEvent_WaitFor False (host_event s) = Some (True, False)"
    using assms by (simp add: looper_inv_def HostEvent_WaitFor_def)
  with WaitHostFor show ?thesis by (blast intro: looper_step.host_wait_for)
next
  case WaitPause
  then have "HostEvent_Wait (pause_event s) = Some False" using assms by (simp add: looper_inv_def HostEvent_Wait_def)
  with WaitPause show ?thesis by (blast intro: looper_step.pause_wait)
next
  case Outer
  then show ?thesis by (intro exI) (rule looper_step.test_shutdown)
next
  case Inner
  then show ?thesis by (intro exI) (rule looper_step.test_paused)
next
  case Advancing
  then show ?thesis by (intro exI) (rule looper_step.advanced_due)
qed (use assms(3) in simp)

inductive looper_run :: "nat \<Rightarrow> looper \<Rightarrow> looper \<Rightarrow> bool" where
  none: "looper_run 0 s s"
| more: "looper_step s t \<Longrightarrow> looper_run n t u \<Longrightarrow> looper_run (Suc n) s u"

lemma dtor_step: "looper_step s t \<Longrightarrow> dtor t = dtor s"
  by (induction rule: looper_step.induct) auto

lemma looper_run_bound:
  "looper_run n s t \<Longrightarrow> looper_inv s \<Longrightarrow> dtor s = 5 \<Longrightarrow>
   n + pc_rank (lp_pc t) \<le> pc_rank (lp_pc s) \<and> looper_inv t \<and> dtor t = 5"
proof (induction rule: looper_run.induct)
  case (more s t n u)
  have "looper_inv t" "dtor t = 5"
    using looper_inv_thread [OF more.hyps(1) more.prems(1)] dtor_step [OF more.hyps(1)] more.prems(2) by simp_all
  then show ?case
    using more.IH looper_rank [OF more.hyps(1) more.prems] by simp
qed simp

text \<open>
  C18: the destructor does not hang. Whatever the interleaving of the timer thread with posts,
  pauses, resumes and the five writes of \<^verbatim>\<open>~CoreTimer\<close>, once those writes are done the thread makes
  at most five more steps, and it can stop only outside its loop: so the join returns.
\<close>

theorem timer_shutdown:
  assumes "looper_reachable s" and "dtor s = 5" and "looper_run n s t"
  shows "n \<le> 5 \<and> ((\<nexists>u. looper_step t u) \<longrightarrow> lp_pc t = Exited)"
proof -
  have r: "n + pc_rank (lp_pc t) \<le> pc_rank (lp_pc s)" "looper_inv t" "dtor t = 5"
    using looper_run_bound [OF assms(3) looper_reachable_inv [OF assms(1)] assms(2)] by simp_all
  have "pc_rank (lp_pc s) \<le> 5" by (simp add: pc_rank_def split: pc.split)
  then show ?thesis using r looper_not_stuck [OF r(2,3)] by auto
qed

lemma looper_example: "looper_reachable \<lparr>lp_pc = Outer, shutting_down = True, paused = True,
    host_event = True, pause_event = True, dtor = 5\<rparr>"
proof -
  have d: "looper_reachable s \<Longrightarrow> dtor s < 5 \<Longrightarrow> looper_reachable ((dtor_write (dtor s) s)\<lparr>dtor := Suc (dtor s)\<rparr>)" for s
    by (rule looper_reachable.env) (auto intro: env_step.destruct)
  show ?thesis
    using d [OF d [OF d [OF d [OF d [OF looper_reachable.start]]]]]
    by (simp add: looper_init_def eval_nat_numeral)
qed

theorem timer_shutdown_witness:
  "looper_run 1 \<lparr>lp_pc = Outer, shutting_down = True, paused = True, host_event = True, pause_event = True, dtor = 5\<rparr>
     \<lparr>lp_pc = Exited, shutting_down = True, paused = True, host_event = True, pause_event = True, dtor = 5\<rparr>
   \<and> (1 :: nat) \<le> 5"
proof -
  have run: "looper_run 1 \<lparr>lp_pc = Outer, shutting_down = True, paused = True, host_event = True, pause_event = True, dtor = 5\<rparr>
     \<lparr>lp_pc = Exited, shutting_down = True, paused = True, host_event = True, pause_event = True, dtor = 5\<rparr>"
    using looper_run.more [OF looper_step.test_shutdown looper_run.none, of
        "\<lparr>lp_pc = Outer, shutting_down = True, paused = True, host_event = True, pause_event = True, dtor = 5\<rparr>"]
    by simp
  show ?thesis using timer_shutdown [OF looper_example _ run] run by simp
qed

end
