(* ===== verification/Timer_Rounds.thy ===== *)
theory Timer_Rounds
  imports Core_Timer
begin

text \<open>
  The timer of \<^verbatim>\<open>source/base/timer.cpp\<close> with callbacks that use it: the rounds of \<^verbatim>\<open>Advance\<close> as an
  interface for invariants, and what \<^verbatim>\<open>RemoveEvent\<close> guarantees while other code posts, removes and
  delivers.
\<close>

section \<open>Callbacks that use the timer\<close>

text \<open>
  A callback may post messages itself, as all periodic tasks of the SDK do. One round of the loop of
  \<^verbatim>\<open>Advance\<close> pops the first message, runs its callback and reads the clock; the locale gives what an
  invariant of such rounds yields for the loop: it holds when the loop ends, the loop ends when a
  measure decreases, and it never ends when the invariant implies that a message is due. The
  invariant may speak of the number of clock readings and of the callbacks run so far.
\<close>

definition due :: "'a timer_scheme \<Rightarrow> bool" where
  "due t \<longleftrightarrow> msg_queue t \<noteq> [] \<and> when_ns (hd (msg_queue t)) \<le> global_timer t"

definition popped_timer :: "'a timer_scheme \<Rightarrow> 'a timer_scheme" where
  "popped_timer t = t\<lparr>msg_queue := butlast (pop_heap msg_key (msg_queue t))\<rparr>"

definition advance_round :: "int \<Rightarrow> 'a callback \<Rightarrow> 'a timer_scheme \<Rightarrow> message list \<times> 'a timer_scheme" where
  "advance_round now invoke t =
     (let (ran, t2) = deliver invoke (hd (msg_queue t)) (popped_timer t) in (ran, t2\<lparr>global_timer := now\<rparr>))"

lemma advance_loop_round:
  "advance_loop clock invoke n t =
     (if due t then Option.bind (advance_loop clock invoke (Suc n) (snd (advance_round (clock n) invoke t)))
          (\<lambda>(popped, log, k, t3). Some (hd (msg_queue t) # popped, fst (advance_round (clock n) invoke t) @ log, k, t3))
      else Some ([], [], n, t))"
  by (subst advance_loop.simps) (simp add: due_def advance_round_def popped_timer_def Let_def split_beta)

lemma popped_mset:
  assumes "timer_ok t" and "due t"
  shows "mset (msg_queue t) = add_mset (hd (msg_queue t)) (mset (msg_queue (popped_timer t)))" and "timer_ok (popped_timer t)"
  using assms std.mset_butlast_pop [of msg_key "msg_queue t"] std.pop_heap [of msg_key "msg_queue t"]
  by (simp_all add: due_def timer_ok_def popped_timer_def)

lemma not_due:
  assumes "timer_ok t" and "\<not> due t" and "m \<in> set (msg_queue t)"
  shows "global_timer t < when_ns m"
proof -
  have "when_ns (hd (msg_queue t)) \<le> when_ns m"
    using msg_key_hd_least [of "msg_queue t" m] assms(1,3) by (auto simp: timer_ok_def msg_key_def less_eq_prod_def)
  moreover have "msg_queue t \<noteq> []" using assms(3) by auto
  ultimately show ?thesis using assms(2) by (simp add: due_def)
qed

locale advance_rounds =
  fixes clock :: "nat \<Rightarrow> int" and invoke :: "'a callback" and Inv :: "nat \<Rightarrow> message list \<Rightarrow> 'a timer_scheme \<Rightarrow> bool"
  assumes round: "Inv n log t \<Longrightarrow> due t \<Longrightarrow>
      Inv (Suc n) (log @ fst (advance_round (clock n) invoke t)) (snd (advance_round (clock n) invoke t))"
begin

lemma loop_keeps:
  assumes "advance_loop clock invoke n t = Some (popped, log, k, t')" and "Inv n log0 t"
  shows "Inv k (log0 @ log) t' \<and> \<not> due t'"
proof -
  have "clock = clock \<longrightarrow> invoke = invoke \<longrightarrow> (\<forall>log0. Inv n log0 t \<longrightarrow>
      (case (popped, log, k, t') of (popped, log, k, t') \<Rightarrow> Inv k (log0 @ log) t' \<and> \<not> due t'))"
  proof (rule advance_loop.raw_induct [of "\<lambda>c i n t r. c = clock \<longrightarrow> i = invoke \<longrightarrow>
      (\<forall>log0. Inv n log0 t \<longrightarrow> (case r of (popped, log, k, t') \<Rightarrow> Inv k (log0 @ log) t' \<and> \<not> due t'))", OF _ assms(1)], intro impI allI)
    fix loop :: "(nat \<Rightarrow> int) \<Rightarrow> 'a callback \<Rightarrow> nat \<Rightarrow> 'a timer_scheme \<Rightarrow> (message list \<times> message list \<times> nat \<times> 'a timer_scheme) option"
      and c i n and t :: "'a timer_scheme" and r log0
    assume IH: "\<And>c i n t r. loop c i n t = Some r \<Longrightarrow> c = clock \<longrightarrow> i = invoke \<longrightarrow>
        (\<forall>log0. Inv n log0 t \<longrightarrow> (case r of (popped, log, k, t') \<Rightarrow> Inv k (log0 @ log) t' \<and> \<not> due t'))"
      and eq: "(if msg_queue t \<noteq> [] \<and> when_ns (hd (msg_queue t)) \<le> global_timer t
         then let m = hd (msg_queue t); t1 = t\<lparr>msg_queue := butlast (pop_heap msg_key (msg_queue t))\<rparr>; (ran, t2) = deliver i m t1
              in Option.bind (loop c i (Suc n) (t2\<lparr>global_timer := c n\<rparr>)) (\<lambda>(popped, log, k, t3). Some (m # popped, ran @ log, k, t3))
         else Some ([], [], n, t)) = Some r" and c: "c = clock" "i = invoke" and inv: "Inv n log0 t"
    have loop: "(if due t then Option.bind (loop clock invoke (Suc n) (snd (advance_round (clock n) invoke t)))
          (\<lambda>(popped, log, k, t3). Some (hd (msg_queue t) # popped, fst (advance_round (clock n) invoke t) @ log, k, t3))
        else Some ([], [], n, t)) = Some r"
      using eq unfolding c due_def advance_round_def popped_timer_def Let_def split_beta fst_conv snd_conv .
    show "case r of (popped, log, k, t') \<Rightarrow> Inv k (log0 @ log) t' \<and> \<not> due t'"
    proof (cases "due t")
      case True
      with loop obtain popped' log' k' t3
        where "loop clock invoke (Suc n) (snd (advance_round (clock n) invoke t)) = Some (popped', log', k', t3)"
          "r = (hd (msg_queue t) # popped', fst (advance_round (clock n) invoke t) @ log', k', t3)"
        by (auto simp: bind_eq_Some_conv)
      with IH [of clock invoke "Suc n"] round [OF inv True] show ?thesis by force
    qed (use loop inv in auto)
  qed
  with assms(2) show ?thesis by simp
qed

lemma loop_never_ends:
  assumes "\<And>n log t. Inv n log t \<Longrightarrow> due t" and "Inv n log t"
  shows "advance_loop clock invoke n t = None"
proof (cases "advance_loop clock invoke n t")
  case (Some r)
  obtain popped log' k t' where "r = (popped, log', k, t')" by (metis prod.exhaust)
  with Some loop_keeps [of n t popped log' k t' log] assms show ?thesis by blast
qed simp

lemma loop_ends:
  assumes less: "\<And>n log t. Inv n log t \<Longrightarrow> due t \<Longrightarrow> \<mu> (snd (advance_round (clock n) invoke t)) < (\<mu> t :: nat)" and "Inv n log t"
  shows "\<exists>popped log k t'. advance_loop clock invoke n t = Some (popped, log, k, t')"
  using assms(2)
proof (induction "\<mu> t" arbitrary: n log t rule: less_induct)
  case less
  show ?case
  proof (cases "due t")
    case True
    have "\<exists>popped log k t'. advance_loop clock invoke (Suc n) (snd (advance_round (clock n) invoke t)) = Some (popped, log, k, t')"
      by (rule less.hyps [OF assms(1) [OF less.prems True] round [OF less.prems True]])
    then show ?thesis using True by (subst advance_loop_round) force
  qed (subst advance_loop_round, simp)
qed

end

section \<open>A removed event\<close>

text \<open>
  No message of \<open>e\<close> can be delivered: none is queued and the event is inactive, so that one popped
  before is dropped. Code \<^emph>\<open>spares\<close> the event if it does not make that false again.
\<close>

definition silent :: "nat \<Rightarrow> 'a timer_scheme \<Rightarrow> bool" where
  "silent e t \<longleftrightarrow> timer_ok t \<and> e \<notin> active_events t \<and> (\<forall>m \<in> set (msg_queue t). msg_event m \<noteq> e)"

definition spares :: "nat \<Rightarrow> 'a callback \<Rightarrow> bool" where
  "spares e invoke \<longleftrightarrow> (\<forall>m d t. silent e t \<longrightarrow> silent e (invoke m d t))"

text \<open>
  What the owners of a timer do with it, in any order and any number of times, without posting or
  creating \<open>e\<close>: the log collects the messages whose callback has run.
\<close>

inductive timer_uses :: "nat \<Rightarrow> 'a callback \<Rightarrow> 'a timer_scheme \<Rightarrow> message list \<Rightarrow> 'a timer_scheme \<Rightarrow> bool"
  for e invoke t0 where
  start: "timer_uses e invoke t0 [] t0"
| create: "timer_uses e invoke t0 log t \<Longrightarrow> e' \<noteq> e \<Longrightarrow> timer_uses e invoke t0 log (Event_Create e' t)"
| post: "timer_uses e invoke t0 log t \<Longrightarrow> e' \<noteq> e \<Longrightarrow>
    timer_uses e invoke t0 log (snd (PostEvent now e' duration data t))"
| remove: "timer_uses e invoke t0 log t \<Longrightarrow> timer_uses e invoke t0 log (RemoveMessage h t)"
| remove_event: "timer_uses e invoke t0 log t \<Longrightarrow> timer_uses e invoke t0 log (RemoveEvent e' t)"
| advance: "timer_uses e invoke t0 log t \<Longrightarrow> Advance clock invoke t = Some (popped, runs, k, nxt, t') \<Longrightarrow>
    timer_uses e invoke t0 (log @ runs) t'"

lemma remove_messages_subset: "set (remove_messages P q) \<subseteq> set q"
  unfolding set_mset_mset [symmetric] remove_messages_mset by auto

lemma silent_RemoveMessage: "silent e t \<Longrightarrow> silent e (RemoveMessage h t)"
  using remove_messages_subset [of "\<lambda>m. handle m = h" "msg_queue t"] RemoveMessage_ok [of t h]
  by (auto simp: silent_def RemoveMessage_def)

lemma silent_RemoveEvent: "silent e t \<Longrightarrow> silent e (RemoveEvent e' t)"
  using remove_messages_subset [of "\<lambda>m. msg_event m \<in> alive_events t \<and> msg_event m = e'" "msg_queue t"] RemoveEvent_ok [of t e']
  by (auto simp: silent_def RemoveEvent_def Event_InActive_def)

lemma silent_PostEvent:
  assumes "silent e t" and "e' \<noteq> e"
  shows "silent e (snd (PostEvent now e' duration data t))"
proof -
  let ?t = "snd (PostEvent now e' duration data t)"
  have "timer_ok t" using assms(1) by (simp add: silent_def)
  note ok = PostEvent_ok [OF this, of now e' duration data]
  have "set (msg_queue ?t) = insert \<lparr>msg_event = e', when_ns = duration + now, user_data = data, handle = event_fifo_id t\<rparr> (set (msg_queue t))"
    using arg_cong [OF ok(2), of set_mset] by simp
  moreover have "active_events ?t = insert e' (active_events t)"
    by (simp add: PostEvent_def Event_Active_def Let_def)
  ultimately show ?thesis using assms ok(1) by (simp add: silent_def)
qed

lemma silent_round:
  assumes "spares e invoke" and "silent e t" and "due t"
  shows "silent e (snd (advance_round now invoke t))" and "m \<in> set (fst (advance_round now invoke t)) \<Longrightarrow> msg_event m \<noteq> e"
proof -
  have ok: "timer_ok t" using assms(2) by (simp add: silent_def)
  have "set (msg_queue t) = insert (hd (msg_queue t)) (set (msg_queue (popped_timer t)))"
    using arg_cong [OF popped_mset(1) [OF ok assms(3)], of set_mset] by simp
  then have "silent e (popped_timer t)"
    using assms(2) popped_mset(2) [OF ok assms(3)] by (simp add: silent_def popped_timer_def)
  then have "silent e (snd (deliver invoke (hd (msg_queue t)) (popped_timer t)))"
    using assms(1) by (simp add: deliver_def spares_def)
  then show "silent e (snd (advance_round now invoke t))"
    by (simp add: advance_round_def split_beta silent_def timer_ok_def)
  show "msg_event m \<noteq> e" if "m \<in> set (fst (advance_round now invoke t))"
    using that assms(2,3) by (auto simp: advance_round_def split_beta fst_deliver silent_def due_def split: if_splits)
qed

text \<open>The rounds keep a silent event silent: the interface applied to callbacks that spare it.\<close>

definition silent_log :: "nat \<Rightarrow> 'a callback \<Rightarrow> nat \<Rightarrow> message list \<Rightarrow> 'a timer_scheme \<Rightarrow> bool" where
  "silent_log e invoke n log t \<longleftrightarrow> spares e invoke \<and> silent e t \<and> (\<forall>m \<in> set log. msg_event m \<noteq> e)"

interpretation hush: advance_rounds clock invoke "silent_log e invoke" for clock invoke e
  by unfold_locales (auto simp: silent_log_def dest: silent_round)

lemma silent_Advance:
  assumes "spares e invoke" and "silent e t" and "Advance clock invoke t = Some (popped, runs, k, nxt, t')"
  shows "silent e t'" and "\<forall>m \<in> set runs. msg_event m \<noteq> e"
proof -
  let ?t = "t\<lparr>global_timer := clock 0\<rparr>"
  have loop: "advance_loop clock invoke 1 ?t = Some (popped, runs, k, t')"
    using assms(3) by (auto simp: Advance_def bind_eq_Some_conv)
  have "silent_log e invoke 1 [] ?t" using assms(1,2) by (simp add: silent_log_def silent_def timer_ok_def)
  from hush.loop_keeps [OF loop this] show "silent e t'" "\<forall>m \<in> set runs. msg_event m \<noteq> e"
    by (simp_all add: silent_log_def)
qed

lemma silent_uses:
  "timer_uses e invoke t0 log t \<Longrightarrow> spares e invoke \<Longrightarrow> silent e t0 \<Longrightarrow> silent e t \<and> (\<forall>m \<in> set log. msg_event m \<noteq> e)"
proof (induction rule: timer_uses.induct)
  case (create log t e')
  then show ?case by (auto simp: silent_def timer_ok_def Event_Create_def)
next
  case (advance log t clock popped runs k nxt t')
  then show ?case using silent_Advance [of e invoke t clock popped runs k nxt t'] by auto
qed (simp_all add: silent_PostEvent silent_RemoveMessage silent_RemoveEvent)

lemma RemoveEvent_mset:
  "e \<in> alive_events t \<Longrightarrow>
   mset (msg_queue (RemoveEvent e t)) = filter_mset (\<lambda>m. msg_event m \<noteq> e) (mset (msg_queue t))"
  by (simp add: RemoveEvent_def Event_InActive_def remove_messages_mset Let_def)
    (metis (mono_tags, lifting) filter_mset_cong)

lemma RemoveEvent_silent:
  assumes "timer_ok t" and "e \<in> alive_events t"
  shows "silent e (RemoveEvent e t)"
proof -
  have "set (msg_queue (RemoveEvent e t)) = {m \<in> set (msg_queue t). msg_event m \<noteq> e}"
    using arg_cong [OF RemoveEvent_mset [OF assms(2)], of set_mset] by simp
  then show ?thesis
    using RemoveEvent_ok [OF assms(1), of e] by (simp add: silent_def RemoveEvent_def Event_InActive_def Let_def)
qed


text \<open>A periodic task next to the removed event: the callback of event 2 posts it again a second later.\<close>

definition every_second :: "message \<Rightarrow> int \<Rightarrow> timer \<Rightarrow> timer" where
  "every_second m later t = snd (PostEvent (global_timer t) 2 1000000000 0 t)"

definition busy_timer :: timer where
  "busy_timer = snd (PostEvent 5 2 1 0 (Event_Create 2 (RemoveEvent 1 example_timer)))"

definition task_message :: message where
  "task_message = \<lparr>msg_event = 2, when_ns = 6, user_data = 0, handle = 2\<rparr>"

lemma every_second_spares: "spares 1 every_second"
  by (simp add: spares_def every_second_def silent_PostEvent)

lemma busy_timer_advance:
  "\<exists>popped k nxt t'. Advance (\<lambda>n. 7) every_second busy_timer = Some (popped, [task_message], k, nxt, t')"
proof -
  have "map_option (\<lambda>(popped, log, r). log) (Advance (\<lambda>n. 7) every_second busy_timer) = Some [task_message]"
    by code_simp
  then show ?thesis by auto
qed


end
