(* ===== verification/Dur_Timer.thy ===== *)
theory Dur_Timer
  imports Duration Timer_Rounds
begin

text \<open>
  The duration statistics on the timer: the three periodic tasks of \<^verbatim>\<open>duration.cpp\<close> (the local heart
  beat, the online heart beat, the request of the configuration) are events of the \<^verbatim>\<open>CoreTimer\<close>, which
  their own callbacks post again. The state of \<^verbatim>\<open>DurationStatistics\<close> extends the one of the timer, so that the
  loop of \<^verbatim>\<open>Advance\<close> runs on both. Handlers and callbacks run one at a time.
\<close>

section \<open>The tasks of the duration statistics\<close>

text \<open>What the world answers while one handler or callback runs: the local time, the clock at each post, the configuration.\<close>

record world =
  w_local_ms :: int
  w_post :: "nat \<Rightarrow> int"
  w_answer :: "ReportConfig option"

record ('e, 's, 'c) timed = timer +
  td_dur :: "('e, 's, 'c) dur"
  td_step :: nat

fun event_no :: "timer_event \<Rightarrow> nat" where
  "event_no RequestConfig = 0"
| "event_no LocalHeatBeat = 1"
| "event_no OnlineHeatBeat = 2"

definition event_of :: "nat \<Rightarrow> timer_event option" where
  "event_of n = (if n = 0 then Some RequestConfig else if n = 1 then Some LocalHeatBeat
     else if n = 2 then Some OnlineHeatBeat else None)"

definition ns_of_ms :: "int \<Rightarrow> int" where "ns_of_ms ms = ms * 1000000"

fun post_all :: "(nat \<Rightarrow> int) \<Rightarrow> (timer_event \<times> int) list \<Rightarrow> 'a timer_scheme \<Rightarrow> 'a timer_scheme" where
  "post_all clock [] t = t"
| "post_all clock ((e, ms) # es) t =
     post_all (\<lambda>n. clock (Suc n)) es (snd (PostEvent (clock 0) (event_no e) (ns_of_ms ms) 0 t))"

text \<open>What a handler did to the timer: it may have set the online time and posted events.\<close>

definition hand_over :: "world \<Rightarrow> ('e, 's, 'c) dur \<Rightarrow> ('e, 's, 'c) timed \<Rightarrow> ('e, 's, 'c) timed" where
  "hand_over w d s =
     (let s = (case online_set d of None \<Rightarrow> s | Some ms \<Rightarrow> SetOnlineTime (w_local_ms w) ms s)
      in post_all (w_post w) (posted d) (s\<lparr>td_dur := d\<lparr>posted := [], online_set := None\<rparr>, td_step := Suc (td_step s)\<rparr>))"

definition Timestamp :: "world \<Rightarrow> ('e, 's, 'c) timed \<Rightarrow> u64" where
  "Timestamp w s = of_int (OnlineTimestamp (w_local_ms w) s)"

definition td_call :: "('e, 's, 'c) dur_ops \<Rightarrow> world \<Rightarrow> dur_call \<Rightarrow> ('e, 's, 'c) timed \<Rightarrow> ('e, 's, 'c) timed" where
  "td_call P w call s = hand_over w (dur_handle P (td_dur s) (Timestamp w s, call)) s"

definition run_task :: "('e, 's, 'c) dur_ops \<Rightarrow> world \<Rightarrow> timer_event \<Rightarrow> ('e, 's, 'c) timed \<Rightarrow> ('e, 's, 'c) timed" where
  "run_task P w e s =
     hand_over w (case e of RequestConfig \<Rightarrow> request_config_cb P (w_answer w) (td_dur s)
       | LocalHeatBeat \<Rightarrow> local_heat_beat_cb P (Timestamp w s) (td_dur s)
       | OnlineHeatBeat \<Rightarrow> online_heat_beat_cb (Timestamp w s) (td_dur s)) s"

text \<open>Running the callback of a message; messages of other components' events leave this state alone.\<close>

definition dur_invoke :: "('e, 's, 'c) dur_ops \<Rightarrow> (nat \<Rightarrow> world) \<Rightarrow> message \<Rightarrow> int \<Rightarrow> ('e, 's, 'c) timed \<Rightarrow> ('e, 's, 'c) timed" where
  "dur_invoke P worlds m later s =
     (case event_of (msg_event m) of None \<Rightarrow> s | Some e \<Rightarrow> run_task P (worlds (td_step s)) e s)"

text \<open>\<^verbatim>\<open>DurationStatistics::Init\<close> on a running timer: the events are created and the two heart beats posted.\<close>

definition td_Init ::
    "('e, 's, 'c) dur_ops \<Rightarrow> (string \<times> DeviceType \<times> DeviceInfo option) option \<Rightarrow> string \<Rightarrow> string \<Rightarrow> world
     \<Rightarrow> ('e, 's, 'c) timed \<Rightarrow> ('e, 's, 'c) timed throws" where
  "td_Init P device version uuid w s =
     throws_bind (Init_dur P device version uuid (Timestamp w s) (td_dur s)) (\<lambda>d.
       Inr (hand_over w d (Event_Create 0 (Event_Create 2 (Event_Create 1 s)))))"

section \<open>Pending messages\<close>

definition is_task :: "timer_event \<Rightarrow> message \<Rightarrow> bool" where
  "is_task e m \<longleftrightarrow> msg_event m = event_no e"

definition pending :: "timer_event \<Rightarrow> 'a timer_scheme \<Rightarrow> message multiset" where
  "pending e t = filter_mset (is_task e) (mset (msg_queue t))"

definition task_msg :: "timer_event \<Rightarrow> int \<Rightarrow> int \<Rightarrow> u32 \<Rightarrow> message" where
  "task_msg e now ms h = \<lparr>msg_event = event_no e, when_ns = ns_of_ms ms + now, user_data = 0, handle = h\<rparr>"

lemma event_no_eq [simp]: "event_no e = event_no e' \<longleftrightarrow> e = e'"
  by (cases e; cases e') simp_all

lemma event_of_no [simp]: "event_of (event_no e) = Some e" "event_of n = Some e \<longleftrightarrow> n = event_no e"
  by (cases e; auto simp: event_of_def)+

fun posts_of :: "(nat \<Rightarrow> int) \<Rightarrow> u32 \<Rightarrow> (timer_event \<times> int) list \<Rightarrow> message list" where
  "posts_of clock h [] = []"
| "posts_of clock h ((e, ms) # es) = task_msg e (clock 0) ms h # posts_of (\<lambda>n. clock (Suc n)) (h + 1) es"

lemma PostEvent_frame:
  "alive_events (snd (PostEvent now e ms x t)) = alive_events t"
  "active_events (snd (PostEvent now e ms x t)) = insert e (active_events t)"
  "global_timer (snd (PostEvent now e ms x t)) = global_timer t"
  "event_fifo_id (snd (PostEvent now e ms x t)) = event_fifo_id t + 1"
  "timer.more (snd (PostEvent now e ms x t)) = timer.more t"
  by (simp_all add: PostEvent_def Let_def Event_Active_def)

lemma post_all_frame:
  "alive_events (post_all clock es t) = alive_events t" "global_timer (post_all clock es t) = global_timer t"
  "active_events t \<subseteq> active_events (post_all clock es t)" "timer.more (post_all clock es t) = timer.more t"
  by (induction clock es t rule: post_all.induct) (auto simp: PostEvent_frame)

lemma post_all_queue:
  "timer_ok t \<Longrightarrow> timer_ok (post_all clock es t) \<and>
     mset (msg_queue (post_all clock es t)) = mset (msg_queue t) + mset (posts_of clock (event_fifo_id t) es)"
  by (induction clock es t rule: post_all.induct) (auto simp: PostEvent_ok PostEvent_frame task_msg_def add.commute)

text \<open>The state between two callbacks: the queue is a heap, the events of the component live, all posts are handed over.\<close>

definition tasks_ok :: "('e, 's, 'c) timed \<Rightarrow> bool" where
  "tasks_ok s \<longleftrightarrow> timer_ok s \<and> posted (td_dur s) = [] \<and> {0, 1, 2} \<subseteq> alive_events s \<inter> active_events s"

definition with_dur :: "('e, 's, 'c) dur \<Rightarrow> ('e, 's, 'c) timed \<Rightarrow> ('e, 's, 'c) timed" where
  "with_dur d s = s\<lparr>td_dur := d, td_step := Suc (td_step s)\<rparr>"

lemma td_dur_post_all [simp]:
  "td_dur (post_all clock es (s :: ('e, 's, 'c) timed)) = td_dur s" "td_step (post_all clock es s) = td_step s"
proof -
  have "timer.more (post_all clock es s) = timer.more s" by (rule post_all_frame)
  then show "td_dur (post_all clock es s) = td_dur s" "td_step (post_all clock es s) = td_step s"
    by (cases "post_all clock es s"; cases s; simp)+
qed

lemma hand_over_frame:
  "td_dur (hand_over w d s) = d\<lparr>posted := [], online_set := None\<rparr>" "td_step (hand_over w d s) = Suc (td_step s)"
  "global_timer (hand_over w d s) = global_timer s" "alive_events (hand_over w d s) = alive_events s"
  by (simp_all add: hand_over_def SetOnlineTime_def post_all_frame Let_def split: option.split)

lemma hand_over_queue:
  assumes "timer_ok s"
  shows "timer_ok (hand_over w d s)" "active_events s \<subseteq> active_events (hand_over w d s)"
    "mset (msg_queue (hand_over w d s)) = mset (msg_queue s) + mset (posts_of (w_post w) (event_fifo_id s) (posted d))"
proof -
  let ?s = "(case online_set d of None \<Rightarrow> s | Some ms \<Rightarrow> SetOnlineTime (w_local_ms w) ms s)
    \<lparr>td_dur := d\<lparr>posted := [], online_set := None\<rparr>, td_step := Suc (td_step s)\<rparr>"
  have h: "hand_over w d s = post_all (w_post w) (posted d) ?s"
    by (simp add: hand_over_def SetOnlineTime_def Let_def split: option.split)
  have s: "timer_ok ?s" "event_fifo_id ?s = event_fifo_id s" "msg_queue ?s = msg_queue s" "active_events ?s = active_events s"
    using assms by (simp_all add: timer_ok_def SetOnlineTime_def split: option.split)
  show "timer_ok (hand_over w d s)" "active_events s \<subseteq> active_events (hand_over w d s)"
    "mset (msg_queue (hand_over w d s)) = mset (msg_queue s) + mset (posts_of (w_post w) (event_fifo_id s) (posted d))"
    using post_all_queue [OF s(1), of "w_post w" "posted d"] post_all_frame(3) [of ?s "w_post w" "posted d"]
    unfolding h s(2-4) by simp_all
qed

lemma hand_over_ok: "tasks_ok s \<Longrightarrow> tasks_ok (hand_over w d s)"
  using hand_over_queue [of s w d] by (auto simp: tasks_ok_def hand_over_frame)

section \<open>What the handlers post\<close>

lemma posted_frame [simp]:
  "posted (update_session P d) = posted d" "posted (store_and_put P e d) = posted d" "posted (dur_put e d) = posted d"
  "posted (stamp_session now d) = posted d" "posted (set_session_user d) = posted d"
  "posted (post_event x ms d) = posted d @ [(x, ms)]" "posted (InitReportThread d) = posted d" "posted (Stop_dur d) = posted d"
  by (simp_all add: update_session_def UpdateSession_def store_and_put_def dur_put_def stamp_session_def set_session_user_def
      post_event_def InitReportThread_def Stop_dur_def Let_def split_beta)

lemma RefreshConfig_posted [simp]: "posted (RefreshConfig P c net d) = posted d"
  by (simp add: RefreshConfig_def Let_def split_beta)

lemma tick_frame [simp]:
  "online_tick_interval (update_session P d) = online_tick_interval d"
  by (simp add: update_session_def UpdateSession_def split_beta)

text \<open>After how many milliseconds a callback posts its own event again, if it does.\<close>

definition next_post :: "world \<Rightarrow> timer_event \<Rightarrow> ('e, 's, 'c) dur \<Rightarrow> (timer_event \<times> int) list" where
  "next_post w e d = (case e of LocalHeatBeat \<Rightarrow> [(LocalHeatBeat, 5000)] | OnlineHeatBeat \<Rightarrow> [(OnlineHeatBeat, online_tick_interval d)]
     | RequestConfig \<Rightarrow> if w_answer w = None then [(RequestConfig, 3000)] else [])"

lemma task_posts:
  "posted (case e of RequestConfig \<Rightarrow> request_config_cb P (w_answer w) d | LocalHeatBeat \<Rightarrow> local_heat_beat_cb P now d
       | OnlineHeatBeat \<Rightarrow> online_heat_beat_cb now d) = posted d @ next_post w e d"
  by (auto simp: next_post_def request_config_cb_def local_heat_beat_cb_def online_heat_beat_cb_def local_heat_beat_interval_def
      Let_def dur_put_def split: timer_event.split option.split)

lemma call_posts:
  "c \<noteq> CallLocalBeat \<Longrightarrow> posted (dur_handle P d (now, c)) =
     posted d @ (case c of CallGameStart gid pkg \<Rightarrow> [(RequestConfig, 0)] | _ \<Rightarrow> [])"
  by (cases c) (auto simp: GameStart_def OnForeground_def OnBackground_def OnNewUser_def assert_that_def throws_bind_def Let_def
      split: option.split sum.split)

lemma init_posts:
  "Init_dur P device version uuid now d = Inr d' \<Longrightarrow> \<exists>ms. posted d' = posted d @ [(LocalHeatBeat, 5000), (OnlineHeatBeat, ms)]"
  by (auto simp: Init_dur_def NewGameSession_def InitHeatBeats_def InitHistory_def InitRequest_def local_heat_beat_interval_def Let_def
      split: option.splits if_splits)

section \<open>One round of the loop\<close>

definition task_result :: "('e, 's, 'c) dur_ops \<Rightarrow> world \<Rightarrow> u64 \<Rightarrow> timer_event \<Rightarrow> ('e, 's, 'c) dur \<Rightarrow> ('e, 's, 'c) dur" where
  "task_result P w now e d =
     (case e of RequestConfig \<Rightarrow> request_config_cb P (w_answer w) d | LocalHeatBeat \<Rightarrow> local_heat_beat_cb P now d
       | OnlineHeatBeat \<Rightarrow> online_heat_beat_cb now d)\<lparr>posted := [], online_set := None\<rparr>"

lemma run_task_effect:
  assumes "tasks_ok s"
  shows "tasks_ok (run_task P w e s)" "td_dur (run_task P w e s) = task_result P w (Timestamp w s) e (td_dur s)"
    "mset (msg_queue (run_task P w e s)) = mset (msg_queue s) + mset (posts_of (w_post w) (event_fifo_id s) (next_post w e (td_dur s)))"
proof -
  show "tasks_ok (run_task P w e s)" unfolding run_task_def by (rule hand_over_ok [OF assms])
  show "td_dur (run_task P w e s) = task_result P w (Timestamp w s) e (td_dur s)"
    by (simp add: run_task_def hand_over_frame task_result_def cong: timer_event.case_cong)
  show "mset (msg_queue (run_task P w e s)) =
      mset (msg_queue s) + mset (posts_of (w_post w) (event_fifo_id s) (next_post w e (td_dur s)))"
    using hand_over_queue(3) [of s w] assms by (simp add: run_task_def task_posts tasks_ok_def)
qed

lemma event_no_range: "event_no e \<in> {0, 1, 2}"
  by (cases e) simp_all

lemma round_effect:
  fixes s :: "('e, 's, 'c) timed"
  assumes "tasks_ok s" and "due s" and a: "a = advance_round now (dur_invoke P worlds) s" and m: "m = hd (msg_queue s)"
  shows "tasks_ok (snd a)" "global_timer (snd a) = now" "td_step (snd a) \<in> {td_step s..Suc (td_step s)}"
    "event_of (msg_event m) = None \<Longrightarrow> td_dur (snd a) = td_dur s \<and> add_mset m (mset (msg_queue (snd a))) = mset (msg_queue s)"
    "event_of (msg_event m) = Some e \<Longrightarrow> fst a = [m] \<and> (\<exists>t h. td_dur (snd a) = task_result P (worlds (td_step s)) t e (td_dur s)
       \<and> add_mset m (mset (msg_queue (snd a))) = mset (msg_queue s) +
            mset (posts_of (w_post (worlds (td_step s))) h (next_post (worlds (td_step s)) e (td_dur s))))"
proof -
  let ?s = "popped_timer s" and ?w = "worlds (td_step s)"
  have q: "mset (msg_queue s) = add_mset m (mset (msg_queue ?s))" and "timer_ok ?s"
    using popped_mset [of s] assms(1,2) by (simp_all add: m tasks_ok_def)
  then have ok: "tasks_ok ?s" using assms(1) by (simp add: tasks_ok_def popped_timer_def)
  have eq: "td_dur ?s = td_dur s" "td_step ?s = td_step s" "alive_events ?s = alive_events s" "active_events ?s = active_events s"
    by (simp_all add: popped_timer_def)
  have some: "a = ([m], (run_task P ?w e ?s)\<lparr>global_timer := now\<rparr>)" if e: "event_of (msg_event m) = Some e" for e
  proof -
    have "msg_event m \<in> alive_events ?s \<inter> active_events ?s"
      using ok e event_no_range [of e] unfolding tasks_ok_def by (auto simp del: event_no.simps)
    then show ?thesis using e eq by (simp add: a m advance_round_def deliver_def Event_IsActive_def dur_invoke_def)
  qed
  have none: "snd a = ?s\<lparr>global_timer := now\<rparr>" if "event_of (msg_event m) = None"
    using that by (simp add: a m advance_round_def deliver_def dur_invoke_def)
  have clock: "tasks_ok (t\<lparr>global_timer := now\<rparr>) = tasks_ok t" for t :: "('e, 's, 'c) timed"
    by (simp add: tasks_ok_def timer_ok_def)
  show "tasks_ok (snd a)" "global_timer (snd a) = now" "td_step (snd a) \<in> {td_step s..Suc (td_step s)}"
    using some none ok eq run_task_effect(1) [OF ok, of P ?w] clock
    by (cases "event_of (msg_event m)"; simp add: run_task_def hand_over_frame)+
  show "td_dur (snd a) = td_dur s \<and> add_mset m (mset (msg_queue (snd a))) = mset (msg_queue s)"
    if "event_of (msg_event m) = None" using none [OF that] q eq by simp
  show "fst a = [m] \<and> (\<exists>t h. td_dur (snd a) = task_result P ?w t e (td_dur s) \<and> add_mset m (mset (msg_queue (snd a))) =
      mset (msg_queue s) + mset (posts_of (w_post ?w) h (next_post ?w e (td_dur s))))"
    if "event_of (msg_event m) = Some e"
    using some [OF that] run_task_effect(2,3) [OF ok, of P ?w e] q eq by auto
qed

lemma posts_own:
  "filter (is_task e') (posts_of clock h (next_post w e d)) = (if e = e' then posts_of clock h (next_post w e d) else [])"
  by (auto simp: next_post_def is_task_def task_msg_def simp del: event_no.simps split: timer_event.split)

lemma round_pending:
  fixes s :: "('e, 's, 'c) timed"
  assumes "tasks_ok s" and "due s" and a: "a = advance_round now (dur_invoke P worlds) s" and m: "m = hd (msg_queue s)"
  shows "\<not> is_task e m \<Longrightarrow> pending e (snd a) = pending e s \<and> filter (is_task e) (fst a) = []"
    "is_task e m \<Longrightarrow> filter (is_task e) (fst a) = [m] \<and> m \<in># pending e s
       \<and> (\<exists>h. pending e (snd a) = pending e s - {#m#} +
            mset (posts_of (w_post (worlds (td_step s))) h (next_post (worlds (td_step s)) e (td_dur s))))"
proof -
  have "fst a = [] \<or> fst a = [m]" by (simp add: a m advance_round_def fst_deliver split_beta)
  then have log: "filter (is_task e) (fst a) = []" if "\<not> is_task e m" using that by auto
  show "pending e (snd a) = pending e s \<and> filter (is_task e) (fst a) = []" if "\<not> is_task e m"
  proof (cases "event_of (msg_event m)")
    case None
    from arg_cong [OF conjunct2 [OF round_effect(4) [OF assms None]], of "filter_mset (is_task e)"] that log [OF that]
    show ?thesis by (simp add: pending_def)
  next
    case (Some e')
    then have "e' \<noteq> e" using that by (auto simp: is_task_def)
    obtain h where "add_mset m (mset (msg_queue (snd a))) = mset (msg_queue s) +
        mset (posts_of (w_post (worlds (td_step s))) h (next_post (worlds (td_step s)) e' (td_dur s)))"
      using round_effect(5) [OF assms Some] by blast
    from arg_cong [OF this, of "filter_mset (is_task e)"] that log [OF that] \<open>e' \<noteq> e\<close>
    show ?thesis by (simp add: pending_def posts_own flip: mset_filter)
  qed
  assume e: "is_task e m"
  then have "event_of (msg_event m) = Some e" by (simp add: is_task_def)
  from round_effect(5) [OF assms this] obtain h where fst: "fst a = [m]" and q: "add_mset m (mset (msg_queue (snd a))) =
      mset (msg_queue s) + mset (posts_of (w_post (worlds (td_step s))) h (next_post (worlds (td_step s)) e (td_dur s)))" by blast
  have m': "m \<in># pending e s" using assms(2) e m by (auto simp: pending_def due_def)
  from arg_cong [OF q, of "filter_mset (is_task e)"] e
  have "add_mset m (pending e (snd a)) = pending e s + mset (posts_of (w_post (worlds (td_step s))) h (next_post (worlds (td_step s)) e (td_dur s)))"
    by (simp add: pending_def posts_own flip: mset_filter)
  then have "pending e (snd a) = pending e s - {#m#} + mset (posts_of (w_post (worlds (td_step s))) h (next_post (worlds (td_step s)) e (td_dur s)))"
    using m' by (metis add_mset_remove_trivial diff_union_single_conv union_commute)
  with m' fst e show "filter (is_task e) (fst a) = [m] \<and> m \<in># pending e s \<and> (\<exists>h. pending e (snd a) = pending e s - {#m#} +
            mset (posts_of (w_post (worlds (td_step s))) h (next_post (worlds (td_step s)) e (td_dur s))))" by auto
qed

section \<open>The heart beats\<close>

definition beats_inv :: "int \<Rightarrow> ('e, 's, 'c) timed \<Rightarrow> bool" where
  "beats_inv T s \<longleftrightarrow> tasks_ok s \<and> size (pending LocalHeatBeat s) = 1 \<and> size (pending OnlineHeatBeat s) = 1
     \<and> (\<forall>m \<in># pending LocalHeatBeat s. when_ns m \<le> T + ns_of_ms 5000)"

definition posts_until :: "int \<Rightarrow> (nat \<Rightarrow> world) \<Rightarrow> bool" where
  "posts_until T worlds \<longleftrightarrow> (\<forall>i j. w_post (worlds i) j \<le> T)"

lemma single_repost [simp]: "size M = Suc 0 \<Longrightarrow> m \<in># M \<Longrightarrow> M - {#m#} = {#}"
  by (metis One_nat_def add_mset_remove_trivial insert_DiffM size_1_singleton_mset add_mset_eq_single)

lemma beats_inv_round:
  assumes "beats_inv T s" and "posts_until T worlds" and "due s"
  shows "beats_inv T (snd (advance_round now (dur_invoke P worlds) s))"
proof -
  let ?a = "advance_round now (dur_invoke P worlds) s" and ?m = "hd (msg_queue s)"
  have ok: "tasks_ok s" using assms(1) by (simp add: beats_inv_def)
  note p = round_pending [OF ok assms(3) refl refl, of _ now P worlds]
  have "size (pending LocalHeatBeat (snd ?a)) = 1 \<and> (\<forall>m \<in># pending LocalHeatBeat (snd ?a). when_ns m \<le> T + ns_of_ms 5000)"
  proof (cases "is_task LocalHeatBeat ?m")
    case True
    from p(2) [OF this] assms(1,2) show ?thesis by (auto simp: beats_inv_def next_post_def task_msg_def posts_until_def)
  next
    case False
    from p(1) [OF this] assms(1) show ?thesis by (simp add: beats_inv_def)
  qed
  moreover have "size (pending OnlineHeatBeat (snd ?a)) = 1"
  proof (cases "is_task OnlineHeatBeat ?m")
    case True
    from p(2) [OF this] assms(1) show ?thesis by (auto simp: beats_inv_def next_post_def)
  next
    case False
    from p(1) [OF this] assms(1) show ?thesis by (simp add: beats_inv_def)
  qed
  ultimately show ?thesis using round_effect(1) [OF ok assms(3) refl refl] by (simp add: beats_inv_def)
qed

interpretation beats: advance_rounds clock "dur_invoke P worlds" "\<lambda>n log s. beats_inv T s \<and> posts_until T worlds" for clock P worlds T
  by unfold_locales (simp add: beats_inv_round)

lemma Advance_keeps:
  assumes "Advance clock (dur_invoke P worlds) s = Some (popped, log, k, nxt, s')" and "beats_inv T s" and "posts_until T worlds"
  shows "beats_inv T s'" "\<not> due s'"
proof -
  have inv: "beats_inv T (s\<lparr>global_timer := clock 0\<rparr>) \<and> posts_until T worlds"
    using assms(2,3) by (simp add: beats_inv_def tasks_ok_def timer_ok_def pending_def)
  from assms(1) have "advance_loop clock (dur_invoke P worlds) 1 (s\<lparr>global_timer := clock 0\<rparr>) = Some (popped, log, k, s')"
    by (auto simp: Advance_def bind_eq_Some_conv)
  from beats.loop_keeps [OF this inv] show "beats_inv T s'" "\<not> due s'" by simp_all
qed

text \<open>
  The states of a run: an initialisation, then calls of the application and rounds of the timer thread in
  any order. All readings of the clock by posts so far are at most \<open>T\<close>.
\<close>

inductive td_reachable :: "('e, 's, 'c) dur_ops \<Rightarrow> int \<Rightarrow> ('e, 's, 'c) timed \<Rightarrow> bool" for P where
  init: "timer_ok s \<Longrightarrow> posted (td_dur s) = [] \<Longrightarrow> \<forall>e. pending e s = {#} \<Longrightarrow> posts_until T (\<lambda>_. w)
     \<Longrightarrow> td_Init P device version uuid w s = Inr s' \<Longrightarrow> td_reachable P T s'"
| call: "td_reachable P T s \<Longrightarrow> c \<noteq> CallLocalBeat \<Longrightarrow> posts_until T (\<lambda>_. w) \<Longrightarrow> td_reachable P T (td_call P w c s)"
| advance: "td_reachable P T s \<Longrightarrow> posts_until T worlds \<Longrightarrow> Advance clock (dur_invoke P worlds) s = Some (popped, log, k, nxt, s')
     \<Longrightarrow> td_reachable P T s'"
| later: "td_reachable P T s \<Longrightarrow> T \<le> T' \<Longrightarrow> td_reachable P T' s"

lemma call_pending:
  assumes "tasks_ok s" and "c \<noteq> CallLocalBeat"
  shows "tasks_ok (td_call P w c s)" "e \<noteq> RequestConfig \<Longrightarrow> pending e (td_call P w c s) = pending e s"
    "size (pending RequestConfig (td_call P w c s)) = size (pending RequestConfig s) + (case c of CallGameStart gid pkg \<Rightarrow> 1 | _ \<Rightarrow> 0)"
proof -
  have q: "mset (msg_queue (td_call P w c s)) = mset (msg_queue s) + mset (posts_of (w_post w) (event_fifo_id s)
      (case c of CallGameStart gid pkg \<Rightarrow> [(RequestConfig, 0)] | _ \<Rightarrow> []))"
    using hand_over_queue(3) [of s w] assms by (simp add: td_call_def call_posts tasks_ok_def)
  show "tasks_ok (td_call P w c s)" unfolding td_call_def by (rule hand_over_ok [OF assms(1)])
  show "pending e (td_call P w c s) = pending e s" if "e \<noteq> RequestConfig"
    using that q by (auto simp: pending_def is_task_def task_msg_def simp del: event_no.simps split: dur_call.split)
  show "size (pending RequestConfig (td_call P w c s)) = size (pending RequestConfig s) + (case c of CallGameStart gid pkg \<Rightarrow> 1 | _ \<Rightarrow> 0)"
    using q by (auto simp: pending_def is_task_def task_msg_def split: dur_call.split)
qed

lemma init_beats:
  assumes "timer_ok s" and "posted (td_dur s) = []" and "\<forall>e. pending e s = {#}" and "posts_until T (\<lambda>_. w)"
    and "td_Init P device version uuid w s = Inr s'"
  shows "beats_inv T s'" and "pending RequestConfig s' = {#}"
proof -
  let ?s = "Event_Create 0 (Event_Create 2 (Event_Create 1 s))"
  obtain d where d: "Init_dur P device version uuid (Timestamp w s) (td_dur s) = Inr d" "s' = hand_over w d ?s"
    using assms(5) by (auto simp: td_Init_def throws_bind_def split: sum.splits)
  obtain ms where p: "posted d = [(LocalHeatBeat, 5000), (OnlineHeatBeat, ms)]" using init_posts [OF d(1)] assms(2) by auto
  have ok: "tasks_ok ?s" using assms(1,2) by (simp add: tasks_ok_def Event_Create_def timer_ok_def)
  then have t: "timer_ok ?s" by (simp add: tasks_ok_def)
  have e: "pending e s' = filter_mset (is_task e) (mset (posts_of (w_post w) (event_fifo_id ?s) (posted d)))" for e
    using assms(3) hand_over_queue(3) [OF t, of w d] by (simp add: d(2) Event_Create_def pending_def)
  from hand_over_ok [OF ok] show "beats_inv T s'" "pending RequestConfig s' = {#}"
    using e assms(4) by (auto simp: beats_inv_def d(2) p is_task_def task_msg_def posts_until_def)
qed

lemma td_reachable_inv: "td_reachable P T s \<Longrightarrow> beats_inv T s"
proof (induction rule: td_reachable.induct)
  case (init s T w device version uuid s')
  then show ?case by (rule init_beats(1))
next
  case (call T s c w)
  then show ?case by (simp add: beats_inv_def call_pending)
next
  case (advance T s worlds clock popped log k nxt s')
  from Advance_keeps(1) [OF advance.hyps(3) advance.IH advance.hyps(2)] show ?case .
next
  case (later T s T')
  then show ?case by (force simp: beats_inv_def)
qed

text \<open>
  C20: the heart beats neither stop nor multiply. However calls of the application and rounds of the timer
  thread follow each other after \<^verbatim>\<open>Init\<close>, exactly one local and one online heart beat are pending, and the
  local one is due at most five seconds after the last reading of the clock.
\<close>

theorem heart_beats_once:
  assumes "td_reachable P T s"
  shows "size (pending LocalHeatBeat s) = 1 \<and> size (pending OnlineHeatBeat s) = 1
     \<and> (\<forall>m \<in># pending LocalHeatBeat s. when_ns m \<le> T + 5000000000)"
  using td_reachable_inv [OF assms] by (simp add: beats_inv_def ns_of_ms_def)

definition demo_world :: "int \<Rightarrow> world" where
  "demo_world now = \<lparr>w_local_ms = now, w_post = (\<lambda>_. ns_of_ms now), w_answer = None\<rparr>"

definition demo_timed :: "(nat \<times> (nat \<times> DurEvent) list, nat \<times> (nat \<times> GameSession) list, nat \<times> (nat \<times> ReportConfig) list) timed" where
  "demo_timed = \<lparr>msg_queue = [], event_fifo_id = 0, active_events = {}, alive_events = {}, global_timer = 0, host_set = False,
     online_time_set = False, online_time = 0, time_ep_since_online = 0, td_dur = example_dur, td_step = 0\<rparr>"

lemma demo_task_init:
  "\<exists>s. td_Init example_ops (Some (''dev'', Local, None)) ''1'' ''uuid'' (demo_world 0) demo_timed = Inr s \<and> td_reachable example_ops 0 s"
proof -
  obtain s where s: "td_Init example_ops (Some (''dev'', Local, None)) ''1'' ''uuid'' (demo_world 0) demo_timed = Inr s"
    by (auto simp: td_Init_def Init_dur_def throws_bind_def Let_def)
  have "td_reachable example_ops 0 s"
    by (rule td_reachable.init [OF _ _ _ _ s])
      (simp_all add: demo_timed_def example_dur_def timer_ok_def is_heap_def pending_def posts_until_def demo_world_def ns_of_ms_def)
  with s show ?thesis by blast
qed

theorem heart_beats_once_witness:
  "\<exists>s. td_Init example_ops (Some (''dev'', Local, None)) ''1'' ''uuid'' (demo_world 0) demo_timed = Inr s
     \<and> size (pending LocalHeatBeat (td_call example_ops (demo_world 0) CallForeground s)) = 1"
proof -
  obtain s where s: "td_Init example_ops (Some (''dev'', Local, None)) ''1'' ''uuid'' (demo_world 0) demo_timed = Inr s"
    and r: "td_reachable example_ops 0 s" using demo_task_init by blast
  have "td_reachable example_ops 0 (td_call example_ops (demo_world 0) CallForeground s)"
    by (rule td_reachable.call [OF r]) (simp_all add: posts_until_def demo_world_def ns_of_ms_def)
  from heart_beats_once [OF this] s show ?thesis by blast
qed

section \<open>Requests of the configuration\<close>

definition no_answer :: "(nat \<Rightarrow> world) \<Rightarrow> bool" where
  "no_answer worlds \<longleftrightarrow> (\<forall>i. w_answer (worlds i) = None)"

lemma requests_round:
  assumes "tasks_ok s" and "no_answer worlds" and "due s"
  shows "size (pending RequestConfig (snd (advance_round now (dur_invoke P worlds) s))) = size (pending RequestConfig s)"
proof (cases "is_task RequestConfig (hd (msg_queue s))")
  case True
  from round_pending(2) [OF assms(1,3) refl refl this, of now P worlds] assms(2) show ?thesis
    by (auto simp: next_post_def no_answer_def size_Suc_Diff1)
next
  case False
  from round_pending(1) [OF assms(1,3) refl refl this, of now P worlds] show ?thesis by simp
qed

interpretation requests: advance_rounds clock "dur_invoke P worlds"
    "\<lambda>n log s. tasks_ok s \<and> no_answer worlds \<and> size (pending RequestConfig s) = N" for clock P worlds N
  by unfold_locales (auto simp: requests_round intro: round_effect(1))

text \<open>
  Requests of the configuration are never given up, and they add up. Every game start posts one more
  request; while the server gives no configuration, every call of \<^verbatim>\<open>Advance\<close> leaves as many requests pending as
  it found, for every failed one is posted again. The counter \<^verbatim>\<open>config_retry_times\<close> is a local variable of the
  callback, set to 3 each time, and bounds nothing.
\<close>

theorem config_requests_kept:
  assumes "td_reachable P T s"
  shows "size (pending RequestConfig (td_call P w (CallGameStart gid pkg) s)) = Suc (size (pending RequestConfig s)) \<and>
    (no_answer worlds \<longrightarrow> Advance clock (dur_invoke P worlds) s = Some (popped, log, k, nxt, s') \<longrightarrow>
       size (pending RequestConfig s') = size (pending RequestConfig s))"
proof -
  have ok: "tasks_ok s" using td_reachable_inv [OF assms] by (simp add: beats_inv_def)
  then have inv: "tasks_ok (s\<lparr>global_timer := clock 0\<rparr>)" "pending RequestConfig (s\<lparr>global_timer := clock 0\<rparr>) = pending RequestConfig s"
    by (simp_all add: tasks_ok_def timer_ok_def pending_def)
  have "size (pending RequestConfig s') = size (pending RequestConfig s)"
    if "no_answer worlds" "Advance clock (dur_invoke P worlds) s = Some (popped, log, k, nxt, s')"
  proof -
    from that(2) have "advance_loop clock (dur_invoke P worlds) 1 (s\<lparr>global_timer := clock 0\<rparr>) = Some (popped, log, k, s')"
      by (auto simp: Advance_def bind_eq_Some_conv)
    from requests.loop_keeps [OF this, of "size (pending RequestConfig s)"] inv that(1) show ?thesis by simp
  qed
  then show ?thesis using call_pending(3) [OF ok, of "CallGameStart gid pkg"] by simp
qed

section \<open>A round of the timer thread ends\<close>

text \<open>No period is shorter than three seconds; and the whole round takes less than that, by all clocks read in it.\<close>

definition slow :: "('e, 's, 'c) dur \<Rightarrow> bool" where
  "slow d \<longleftrightarrow> 3000 \<le> online_tick_interval d"

definition slow_config :: "ReportConfig \<Rightarrow> bool" where
  "slow_config c \<longleftrightarrow> 3000 \<le> uint (rc_tap_frequency c * 1000) \<and> 3000 \<le> uint (rc_no_tap_frequency c * 1000)"

definition in_window :: "int \<Rightarrow> int \<Rightarrow> (nat \<Rightarrow> int) \<Rightarrow> (nat \<Rightarrow> world) \<Rightarrow> bool" where
  "in_window a b clock worlds \<longleftrightarrow> (\<forall>n. a \<le> clock n \<and> clock n \<le> b) \<and> (\<forall>i j. a \<le> w_post (worlds i) j \<and> w_post (worlds i) j \<le> b)
     \<and> b < a + ns_of_ms 3000 \<and> (\<forall>i c. w_answer (worlds i) = Some c \<longrightarrow> slow_config c)"

lemma RefreshConfig_slow: "slow_config c \<Longrightarrow> slow (RefreshConfig P c True d)"
  by (simp add: slow_def slow_config_def RefreshConfig_def Stop_dur_def InitReportThread_def pick_interval_def Let_def split_beta)

lemma task_slow:
  assumes "slow d" and "\<And>c. w_answer w = Some c \<Longrightarrow> slow_config c"
  shows "slow (task_result P w now e d)"
proof -
  have "slow (d\<lparr>posted := p, online_set := x\<rparr>) = slow d" for d :: "('a, 'b, 'c) dur" and p x by (simp add: slow_def)
  then show ?thesis
    using assms RefreshConfig_slow
    by (auto simp: task_result_def request_config_cb_def local_heat_beat_cb_def online_heat_beat_cb_def post_event_def dur_put_def
        slow_def Let_def split: timer_event.split option.split)
qed

lemma late_posts:
  assumes "in_window a b clock worlds" and "slow d" and "m \<in> set (posts_of (w_post (worlds i)) h (next_post (worlds i) e d))"
  shows "b < when_ns m"
proof -
  have "a \<le> w_post (worlds i) 0" "b < a + ns_of_ms 3000" using assms(1) by (auto simp: in_window_def)
  with assms(2,3) show ?thesis
    by (auto simp: next_post_def task_msg_def slow_def ns_of_ms_def split: timer_event.splits if_splits)
qed

definition window_inv :: "int \<Rightarrow> int \<Rightarrow> (nat \<Rightarrow> int) \<Rightarrow> (nat \<Rightarrow> world) \<Rightarrow> message list \<Rightarrow> ('e, 's, 'c) timed \<Rightarrow> bool" where
  "window_inv a b clock worlds log s \<longleftrightarrow> in_window a b clock worlds \<and> tasks_ok s \<and> slow (td_dur s)
     \<and> a \<le> global_timer s \<and> global_timer s \<le> b \<and> size (pending LocalHeatBeat s) = 1
     \<and> (if filter (is_task LocalHeatBeat) log = [] then \<forall>m \<in># pending LocalHeatBeat s. when_ns m \<le> a
        else length (filter (is_task LocalHeatBeat) log) = 1 \<and>
             (\<forall>m \<in># pending LocalHeatBeat s. a + ns_of_ms 5000 \<le> when_ns m \<and> when_ns m \<le> b + ns_of_ms 5000))"

definition early :: "int \<Rightarrow> 'a timer_scheme \<Rightarrow> nat" where
  "early b t = size (filter_mset (\<lambda>m. when_ns m \<le> b) (mset (msg_queue t)))"

lemma window_round:
  fixes s :: "('e, 's, 'c) timed"
  assumes inv: "window_inv a b clock worlds log s" and "due s" and A: "A = advance_round (clock n) (dur_invoke P worlds) s"
  shows "window_inv a b clock worlds (log @ fst A) (snd A)" "early b (snd A) < early b s"
proof -
  let ?m = "hd (msg_queue s)"
  have w: "in_window a b clock worlds" and ok: "tasks_ok s" and slow: "slow (td_dur s)"
    and one: "size (pending LocalHeatBeat s) = Suc 0" and b: "global_timer s \<le> b" using inv by (auto simp: window_inv_def)
  note e = round_effect [OF ok assms(2) A refl] and p = round_pending [OF ok assms(2) A refl]
  have m: "when_ns ?m \<le> b" using assms(2) b by (simp add: due_def)
  have "slow (td_dur (snd A)) \<and> early b (snd A) < early b s"
  proof (cases "event_of (msg_event ?m)")
    case None
    from e(4) [OF None] have "td_dur (snd A) = td_dur s" "mset (msg_queue s) = add_mset ?m (mset (msg_queue (snd A)))" by simp_all
    then show ?thesis using slow m by (simp add: early_def)
  next
    case (Some ev)
    from e(5) [OF Some] obtain t h where d: "td_dur (snd A) = task_result P (worlds (td_step s)) t ev (td_dur s)"
      and q: "add_mset ?m (mset (msg_queue (snd A))) = mset (msg_queue s) +
            mset (posts_of (w_post (worlds (td_step s))) h (next_post (worlds (td_step s)) ev (td_dur s)))" by blast
    have "filter_mset (\<lambda>m. when_ns m \<le> b) (mset (posts_of (w_post (worlds (td_step s))) h (next_post (worlds (td_step s)) ev (td_dur s)))) = {#}"
      using late_posts [OF w slow] by (force simp: filter_empty_conv simp flip: mset_filter)
    with arg_cong [OF q, of "\<lambda>M. size (filter_mset (\<lambda>m. when_ns m \<le> b) M)"] m have "early b (snd A) < early b s"
      by (simp add: early_def)
    moreover have "slow (td_dur (snd A))" unfolding d using slow w by (intro task_slow) (auto simp: in_window_def)
    ultimately show ?thesis by blast
  qed
  then show "early b (snd A) < early b s" by blast
  have g: "a \<le> global_timer (snd A)" "global_timer (snd A) \<le> b" using w e(2) by (auto simp: in_window_def)
  show "window_inv a b clock worlds (log @ fst A) (snd A)"
  proof (cases "is_task LocalHeatBeat ?m")
    case True
    from p(2) [OF this] obtain h where l: "filter (is_task LocalHeatBeat) (fst A) = [?m]" "?m \<in># pending LocalHeatBeat s"
      and q: "pending LocalHeatBeat (snd A) = {#task_msg LocalHeatBeat (w_post (worlds (td_step s)) 0) 5000 h#}"
      using one by (auto simp: next_post_def)
    have "filter (is_task LocalHeatBeat) log = []"
      using inv l(2) m w by (auto simp: window_inv_def in_window_def ns_of_ms_def split: if_splits)
    then show ?thesis
      using l q w e(1) \<open>slow (td_dur (snd A)) \<and> _\<close> g by (auto simp: window_inv_def task_msg_def in_window_def)
  next
    case False
    from p(1) [OF this] inv e(1) \<open>slow (td_dur (snd A)) \<and> _\<close> g show ?thesis by (simp add: window_inv_def)
  qed
qed

interpretation window: advance_rounds clock "dur_invoke P worlds" "\<lambda>n. window_inv a b clock worlds" for clock P worlds a b
  by unfold_locales (simp add: window_round)

lemma window_start:
  assumes "td_reachable P T s" and "T + ns_of_ms 5000 \<le> a" and "in_window a b clock worlds" and "slow (td_dur s)"
  shows "window_inv a b clock worlds [] (s\<lparr>global_timer := clock 0\<rparr>)"
  using td_reachable_inv [OF assms(1)] assms(2-4)
  by (force simp: window_inv_def beats_inv_def tasks_ok_def timer_ok_def pending_def in_window_def)

lemma Advance_window:
  assumes "td_reachable P T s" and "T + 5000000000 \<le> a" and "in_window a b clock worlds" and "slow (td_dur s)"
  shows "\<exists>popped log k nxt s'. Advance clock (dur_invoke P worlds) s = Some (popped, log, k, nxt, s')
     \<and> length (filter (is_task LocalHeatBeat) log) = 1
     \<and> (\<forall>m \<in># pending LocalHeatBeat s'. a + 5000000000 \<le> when_ns m \<and> when_ns m \<le> b + 5000000000)
     \<and> (\<forall>m \<in> set (msg_queue s'). global_timer s' < when_ns m)"
proof -
  have inv: "window_inv a b clock worlds [] (s\<lparr>global_timer := clock 0\<rparr>)"
    using assms by (intro window_start) (simp_all add: ns_of_ms_def)
  have less: "early b (snd (advance_round (clock n) (dur_invoke P worlds) t)) < early b t"
    if "window_inv a b clock worlds log t" "due t" for n log and t :: "('a, 'b, 'c) timed"
    using window_round(2) [OF that refl] .
  have "\<exists>popped log k s'. advance_loop clock (dur_invoke P worlds) 1 (s\<lparr>global_timer := clock 0\<rparr>) = Some (popped, log, k, s')"
    by (rule window.loop_ends [OF less inv]) assumption+
  then obtain popped log k s' where r: "advance_loop clock (dur_invoke P worlds) 1 (s\<lparr>global_timer := clock 0\<rparr>) = Some (popped, log, k, s')"
    by blast
  have fin: "window_inv a b clock worlds log s'" "\<not> due s'" using window.loop_keeps [OF r inv] by simp_all
  have rest: "\<forall>m \<in> set (msg_queue s'). global_timer s' < when_ns m"
    using not_due [OF _ fin(2)] fin(1) by (auto simp: window_inv_def tasks_ok_def)
  have ran: "filter (is_task LocalHeatBeat) log \<noteq> []"
  proof
    assume "filter (is_task LocalHeatBeat) log = []"
    then have one: "\<forall>m \<in># pending LocalHeatBeat s'. when_ns m \<le> a" "size (pending LocalHeatBeat s') = 1" "a \<le> global_timer s'"
      using fin(1) by (auto simp: window_inv_def)
    then obtain m where "m \<in># pending LocalHeatBeat s'" by (metis One_nat_def size_eq_Suc_imp_elem)
    with one rest show False by (force simp: pending_def)
  qed
  with r fin(1) rest show ?thesis by (auto simp: Advance_def window_inv_def ns_of_ms_def)
qed

text \<open>
  C23: the timer thread comes back and the heart beats. A call of \<^verbatim>\<open>Advance\<close> more than five seconds after the last
  post, in which all readings of the clock lie within less than three seconds and no configured
  period is shorter than that, returns; it has run the callback of the local heart beat exactly once, which is
  due again five seconds after it ran, and no message is left that is due.
\<close>

theorem heart_beat_runs:
  assumes "td_reachable P T s" and "T + 5000000000 \<le> a" and "in_window a b clock worlds" and "slow (td_dur s)"
  shows "\<exists>popped log k nxt s'. Advance clock (dur_invoke P worlds) s = Some (popped, log, k, nxt, s')
     \<and> length (filter (is_task LocalHeatBeat) log) = 1
     \<and> (\<forall>m \<in># pending LocalHeatBeat s'. a + 5000000000 \<le> when_ns m \<and> when_ns m \<le> b + 5000000000)
     \<and> (\<forall>m \<in> set (msg_queue s'). global_timer s' < when_ns m)"
  using assms by (rule Advance_window)

section \<open>A period of zero\<close>

definition flows :: "(nat \<Rightarrow> int) \<Rightarrow> nat \<Rightarrow> (nat \<Rightarrow> world) \<Rightarrow> bool" where
  "flows clock i0 worlds \<longleftrightarrow> mono clock \<and> (\<forall>i. w_post (worlds (i0 + i)) 0 \<le> clock (Suc i))"

definition spin_inv :: "(nat \<Rightarrow> int) \<Rightarrow> nat \<Rightarrow> (nat \<Rightarrow> world) \<Rightarrow> nat \<Rightarrow> ('e, 's, 'c) timed \<Rightarrow> bool" where
  "spin_inv clock i0 worlds n s \<longleftrightarrow> tasks_ok s \<and> online_tick_interval (td_dur s) = 0 \<and> no_answer worlds \<and> flows clock i0 worlds
     \<and> 0 < n \<and> global_timer s = clock (n - 1) \<and> i0 \<le> td_step s \<and> td_step s < i0 + n \<and> (\<exists>m \<in># pending OnlineHeatBeat s. when_ns m \<le> global_timer s)"

lemma spin_due:
  assumes "spin_inv clock i0 worlds n s"
  shows "due s"
proof (rule ccontr)
  assume "\<not> due s"
  from not_due [OF _ this] assms show False by (force simp: spin_inv_def tasks_ok_def pending_def)
qed

lemma tick_kept: "w_answer w = None \<Longrightarrow> online_tick_interval (task_result P w now e d) = online_tick_interval d"
  by (simp add: task_result_def request_config_cb_def local_heat_beat_cb_def online_heat_beat_cb_def post_event_def dur_put_def
      Let_def split: timer_event.split)

lemma spin_round:
  fixes s :: "('e, 's, 'c) timed"
  assumes inv: "spin_inv clock i0 worlds n s" and A: "A = advance_round (clock n) (dur_invoke P worlds) s"
  shows "spin_inv clock i0 worlds (Suc n) (snd A)"
proof -
  let ?m = "hd (msg_queue s)"
  have ok: "tasks_ok s" and na: "no_answer worlds" and f: "flows clock i0 worlds" and n: "0 < n" "global_timer s = clock (n - 1)"
    and tick: "online_tick_interval (td_dur s) = 0" and step: "i0 \<le> td_step s" "td_step s < i0 + n"
    and o: "\<exists>m \<in># pending OnlineHeatBeat s. when_ns m \<le> clock (n - 1)" using inv by (auto simp: spin_inv_def)
  note e = round_effect [OF ok spin_due [OF inv] A refl] and p = round_pending [OF ok spin_due [OF inv] A refl]
  have mono: "mono clock" using f by (simp add: flows_def)
  then have le: "clock (n - 1) \<le> clock n" by (simp add: monoD)
  have post: "w_post (worlds (td_step s)) 0 \<le> clock n"
  proof -
    obtain i where i: "td_step s = i0 + i" using step(1) le_Suc_ex by blast
    then have "w_post (worlds (td_step s)) 0 \<le> clock (Suc i)" using f by (simp add: flows_def)
    also have "\<dots> \<le> clock n" using step(2) i by (intro monoD [OF mono]) simp
    finally show ?thesis .
  qed
  have "\<exists>m \<in># pending OnlineHeatBeat (snd A). when_ns m \<le> clock n"
  proof (cases "is_task OnlineHeatBeat ?m")
    case True
    from p(2) [OF this] post tick show ?thesis by (auto simp: next_post_def task_msg_def ns_of_ms_def)
  next
    case False
    from p(1) [OF this] o le show ?thesis by force
  qed
  moreover have "online_tick_interval (td_dur (snd A)) = 0"
    using e(4,5) tick na by (cases "event_of (msg_event ?m)") (auto simp: tick_kept no_answer_def)
  moreover have "i0 \<le> td_step (snd A)" "td_step (snd A) < i0 + Suc n" using e(3) step by auto
  ultimately show ?thesis using e(1,2) na f n by (auto simp: spin_inv_def)
qed

interpretation spin: advance_rounds clock "dur_invoke P worlds" "\<lambda>n log. spin_inv clock i0 worlds n" for clock P worlds i0
  by unfold_locales (simp add: spin_round)

text \<open>
  C40: a configured period of zero stops the timer. When the server has sent the frequency 0 (or any multiple of
  2^29, for the product with 1000 is one of 32 bits), the online heart beat posts itself as due at
  once; from the moment it is due, \<^verbatim>\<open>Advance\<close> never returns as long as no other configuration arrives, and the
  thread never sleeps again.
\<close>

theorem zero_frequency_spins:
  assumes "td_reachable P T s" and "online_tick_interval (td_dur s) = 0" and "no_answer worlds" and "flows clock (td_step s) worlds"
    and "m \<in># pending OnlineHeatBeat s" and "when_ns m \<le> clock 0"
  shows "Advance clock (dur_invoke P worlds) s = None"
proof -
  have "tasks_ok s" using td_reachable_inv [OF assms(1)] by (simp add: beats_inv_def)
  then have "spin_inv clock (td_step s) worlds 1 (s\<lparr>global_timer := clock 0\<rparr>)"
    using assms(2-6) by (auto simp: spin_inv_def tasks_ok_def timer_ok_def pending_def)
  then have "advance_loop clock (dur_invoke P worlds) 1 (s\<lparr>global_timer := clock 0\<rparr>) = None"
    by (intro spin.loop_never_ends) (rule spin_due)
  then show ?thesis by (simp add: Advance_def)
qed

definition zero_config :: ReportConfig where
  "zero_config = ReportConfig_default\<lparr>rc_tap_frequency := 0, rc_no_tap_frequency := 536870912\<rparr>"

definition demo_zero :: "(nat \<times> (nat \<times> DurEvent) list, nat \<times> (nat \<times> GameSession) list, nat \<times> (nat \<times> ReportConfig) list) timed" where
  "demo_zero = demo_timed\<lparr>td_dur := example_dur\<lparr>rc_db := (2, [(1, zero_config)])\<rparr>\<rparr>"

lemma zero_init:
  "\<exists>d. Init_dur example_ops (Some (''dev'', Local, None)) ''1'' ''uuid'' 0 (td_dur demo_zero) = Inr d
     \<and> posted d = [(LocalHeatBeat, 5000), (OnlineHeatBeat, 300000)] \<and> online_tick_interval d = 0"
  by (simp add: Init_dur_def NewGameSession_def InitHeatBeats_def InitHistory_def InitReportThread_def InitRequest_def Let_def demo_zero_def
     example_dur_def example_ops_def mem_table_def GetLatestSession_def GetLatestConfig_def GetEvents_def config_columns_def zero_config_def
     ReportConfig_default_def RefreshConfig_def pick_interval_def update_session_def UpdateSession_def post_event_def
     local_heat_beat_interval_def)

theorem zero_frequency_spins_witness:
  "\<exists>s. td_Init example_ops (Some (''dev'', Local, None)) ''1'' ''uuid'' (demo_world 0) demo_zero = Inr s
     \<and> Advance (\<lambda>n. ns_of_ms 300000) (dur_invoke example_ops (\<lambda>i. demo_world 300000)) s = None"
proof -
  let ?e = "Event_Create 0 (Event_Create 2 (Event_Create 1 demo_zero))"
  obtain d where d: "Init_dur example_ops (Some (''dev'', Local, None)) ''1'' ''uuid'' 0 (td_dur demo_zero) = Inr d"
    and p: "posted d = [(LocalHeatBeat, 5000), (OnlineHeatBeat, 300000)]" and tick: "online_tick_interval d = 0" using zero_init by blast
  let ?s = "hand_over (demo_world 0) d ?e"
  have z: "timer_ok demo_zero" "posted (td_dur demo_zero) = []" "\<forall>e. pending e demo_zero = {#}" "posts_until 0 (\<lambda>_. demo_world 0)"
    by (simp_all add: demo_zero_def demo_timed_def example_dur_def timer_ok_def is_heap_def pending_def posts_until_def demo_world_def ns_of_ms_def)
  have s: "td_Init example_ops (Some (''dev'', Local, None)) ''1'' ''uuid'' (demo_world 0) demo_zero = Inr ?s"
    using d by (simp add: td_Init_def throws_bind_def Timestamp_def OnlineTimestamp_def demo_world_def demo_zero_def demo_timed_def)
  have r: "td_reachable example_ops 0 ?s" by (rule td_reachable.init [OF z s])
  let ?m = "task_msg OnlineHeatBeat 0 300000 (event_fifo_id ?e + 1)"
  have "timer_ok ?e" using z(1) by (simp add: Event_Create_def timer_ok_def)
  from hand_over_queue(3) [OF this, of "demo_world 0" d] have m: "?m \<in># pending OnlineHeatBeat ?s"
    by (simp add: p pending_def is_task_def task_msg_def demo_world_def ns_of_ms_def)
  have "Advance (\<lambda>n. ns_of_ms 300000) (dur_invoke example_ops (\<lambda>i. demo_world 300000)) ?s = None"
    by (rule zero_frequency_spins [OF r _ _ _ m])
      (simp_all add: hand_over_frame tick no_answer_def demo_world_def flows_def mono_def task_msg_def)
  with s show ?thesis by blast
qed

lemma demo_slow:
  "td_Init example_ops (Some (''dev'', Local, None)) ''1'' ''uuid'' (demo_world 0) demo_timed = Inr s \<Longrightarrow> slow (td_dur s)"
  by (auto simp: td_Init_def throws_bind_def hand_over_frame slow_def Init_dur_def NewGameSession_def InitHeatBeats_def InitHistory_def
     InitReportThread_def InitRequest_def Let_def demo_timed_def example_dur_def example_ops_def mem_table_def GetLatestSession_def
     GetLatestConfig_def GetEvents_def update_session_def UpdateSession_def post_event_def)

lemma demo_window: "in_window (ns_of_ms now) (ns_of_ms now) (\<lambda>n. ns_of_ms now) (\<lambda>i. demo_world now)"
  by (simp add: in_window_def demo_world_def ns_of_ms_def)

theorem heart_beat_runs_witness:
  "\<exists>s popped log k nxt s'. td_Init example_ops (Some (''dev'', Local, None)) ''1'' ''uuid'' (demo_world 0) demo_timed = Inr s
     \<and> Advance (\<lambda>n. ns_of_ms 6000) (dur_invoke example_ops (\<lambda>i. demo_world 6000)) s = Some (popped, log, k, nxt, s')
     \<and> length (filter (is_task LocalHeatBeat) log) = 1"
proof -
  obtain s where s: "td_Init example_ops (Some (''dev'', Local, None)) ''1'' ''uuid'' (demo_world 0) demo_timed = Inr s"
    and r: "td_reachable example_ops 0 s" using demo_task_init by blast
  from heart_beat_runs [OF r _ demo_window demo_slow [OF s], of 6000] s show ?thesis by (auto simp: ns_of_ms_def)
qed

theorem config_requests_kept_witness:
  "\<exists>s popped log k nxt s'. td_Init example_ops (Some (''dev'', Local, None)) ''1'' ''uuid'' (demo_world 0) demo_timed = Inr s
     \<and> Advance (\<lambda>n. ns_of_ms 6000) (dur_invoke example_ops (\<lambda>i. demo_world 6000)) (td_call example_ops (demo_world 0) (CallGameStart ''g'' ''p'') s)
         = Some (popped, log, k, nxt, s') \<and> size (pending RequestConfig s') = 1"
proof -
  obtain s where s: "td_Init example_ops (Some (''dev'', Local, None)) ''1'' ''uuid'' (demo_world 0) demo_timed = Inr s"
    and r: "td_reachable example_ops 0 s" using demo_task_init by blast
  let ?s = "td_call example_ops (demo_world 0) (CallGameStart ''g'' ''p'') s"
  have none: "pending RequestConfig s = {#}"
    by (rule init_beats(2) [OF _ _ _ _ s, of 0])
      (simp_all add: demo_timed_def example_dur_def timer_ok_def is_heap_def pending_def posts_until_def demo_world_def ns_of_ms_def)
  have r2: "td_reachable example_ops 0 ?s"
    by (rule td_reachable.call [OF r]) (simp_all add: posts_until_def demo_world_def ns_of_ms_def)
  have slow: "slow (td_dur ?s)" using demo_slow [OF s]
    by (simp add: td_call_def hand_over_frame slow_def GameStart_def store_and_put_def dur_put_def stamp_session_def post_event_def Let_def split_beta)
  obtain popped log k nxt s' where a: "Advance (\<lambda>n. ns_of_ms 6000) (dur_invoke example_ops (\<lambda>i. demo_world 6000)) ?s = Some (popped, log, k, nxt, s')"
    using Advance_window [OF r2 _ demo_window slow, of 6000] by (auto simp: ns_of_ms_def)
  from config_requests_kept [OF r2] have "size (pending RequestConfig s') = size (pending RequestConfig ?s)"
    using a by (force simp: no_answer_def demo_world_def)
  moreover from config_requests_kept [OF r, of "demo_world 0" "''g''" "''p''"] none have "size (pending RequestConfig ?s) = 1" by simp
  ultimately show ?thesis using s a by metis
qed

end
