(* ===== verification/Disk_File.thy ===== *)
theory Disk_File
  imports Tap_Prelude
begin

text \<open>
  \<^verbatim>\<open>source/base/file.h\<close> and \<^verbatim>\<open>file.cpp\<close>, in the \<^verbatim>\<open>HAS_UNIX_FD\<close> build. A \<^verbatim>\<open>File\<close> is the record
  \<open>disk_file\<close>: the bytes at its path, its stream, and the members of the class. The operating system is
  a parameter: \<open>os n\<close> says whether the n-th system call succeeds, so every pattern of failures is
  covered; a failed \<^verbatim>\<open>pwrite\<close> writes nothing. Calls on a stream that was closed, or that was never
  opened, are undefined behaviour and have the outcome \<open>Undef\<close>. The operations are polymorphic in the
  rest of the state, so that a component that owns a file extends the record.
\<close>

section \<open>Outcomes\<close>

datatype ('a, 's) outcome = Ret 'a 's | Throw exn 's | Undef

type_synonym ('a, 's) io = "'s \<Rightarrow> ('a, 's) outcome"

definition io_ret :: "'a \<Rightarrow> ('a, 's) io" where
  "io_ret a s = Ret a s"

definition io_bind :: "('a, 's) io \<Rightarrow> ('a \<Rightarrow> ('b, 's) io) \<Rightarrow> ('b, 's) io" where
  "io_bind m f s = (case m s of Ret a s' \<Rightarrow> f a s' | Throw e s' \<Rightarrow> Throw e s' | Undef \<Rightarrow> Undef)"

definition io_seq :: "('a, 's) io \<Rightarrow> ('b, 's) io \<Rightarrow> ('b, 's) io" where
  "io_seq m k = io_bind m (\<lambda>_. k)"

definition io_undef :: "('a, 's) io" where
  "io_undef s = Undef"

definition io_get :: "('s \<Rightarrow> 'a) \<Rightarrow> ('a, 's) io" where
  "io_get f s = Ret (f s) s"

definition io_upd :: "('s \<Rightarrow> 's) \<Rightarrow> (unit, 's) io" where
  "io_upd f s = Ret () (f s)"

definition io_throws :: "'a throws \<Rightarrow> ('a, 's) io" where
  "io_throws m s = (case m of Inl e \<Rightarrow> Throw e s | Inr a \<Rightarrow> Ret a s)"

definition io_assert :: "bool \<Rightarrow> string \<Rightarrow> (unit, 's) io" where
  "io_assert c msg = io_throws (assert_that c msg)"

text \<open>\<^verbatim>\<open>ASSERT\<close> on the result of a call.\<close>

definition io_require :: "(bool, 's) io \<Rightarrow> string \<Rightarrow> (unit, 's) io" where
  "io_require m msg = io_bind m (\<lambda>ok. io_assert ok msg)"

text \<open>\<^verbatim>\<open>try { m } catch (...) { h }\<close>\<close>

definition io_catch :: "('a, 's) io \<Rightarrow> ('a, 's) io \<Rightarrow> ('a, 's) io" where
  "io_catch m h s = (case m s of Throw e s' \<Rightarrow> h s' | r \<Rightarrow> r)"

named_theorems io_simps "one step of a program over outcomes"

lemma io_bind_steps [io_simps]:
  "m s = Ret a s' \<Longrightarrow> io_bind m f s = f a s'"
  "m s = Throw e s' \<Longrightarrow> io_bind m f s = Throw e s'"
  "m s = Undef \<Longrightarrow> io_bind m f s = Undef"
  by (simp_all add: io_bind_def)

lemma io_seq_step [io_simps]: "m s = Ret a s' \<Longrightarrow> io_seq m k s = k s'"
  by (simp add: io_seq_def io_bind_def)

lemma io_prim [io_simps]:
  "io_ret a s = Ret a s" "io_get g s = Ret (g s) s" "io_upd h s = Ret () (h s)" "io_undef s = Undef"
  by (simp_all add: io_ret_def io_get_def io_upd_def io_undef_def)

lemma io_assert_step [io_simps]:
  "io_assert True msg s = Ret () s" "io_assert False msg s = Throw (LogicError msg) s"
  by (simp_all add: io_assert_def io_throws_def)

lemma io_require_step [io_simps]:
  "m s = Ret True s' \<Longrightarrow> io_require m msg s = Ret () s'"
  "m s = Ret False s' \<Longrightarrow> io_require m msg s = Throw (LogicError msg) s'"
  by (simp_all add: io_require_def io_bind_def io_assert_step)

lemma io_bind_assoc: "io_bind (io_bind m f) g = io_bind m (\<lambda>a. io_bind (f a) g)"
  by (rule ext) (auto simp: io_bind_def split: outcome.split)

text \<open>
  Partial correctness: from a state with \<open>P\<close>, a normal end gives a state and value with \<open>Q\<close>, an exception a
  state with \<open>E\<close>. Undefined behaviour is not excluded.
\<close>

definition io_spec :: "('s \<Rightarrow> bool) \<Rightarrow> ('a, 's) io \<Rightarrow> ('a \<Rightarrow> 's \<Rightarrow> bool) \<Rightarrow> ('s \<Rightarrow> bool) \<Rightarrow> bool" where
  "io_spec P m Q E \<longleftrightarrow> (\<forall>s. P s \<longrightarrow> (case m s of Ret a s' \<Rightarrow> Q a s' | Throw e s' \<Rightarrow> E s' | Undef \<Rightarrow> True))"

named_theorems io_rules "rules of partial correctness"

lemma io_specI:
  assumes "\<And>s a s'. P s \<Longrightarrow> m s = Ret a s' \<Longrightarrow> Q a s'" and "\<And>s e s'. P s \<Longrightarrow> m s = Throw e s' \<Longrightarrow> E s'"
  shows "io_spec P m Q E"
  using assms by (auto simp: io_spec_def split: outcome.split)

lemma io_specD:
  "io_spec P m Q E \<Longrightarrow> P s \<Longrightarrow> m s = Ret a s' \<Longrightarrow> Q a s'"
  "io_spec P m Q E \<Longrightarrow> P s \<Longrightarrow> m s = Throw e s' \<Longrightarrow> E s'"
  by (fastforce simp: io_spec_def)+

lemma io_spec_bind [io_rules]:
  "io_spec P m R E \<Longrightarrow> (\<And>a. io_spec (R a) (f a) Q E) \<Longrightarrow> io_spec P (io_bind m f) Q E"
  by (fastforce simp: io_spec_def io_bind_def split: outcome.split)

lemma io_spec_seq [io_rules]:
  "io_spec P m (\<lambda>_. R) E \<Longrightarrow> io_spec R k Q E \<Longrightarrow> io_spec P (io_seq m k) Q E"
  unfolding io_seq_def by (rule io_spec_bind)

lemma io_spec_catch [io_rules]:
  "io_spec P m Q R \<Longrightarrow> io_spec R h Q E \<Longrightarrow> io_spec P (io_catch m h) Q E"
  by (fastforce simp: io_spec_def io_catch_def split: outcome.split)

lemma io_spec_ret: "(\<And>s. P s \<Longrightarrow> Q a s) \<Longrightarrow> io_spec P (io_ret a) Q E"
  by (simp add: io_spec_def io_prim)

lemma io_spec_get: "(\<And>s. P s \<Longrightarrow> Q (g s) s) \<Longrightarrow> io_spec P (io_get g) Q E"
  by (simp add: io_spec_def io_prim)

lemma io_spec_upd: "(\<And>s. P s \<Longrightarrow> Q () (u s)) \<Longrightarrow> io_spec P (io_upd u) Q E"
  by (simp add: io_spec_def io_prim)

lemma io_spec_undef [io_rules]: "io_spec P io_undef Q E"
  by (simp add: io_spec_def io_prim)

lemma io_spec_if [io_rules]:
  "(b \<Longrightarrow> io_spec P m Q E) \<Longrightarrow> (\<not> b \<Longrightarrow> io_spec P k Q E) \<Longrightarrow> io_spec P (if b then m else k) Q E"
  by simp

abbreviation io_keeps :: "('s \<Rightarrow> bool) \<Rightarrow> ('a, 's) io \<Rightarrow> bool" where
  "io_keeps P m \<equiv> io_spec P m (\<lambda>_. P) P"

lemma io_keeps_bind: "io_keeps P m \<Longrightarrow> (\<And>a. io_keeps P (f a)) \<Longrightarrow> io_keeps P (io_bind m f)"
  by (rule io_spec_bind)

lemma io_keeps_seq: "io_keeps P m \<Longrightarrow> io_keeps P k \<Longrightarrow> io_keeps P (io_seq m k)"
  by (rule io_spec_seq)

lemma io_keeps_catch: "io_keeps P m \<Longrightarrow> io_keeps P h \<Longrightarrow> io_keeps P (io_catch m h)"
  by (rule io_spec_catch)

lemma io_keeps_prim:
  "io_keeps P (io_ret a)" "io_keeps P (io_get g)" "io_keeps P io_undef" "(\<And>s. P s \<Longrightarrow> P (u s)) \<Longrightarrow> io_keeps P (io_upd u)"
  by (simp_all add: io_spec_def io_prim)

lemmas io_keeps_rules = io_keeps_bind io_keeps_seq io_keeps_catch io_keeps_prim io_spec_if

lemma io_spec_post: "io_spec P m Q E \<Longrightarrow> (\<And>a s. Q a s \<Longrightarrow> Q' a s) \<Longrightarrow> (\<And>s. E s \<Longrightarrow> E' s) \<Longrightarrow> io_spec P m Q' E'"
  by (fastforce simp: io_spec_def split: outcome.splits)

lemma io_spec_pre: "io_spec P m Q E \<Longrightarrow> (\<And>s. P' s \<Longrightarrow> P s) \<Longrightarrow> io_spec P' m Q E"
  by (simp add: io_spec_def)

section \<open>Files\<close>

datatype FileAccessMode = None_mode | Read_mode | Write_mode | ReadWrite | Append_mode | ReadAppend

definition mode_bits :: "FileAccessMode \<Rightarrow> u32" where
  "mode_bits m = (case m of None_mode \<Rightarrow> 0 | Read_mode \<Rightarrow> 1 | Write_mode \<Rightarrow> 2 | ReadWrite \<Rightarrow> 1 OR 2
     | Append_mode \<Rightarrow> 4 | ReadAppend \<Rightarrow> 1 OR 4)"

definition AccessModeToStr :: "FileAccessMode \<Rightarrow> string" where
  "AccessModeToStr m = (case m of Read_mode \<Rightarrow> ''rb'' | Write_mode \<Rightarrow> ''wb'' | Append_mode \<Rightarrow> ''ab''
     | ReadWrite \<Rightarrow> ''r+b'' | ReadAppend \<Rightarrow> ''a+b'' | _ \<Rightarrow> [])"

text \<open>The member \<^verbatim>\<open>std::FILE* file\<close>: null, an open stream, or a stream that \<^verbatim>\<open>fclose\<close> has freed.\<close>

datatype stream = NullStream | OpenStream | FreedStream

record disk_file =
  df_data :: "u8 list option"
  df_parent :: bool
  df_file :: stream
  df_mode :: FileAccessMode
  cur_size :: nat
  df_calls :: nat

definition new_File :: "u8 list option \<Rightarrow> bool \<Rightarrow> nat \<Rightarrow> disk_file" where
  "new_File contents parent n = \<lparr>df_data = contents, df_parent = parent, df_file = NullStream,
     df_mode = None_mode, cur_size = 0, df_calls = n\<rparr>"

definition syscall :: "(nat \<Rightarrow> bool) \<Rightarrow> (bool, 'z disk_file_scheme) io" where
  "syscall os s = Ret (os (df_calls s)) (s\<lparr>df_calls := Suc (df_calls s)\<rparr>)"

text \<open>\<^verbatim>\<open>std::fopen\<close>, by the mode string.\<close>

definition fopen :: "(nat \<Rightarrow> bool) \<Rightarrow> string \<Rightarrow> (stream, 'z disk_file_scheme) io" where
  "fopen os mode = io_bind (syscall os) (\<lambda>ok s.
     if \<not> ok then Ret NullStream s
     else if mode \<in> {''rb'', ''r+b''} then
       (if df_data s = None then Ret NullStream s else Ret OpenStream s)
     else if mode \<in> {''w'', ''wb''} then Ret OpenStream (s\<lparr>df_data := Some []\<rparr>)
     else if mode \<in> {''ab'', ''a+b''} then
       Ret OpenStream (s\<lparr>df_data := Some (case df_data s of Some d \<Rightarrow> d | None \<Rightarrow> [])\<rparr>)
     else Ret NullStream s)"

definition IsOpen :: "'z disk_file_scheme \<Rightarrow> bool" where
  "IsOpen s \<longleftrightarrow> df_file s \<noteq> NullStream"

definition File_Create :: "(nat \<Rightarrow> bool) \<Rightarrow> (bool, 'z disk_file_scheme) io" where
  "File_Create os s =
     (if df_data s = None then
        io_bind (fopen os ''w'') (\<lambda>f.
          if f \<noteq> NullStream then io_bind (syscall os) (\<lambda>_. io_ret True) else io_ret False) s
      else Ret True s)"

definition File_Delete :: "(nat \<Rightarrow> bool) \<Rightarrow> (bool, 'z disk_file_scheme) io" where
  "File_Delete os s =
     (if df_data s \<noteq> None then
        io_bind (syscall os) (\<lambda>ok.
          if ok then io_bind (io_upd (\<lambda>s. s\<lparr>df_data := None\<rparr>)) (\<lambda>_. io_ret True)
          else io_throws (Inl (LibraryError ''remove''))) s
      else Ret False s)"

text \<open>\<^verbatim>\<open>Close\<close> hands on what \<^verbatim>\<open>fclose\<close> gives, which is 0 on success, and leaves the pointer as it is.\<close>

definition Close :: "(nat \<Rightarrow> bool) \<Rightarrow> (bool, 'z disk_file_scheme) io" where
  "Close os s =
     (if \<not> IsOpen s then Ret True s
      else if df_file s = FreedStream then Undef
      else io_bind (syscall os) (\<lambda>ok.
             io_bind (io_upd (\<lambda>s. s\<lparr>df_file := FreedStream\<rparr>)) (\<lambda>_. io_ret (\<not> ok)))
             (s\<lparr>cur_size := 0\<rparr>))"

definition Open :: "(nat \<Rightarrow> bool) \<Rightarrow> FileAccessMode \<Rightarrow> (bool, 'z disk_file_scheme) io" where
  "Open os mode =
     io_seq (Close os)
    (io_seq (\<lambda>s. if df_data s = None then
               io_seq (\<lambda>s. if df_parent s then Ret () s
                        else io_bind (syscall os) (\<lambda>ok.
                               if ok then io_upd (\<lambda>s. s\<lparr>df_parent := True\<rparr>)
                               else io_throws (Inl (LibraryError ''create_directories''))) s)
               (io_seq (File_Create os) (io_ret ())) s
             else Ret () s)
    (io_bind (fopen os (AccessModeToStr mode)) (\<lambda>f.
     io_seq (io_upd (\<lambda>s. s\<lparr>df_file := f\<rparr>))
     (\<lambda>s. if IsOpen s then Ret True (s\<lparr>df_mode := mode\<rparr>) else Ret False s))))"

definition File_Flush :: "(nat \<Rightarrow> bool) \<Rightarrow> (bool, 'z disk_file_scheme) io" where
  "File_Flush os s = (if \<not> IsOpen s then Ret False s else if df_file s = FreedStream then Undef else syscall os s)"

definition Commit :: "(nat \<Rightarrow> bool) \<Rightarrow> (bool, 'z disk_file_scheme) io" where
  "Commit os s = (if \<not> IsOpen s then Ret False s else if df_file s = FreedStream then Undef
     else io_bind (syscall os) (\<lambda>ok. if ok then syscall os else io_ret False) s)"

text \<open>
  \<^verbatim>\<open>File::Read\<close> copies what \<^verbatim>\<open>pread\<close> delivers into the caller's buffer; it returns the bytes that
  arrived and whether they are all.
\<close>

definition Read :: "(nat \<Rightarrow> bool) \<Rightarrow> nat \<Rightarrow> nat \<Rightarrow> (u8 list \<times> bool, 'z disk_file_scheme) io" where
  "Read os offset n s =
     (case (df_file s, df_data s) of
        (OpenStream, Some d) \<Rightarrow>
          io_bind (syscall os) (\<lambda>ok.
            let got = (if ok then take n (drop offset d) else []) in io_ret (got, length got = n)) s
      | _ \<Rightarrow> Undef)"

definition write_at :: "nat \<Rightarrow> u8 list \<Rightarrow> u8 list \<Rightarrow> u8 list" where
  "write_at offset src d = take offset (d @ replicate (offset - length d) 0) @ src @ drop (offset + length src) d"

definition Write :: "(nat \<Rightarrow> bool) \<Rightarrow> u8 list \<Rightarrow> nat \<Rightarrow> (bool, 'z disk_file_scheme) io" where
  "Write os src offset s =
     (case (df_file s, df_data s) of
        (OpenStream, Some d) \<Rightarrow>
          io_bind (syscall os) (\<lambda>ok.
            io_seq (io_upd (\<lambda>s. if ok then s\<lparr>df_data := Some (write_at offset src d)\<rparr> else s)) (io_ret ok)) s
      | _ \<Rightarrow> Undef)"

text \<open>\<^verbatim>\<open>File::Map\<close> gives the rights of the new mapping, or None for the null pointer.\<close>

definition Map :: "(nat \<Rightarrow> bool) \<Rightarrow> nat \<Rightarrow> ((bool \<times> bool) option, 'z disk_file_scheme) io" where
  "Map os n s =
     (if \<not> IsOpen s then Ret None s
      else if df_file s = FreedStream then Undef
      else io_bind (syscall os) (\<lambda>ok.
        io_get (\<lambda>s. if ok \<and> n \<noteq> 0 then Some (mode_bits (df_mode s) AND 1 \<noteq> 0, mode_bits (df_mode s) AND 2 \<noteq> 0)
                    else None)) s)"

definition Unmap :: "(nat \<Rightarrow> bool) \<Rightarrow> (bool, 'z disk_file_scheme) io" where
  "Unmap os = syscall os"

definition Size :: "(nat, 'z disk_file_scheme) io" where
  "Size s =
     (if cur_size s \<noteq> 0 then Ret (cur_size s) s
      else case df_data s of
             None \<Rightarrow> Ret 0 s
           | Some d \<Rightarrow> Ret (length d) (if IsOpen s then s\<lparr>cur_size := length d\<rparr> else s))"

definition Resize :: "(nat \<Rightarrow> bool) \<Rightarrow> nat \<Rightarrow> (bool, 'z disk_file_scheme) io" where
  "Resize os n s =
     (if \<not> IsOpen s then Ret False s
      else if df_file s = FreedStream then Undef
      else io_bind (syscall os) (\<lambda>ok s.
        if ok \<and> n < 2 ^ 63 then
          Ret True (s\<lparr>df_data := map_option (\<lambda>d. take n d @ replicate (n - length d) 0) (df_data s), cur_size := n\<rparr>)
        else Ret False s) s)"

definition File_destructor :: "(nat \<Rightarrow> bool) \<Rightarrow> (bool, 'z disk_file_scheme) io" where
  "File_destructor os = Close os"

section \<open>Lemmas\<close>

lemma length_write_at: "offset + length src \<le> length d \<Longrightarrow> length (write_at offset src d) = length d"
  by (simp add: write_at_def)

lemma take_write_at: "n \<le> offset \<Longrightarrow> offset \<le> length d \<Longrightarrow> take n (write_at offset src d) = take n d"
  by (simp add: write_at_def)

lemma slice_write_at: "offset \<le> length d \<Longrightarrow> take (length src) (drop offset (write_at offset src d)) = src"
  by (simp add: write_at_def)

lemma drop_write_at:
  "offset + length src \<le> n \<Longrightarrow> offset \<le> length d \<Longrightarrow> drop n (write_at offset src d) = drop n d"
  by (simp add: write_at_def)

lemma syscall_ok [io_simps]: "\<forall>n. os n \<Longrightarrow> syscall os s = Ret True (s\<lparr>df_calls := Suc (df_calls s)\<rparr>)"
  by (simp add: syscall_def)

lemma Commit_ok [io_simps]:
  "\<forall>n. os n \<Longrightarrow> df_file s = OpenStream \<Longrightarrow> Commit os s = Ret True (s\<lparr>df_calls := df_calls s + 2\<rparr>)"
  by (simp add: Commit_def IsOpen_def io_bind_def syscall_def)

lemma Resize_ok [io_simps]:
  "\<forall>n. os n \<Longrightarrow> df_file s = OpenStream \<Longrightarrow> n < 2 ^ 63 \<Longrightarrow>
   Resize os n s = Ret True (s\<lparr>df_calls := Suc (df_calls s),
      df_data := map_option (\<lambda>d. take n d @ replicate (n - length d) 0) (df_data s), cur_size := n\<rparr>)"
  by (simp add: Resize_def IsOpen_def io_bind_def syscall_def)

lemma Map_ok [io_simps]:
  "\<forall>n. os n \<Longrightarrow> df_file s = OpenStream \<Longrightarrow> df_mode s = ReadWrite \<Longrightarrow> n \<noteq> 0 \<Longrightarrow>
   Map os n s = Ret (Some (True, True)) (s\<lparr>df_calls := Suc (df_calls s)\<rparr>)"
  by (simp add: Map_def IsOpen_def io_bind_def syscall_def io_get_def mode_bits_def)

lemma Size_cached [io_simps]: "cur_size s = n \<Longrightarrow> n \<noteq> 0 \<Longrightarrow> Size s = Ret n s"
  by (simp add: Size_def)

lemma Size_fresh [io_simps]:
  "cur_size s = 0 \<Longrightarrow> df_data s = Some d \<Longrightarrow> IsOpen s \<Longrightarrow> Size s = Ret (length d) (s\<lparr>cur_size := length d\<rparr>)"
  by (simp add: Size_def)

text \<open>Opening for reading and writing succeeds when the system does, and creates the file if needed.\<close>

lemma Open_ok:
  assumes "\<forall>n. os n" and "df_file s = NullStream"
  shows "\<exists>n. Open os ReadWrite s = Ret True (s\<lparr>df_data := Some (case df_data s of Some d \<Rightarrow> d | None \<Rightarrow> []),
    df_parent := df_parent s \<or> df_data s = None, df_file := OpenStream, df_mode := ReadWrite, df_calls := n\<rparr>)"
proof (cases "df_data s")
  case None
  then show ?thesis using assms
    by (cases s; cases "df_parent s")
      (auto simp: Open_def io_seq_def io_bind_def Close_def IsOpen_def File_Create_def fopen_def syscall_def
         io_upd_def io_ret_def AccessModeToStr_def)
next
  case (Some d)
  then show ?thesis using assms
    by (cases s) (auto simp: Open_def io_seq_def io_bind_def Close_def IsOpen_def fopen_def syscall_def io_upd_def
         AccessModeToStr_def)
qed

end
