(* ===== verification/Track_Message.thy ===== *)
theory Track_Message
  imports City_Hash Disk_File
begin

text \<open>
  Tracker configurations (\<^verbatim>\<open>TrackerConfig\<close> of \<^verbatim>\<open>source/sdk/tapsdk.h\<close> and \<^verbatim>\<open>tapsdk.cpp\<close>) and tracked messages
  (\<^verbatim>\<open>TrackMessage\<close> and \<^verbatim>\<open>TrackMessageImpl\<close> of \<^verbatim>\<open>source/tracker/tracker_impl.h\<close> and \<^verbatim>\<open>tracker_impl.cpp\<close>). The classes
  that protoc generates from \<^verbatim>\<open>source/tracker/proto\<close> are records with the fields of their \<^verbatim>\<open>.proto\<close> files;
  their wire format is a parameter, a \<open>codec\<close>: \<^verbatim>\<open>SerializeToArray\<close> and \<^verbatim>\<open>ParseFromArray\<close>.
\<close>

section \<open>Generated messages\<close>

record 'm codec =
  encode :: "'m \<Rightarrow> u8 list"
  decode :: "u8 list \<Rightarrow> 'm option"

definition INT_MAX :: nat where "INT_MAX = 2 ^ 31 - 1"

text \<open>
  The fields are proto3 strings. The setters take any bytes and \<^verbatim>\<open>SerializeToArray\<close> writes them, but a
  string must be UTF-8 text (RFC 3629), and \<^verbatim>\<open>ParseFromArray\<close> refuses a message with any other. What is
  documented of the generated classes is therefore: parsing what was serialised, up to the two gigabytes
  of a message, gives it back if its strings are UTF-8 (\<open>textual\<close>), and fails otherwise.
\<close>

definition utf8_tail :: "u8 \<Rightarrow> bool" where
  "utf8_tail b \<longleftrightarrow> 0x80 \<le> b \<and> b \<le> 0xBF"

fun utf8 :: "u8 list \<Rightarrow> bool" where
  "utf8 [] \<longleftrightarrow> True"
| "utf8 (a # bs) \<longleftrightarrow>
     (if a \<le> 0x7F then utf8 bs
      else case bs of
        [] \<Rightarrow> False
      | b # bs \<Rightarrow>
          if 0xC2 \<le> a \<and> a \<le> 0xDF then utf8_tail b \<and> utf8 bs
          else case bs of
            [] \<Rightarrow> False
          | c # bs \<Rightarrow>
              if 0xE0 \<le> a \<and> a \<le> 0xEF
              then utf8_tail b \<and> (a = 0xE0 \<longrightarrow> 0xA0 \<le> b) \<and> (a = 0xED \<longrightarrow> b \<le> 0x9F) \<and> utf8_tail c \<and> utf8 bs
              else case bs of
                [] \<Rightarrow> False
              | d # bs \<Rightarrow>
                  0xF0 \<le> a \<and> a \<le> 0xF4 \<and> utf8_tail b \<and> (a = 0xF0 \<longrightarrow> 0x90 \<le> b) \<and> (a = 0xF4 \<longrightarrow> b \<le> 0x8F)
                    \<and> utf8_tail c \<and> utf8_tail d \<and> utf8 bs)"

definition utf8_text :: "string \<Rightarrow> bool" where
  "utf8_text s \<longleftrightarrow> utf8 (bytes_of s)"

locale wire_format =
  fixes cod :: "'m codec" and textual :: "'m \<Rightarrow> bool"
  assumes decode_encode: "length (encode cod m) \<le> INT_MAX \<Longrightarrow> decode cod (encode cod m) = (if textual m then Some m else None)"

record TrackMsgCacheProto =
  log_contents :: "(string \<times> string) list"
  log_commons :: "(string \<times> string) list"

record TrackDiskCacheConfig =
  dcc_topic :: string
  dcc_endpoint :: string
  dcc_access_keyid :: string
  dcc_access_key_secret :: string
  dcc_project :: string
  dcc_log_store :: string

definition utf8_msg :: "TrackMsgCacheProto \<Rightarrow> bool" where
  "utf8_msg m \<longleftrightarrow> (\<forall>(k, v)\<in>set (log_contents m @ log_commons m). utf8_text k \<and> utf8_text v)"

definition utf8_cfg :: "TrackDiskCacheConfig \<Rightarrow> bool" where
  "utf8_cfg c \<longleftrightarrow> list_all utf8_text
     [dcc_topic c, dcc_endpoint c, dcc_access_keyid c, dcc_access_key_secret c, dcc_project c, dcc_log_store c]"

section \<open>Configurations\<close>

record TrackerConfig =
  topic :: string
  endpoint :: string
  access_keyid :: string
  access_key_secret :: string
  project :: string
  log_store :: string
  cfg_hash :: u64

definition city_string :: "string \<Rightarrow> u64 option" where
  "city_string str = CityHash64 (bytes_of str) 0 (length str)"

text \<open>The hash is computed at the first call and kept in the configuration.\<close>

definition Config_Hash :: "TrackerConfig \<Rightarrow> (u64 \<times> TrackerConfig) option" where
  "Config_Hash c =
     (if cfg_hash c \<noteq> 0 then Some (cfg_hash c, c)
      else do {
        t \<leftarrow> city_string (topic c);
        e \<leftarrow> city_string (endpoint c);
        k \<leftarrow> city_string (access_keyid c);
        s \<leftarrow> city_string (access_key_secret c);
        p \<leftarrow> city_string (project c);
        l \<leftarrow> city_string (log_store c);
        h \<leftarrow> CityHash64 (concat (map (\<lambda>w. le_digits 8 (unat w)) [t, e, k, s, p, l])) 0 48;
        Some (h, c\<lparr>cfg_hash := h\<rparr>)
      })"

section \<open>Messages\<close>

record track_msg =
  tm_config :: "TrackerConfig option"
  create_time :: u32
  dirty :: bool
  flushed :: bool
  tm_data :: "u8 list"
  proto :: TrackMsgCacheProto

definition new_TrackMessageImpl :: "u32 \<Rightarrow> TrackerConfig option \<Rightarrow> track_msg" where
  "new_TrackMessageImpl now config = \<lparr>tm_config = config, create_time = now, dirty = False, flushed = False,
     tm_data = [], proto = \<lparr>log_contents = [], log_commons = []\<rparr>\<rparr>"

definition AddContent :: "string \<Rightarrow> string \<Rightarrow> track_msg \<Rightarrow> track_msg throws" where
  "AddContent key value msg =
     throws_bind (assert_that (\<not> flushed msg) ''!flushed'')
       (\<lambda>_. Inr (msg\<lparr>proto := (proto msg)\<lparr>log_contents := log_contents (proto msg) @ [(key, value)]\<rparr>, dirty := True\<rparr>))"

definition AddParam :: "string \<Rightarrow> string \<Rightarrow> track_msg \<Rightarrow> track_msg throws" where
  "AddParam key value msg =
     throws_bind (assert_that (\<not> flushed msg) ''!flushed'')
       (\<lambda>_. Inr (msg\<lparr>proto := (proto msg)\<lparr>log_commons := log_commons (proto msg) @ [(key, value)]\<rparr>, dirty := True\<rparr>))"

definition Serialize :: "TrackMsgCacheProto codec \<Rightarrow> track_msg \<Rightarrow> u8 list \<times> track_msg" where
  "Serialize cod msg =
     (let msg = (if dirty msg \<or> tm_data msg = [] then msg\<lparr>tm_data := encode cod (proto msg), dirty := False\<rparr> else msg)
      in (tm_data msg, msg))"

definition GetSerializeSize :: "TrackMsgCacheProto codec \<Rightarrow> track_msg \<Rightarrow> nat" where
  "GetSerializeSize cod msg = length (encode cod (proto msg))"

text \<open>\<^verbatim>\<open>SerializeToBuffer\<close> fills the front of a buffer; None when it refuses.\<close>

definition SerializeToBuffer :: "TrackMsgCacheProto codec \<Rightarrow> track_msg \<Rightarrow> u8 list \<Rightarrow> u8 list option" where
  "SerializeToBuffer cod msg buffer =
     (let serialize_size = GetSerializeSize cod msg
      in if length buffer < serialize_size then None
         else if INT_MAX < serialize_size then None
         else Some (encode cod (proto msg) @ drop serialize_size buffer))"

definition Deserialize :: "TrackMsgCacheProto codec \<Rightarrow> u8 list \<Rightarrow> track_msg \<Rightarrow> track_msg option" where
  "Deserialize cod bs msg = map_option (\<lambda>p. msg\<lparr>proto := p\<rparr>) (decode cod bs)"

definition Flushed :: "track_msg \<Rightarrow> track_msg" where "Flushed msg = msg\<lparr>flushed := True\<rparr>"

definition IsFlushed :: "track_msg \<Rightarrow> bool" where "IsFlushed msg = flushed msg"

section \<open>Lemmas\<close>

lemma city_string_defined: "length str < 2 ^ 64 \<Longrightarrow> returns (city_string str)"
  unfolding city_string_def by (intro city_defined) simp_all

definition config_small :: "TrackerConfig \<Rightarrow> bool" where
  "config_small c \<longleftrightarrow> list_all (\<lambda>str. length str < 2 ^ 64)
     [topic c, endpoint c, access_keyid c, access_key_secret c, project c, log_store c]"

lemma Config_Hash_defined:
  assumes "config_small c"
  shows "returns (Config_Hash c)"
proof -
  have "returns (CityHash64 (concat (map (\<lambda>w. le_digits 8 (unat w)) [t, e, k, s, p, l])) 0 48)"
    for t e k s p l :: u64
    by (intro city_defined) simp_all
  then show ?thesis
    using assms by (auto simp: Config_Hash_def config_small_def intro!: bind_returns city_string_defined)
qed

lemma Config_Hash_memo:
  "Config_Hash c = Some (h, c') \<Longrightarrow> h \<noteq> 0 \<Longrightarrow> c' = c\<lparr>cfg_hash := h\<rparr> \<and> Config_Hash c' = Some (h, c')"
  by (auto simp: Config_Hash_def bind_eq_Some_conv split: if_splits)

lemma Config_Hash_idem: "Config_Hash c = Some (h, c') \<Longrightarrow> Config_Hash c' = Some (h, c')"
proof -
  assume a: "Config_Hash c = Some (h, c')"
  show ?thesis
  proof (cases "cfg_hash c = 0")
    case False
    then show ?thesis using a by (auto simp: Config_Hash_def)
  next
    case True
    then have c': "c' = c\<lparr>cfg_hash := h\<rparr>" using a by (auto simp: Config_Hash_def bind_eq_Some_conv)
    show ?thesis
    proof (cases "h = 0")
      case True
      then have "c' = c" using c' \<open>cfg_hash c = 0\<close> by (metis TrackerConfig.surjective TrackerConfig.update_convs(7))
      then show ?thesis using a by simp
    next
      case False
      then show ?thesis using c' by (simp add: Config_Hash_def)
    qed
  qed
qed

end
