(* ===== verification/Disk_Cache.thy ===== *)
theory Disk_Cache
  imports Track_Message
begin

text \<open>
  \<^verbatim>\<open>source/tracker/cache.h\<close> and \<^verbatim>\<open>cache.cpp\<close>: the file that keeps tracked messages until they are uploaded.
  The record \<open>disk_cache\<close> extends the file of \<open>Disk_File\<close>. The pointer \<^verbatim>\<open>cache_header\<close> points to the member
  \<^verbatim>\<open>header_buf\<close> or to the mapping of the file, whose writes go to the file's bytes; reading or writing
  outside the mapped bytes is undefined behaviour. The protobuf codecs, the clock and the operating
  system are parameters (\<open>cache_env\<close>), as are the bytes of the C++ objects that the code writes by
  mistake in the build without mappings. The target is little-endian.
\<close>

section \<open>Layout\<close>

record CacheHeader =
  ch_magic :: "u8 list"
  ver_code :: u32
  config_hash :: u64
  config_size :: u32
  record_count :: u32
  record_size :: u32

definition sizeof_CacheHeader :: nat where "sizeof_CacheHeader = 28"

definition config_offset :: nat where "config_offset = sizeof_CacheHeader"

record RecordHeader =
  rh_magic :: "u8 list"
  rh_hash :: u64
  rh_length :: u32
  rh_time :: u32

definition sizeof_RecordHeader :: nat where "sizeof_RecordHeader = 20"

definition cache_magic :: "u8 list" where "cache_magic = bytes_of ''tdsc''"
definition record_magic :: "u8 list" where "record_magic = bytes_of ''trcd''"
definition cache_version_code :: u32 where "cache_version_code = 1"
definition max_cache_size :: nat where "max_cache_size = 1024 * 1024 * 1"
definition cache_capability :: nat where "cache_capability = 1024 * 64"

definition slice :: "nat \<Rightarrow> nat \<Rightarrow> 'a list \<Rightarrow> 'a list" where
  "slice off n xs = take n (drop off xs)"

definition header_bytes :: "CacheHeader \<Rightarrow> u8 list" where
  "header_bytes h = ch_magic h @ le_digits 4 (unat (ver_code h)) @ le_digits 8 (unat (config_hash h))
     @ le_digits 4 (unat (config_size h)) @ le_digits 4 (unat (record_count h)) @ le_digits 4 (unat (record_size h))"

definition header_of_bytes :: "u8 list \<Rightarrow> CacheHeader" where
  "header_of_bytes d = \<lparr>ch_magic = slice 0 4 d, ver_code = of_nat (le_value (slice 4 4 d)),
     config_hash = of_nat (le_value (slice 8 8 d)), config_size = of_nat (le_value (slice 16 4 d)),
     record_count = of_nat (le_value (slice 20 4 d)), record_size = of_nat (le_value (slice 24 4 d))\<rparr>"

definition record_header_bytes :: "RecordHeader \<Rightarrow> u8 list" where
  "record_header_bytes r = rh_magic r @ le_digits 8 (unat (rh_hash r)) @ le_digits 4 (unat (rh_length r))
     @ le_digits 4 (unat (rh_time r))"

section \<open>The cache\<close>

record cache_env =
  env_os :: "nat \<Rightarrow> bool"
  env_now :: u32
  env_msg :: "TrackMsgCacheProto codec"
  env_cfg :: "TrackDiskCacheConfig codec"
  env_pointer :: "u8 list"
  env_config_object :: "TrackerConfig \<Rightarrow> u8 list"

datatype header_ref = HeaderBuf | Mapped nat | Unmapped | NullHeader

record disk_cache = disk_file +
  dc_hash :: u64
  dc_config :: "TrackerConfig option"
  header_buf :: CacheHeader
  cache_header :: header_ref

type_synonym 'a cache_io = "('a, disk_cache) io"

definition zero_header :: CacheHeader where
  "zero_header = \<lparr>ch_magic = [0, 0, 0, 0], ver_code = 0, config_hash = 0, config_size = 0, record_count = 0, record_size = 0\<rparr>"

definition new_DiskCache :: "u8 list option \<Rightarrow> bool \<Rightarrow> nat \<Rightarrow> u64 \<Rightarrow> TrackerConfig option \<Rightarrow> disk_cache" where
  "new_DiskCache contents parent n hash config =
     disk_file.extend (new_File contents parent n)
       (disk_cache.fields hash config zero_header HeaderBuf)"

definition IsMapped :: "disk_cache \<Rightarrow> bool" where
  "IsMapped c \<longleftrightarrow> cache_header c \<noteq> HeaderBuf"

text \<open>Loads and stores through \<^verbatim>\<open>cache_header\<close>.\<close>

definition mem_read :: "nat \<Rightarrow> nat \<Rightarrow> u8 list cache_io" where
  "mem_read off n c =
     (case (cache_header c, df_data c) of
        (Mapped m, Some d) \<Rightarrow> if off + n \<le> m \<and> off + n \<le> length d then Ret (slice off n d) c else Undef
      | _ \<Rightarrow> Undef)"

definition mem_write :: "nat \<Rightarrow> u8 list \<Rightarrow> unit cache_io" where
  "mem_write off bs c =
     (case (cache_header c, df_data c) of
        (Mapped m, Some d) \<Rightarrow>
          if off + length bs \<le> m \<and> off + length bs \<le> length d
          then Ret () (c\<lparr>df_data := Some (write_at off bs d)\<rparr>) else Undef
      | _ \<Rightarrow> Undef)"

definition get_header :: "CacheHeader cache_io" where
  "get_header c =
     (if cache_header c = HeaderBuf then Ret (header_buf c) c
      else io_bind (mem_read 0 sizeof_CacheHeader) (\<lambda>bs. io_ret (header_of_bytes bs)) c)"

definition put_header :: "CacheHeader \<Rightarrow> unit cache_io" where
  "put_header h c =
     (if cache_header c = HeaderBuf then Ret () (c\<lparr>header_buf := h\<rparr>) else mem_write 0 (header_bytes h) c)"

section \<open>Operations\<close>

definition CheckValid :: "bool cache_io" where
  "CheckValid =
     io_bind get_header (\<lambda>h. io_bind (io_get dc_hash) (\<lambda>hash.
     if ch_magic h \<noteq> cache_magic \<or> config_hash h \<noteq> hash then io_ret False
     else if ver_code h \<noteq> cache_version_code then io_ret False
     else io_bind Size (\<lambda>n.
       io_ret (\<not> (sizeof_CacheHeader + unat (config_size h) + unat (record_size h) > n)))))"

definition disk_config_of :: "TrackerConfig \<Rightarrow> TrackDiskCacheConfig" where
  "disk_config_of cfg = \<lparr>dcc_topic = topic cfg, dcc_endpoint = endpoint cfg, dcc_access_keyid = access_keyid cfg,
     dcc_access_key_secret = access_key_secret cfg, dcc_project = project cfg, dcc_log_store = log_store cfg\<rparr>"

definition config_of_disk :: "TrackDiskCacheConfig \<Rightarrow> TrackerConfig" where
  "config_of_disk p = \<lparr>topic = dcc_topic p, endpoint = dcc_endpoint p, access_keyid = dcc_access_keyid p,
     access_key_secret = dcc_access_key_secret p, project = dcc_project p, log_store = dcc_log_store p, cfg_hash = 0\<rparr>"

definition LoadConfig :: "cache_env \<Rightarrow> unit cache_io" where
  "LoadConfig env =
     io_bind get_header (\<lambda>h. io_bind Size (\<lambda>n.
     io_seq (io_assert (config_offset + unat (config_size h) \<le> n) ''config_offset + cache_header->config_size <= file->Size()'')
    (io_bind (\<lambda>c. if IsMapped c then mem_read config_offset (unat (config_size h)) c
               else io_bind (Read (env_os env) config_offset (unat (config_size h)))
                      (\<lambda>(got, _). io_ret (got @ replicate (unat (config_size h) - length got) 0)) c) (\<lambda>bs.
     case decode (env_cfg env) bs of
       None \<Rightarrow> io_assert False ''disk_cache_config.ParseFromArray(memory, cache_header->config_size)''
     | Some p \<Rightarrow>
         (case Config_Hash (config_of_disk p) of
            None \<Rightarrow> io_undef
          | Some (h', new_conf) \<Rightarrow>
              io_bind (io_get dc_hash) (\<lambda>hash.
              io_seq (io_assert (h' = hash) ''new_conf->Hash() == hash'')
                     (io_upd (\<lambda>c. c\<lparr>dc_config := Some new_conf\<rparr>))))))))"

text \<open>\<^verbatim>\<open>config && config->Hash() == hash\<close>; the hash is kept in the shared configuration.\<close>

definition config_matches :: "bool cache_io" where
  "config_matches c =
     (case dc_config c of
        None \<Rightarrow> Ret False c
      | Some cfg \<Rightarrow> (case Config_Hash cfg of
            None \<Rightarrow> Undef
          | Some (h, cfg') \<Rightarrow> Ret (h = dc_hash c) (c\<lparr>dc_config := Some cfg'\<rparr>)))"

definition SaveConfig :: "cache_env \<Rightarrow> unit cache_io" where
  "SaveConfig env =
     io_seq (io_require config_matches ''config && config->Hash() == hash'')
    (io_bind (io_get (\<lambda>c. encode (env_cfg env) (disk_config_of (the (dc_config c))))) (\<lambda>bs.
     io_bind Size (\<lambda>n.
     io_seq (io_assert (int (length bs) \<le> (int n - int sizeof_CacheHeader) mod 2 ^ 64) ''size <= file->Size() - sizeof(CacheHeader)'')
    (io_bind (io_get IsMapped) (\<lambda>mapped.
     io_seq (io_assert (length bs \<le> INT_MAX) ''disk_cache_config.SerializeToArray(memory, size)'')
    (if mapped then
       io_seq (mem_write sizeof_CacheHeader bs)
      (io_bind get_header (\<lambda>h. io_bind (io_get dc_hash) (\<lambda>hash.
       io_seq (put_header (h\<lparr>config_size := of_nat (length bs), config_hash := hash\<rparr>))
              (io_require (Commit (env_os env)) ''file->Commit()''))))
     else
       io_seq (io_require (Write (env_os env) bs sizeof_CacheHeader) ''file->Write(memory.data(), sizeof(CacheHeader), size)'')
      (io_bind get_header (\<lambda>h. io_bind (io_get dc_hash) (\<lambda>hash.
       io_seq (put_header (h\<lparr>config_size := of_nat (length bs), config_hash := hash\<rparr>))
      (io_bind get_header (\<lambda>h.
       io_seq (io_require (Write (env_os env) (header_bytes h) 0) ''file->Write(*cache_header)'')
              (io_require (File_Flush (env_os env)) ''file->Flush()''))))))))))))"

text \<open>
  \<^verbatim>\<open>Reset\<close> shrinks a file that grew. It unmaps first, so a failed \<^verbatim>\<open>Resize\<close> or \<^verbatim>\<open>Map\<close> leaves
  \<^verbatim>\<open>cache_header\<close> on memory that is no longer mapped, or null.
\<close>

definition shrink :: "cache_env \<Rightarrow> unit cache_io" where
  "shrink env =
     io_bind (io_get IsMapped) (\<lambda>mapped.
     io_seq (if mapped then
               io_seq Size (io_seq (io_require (Unmap (env_os env)) ''Unmap(cache_header, file->Size())'')
                 (io_upd (\<lambda>c. c\<lparr>cache_header := Unmapped\<rparr>)))
             else io_ret ())
    (io_seq (io_require (Resize (env_os env) cache_capability) ''file->Resize(cache_capability)'')
    (if mapped then
       io_bind (Map (env_os env) cache_capability) (\<lambda>m. case m of
         Some _ \<Rightarrow> io_upd (\<lambda>c. c\<lparr>cache_header := Mapped cache_capability\<rparr>)
       | None \<Rightarrow> io_seq (io_upd (\<lambda>c. c\<lparr>cache_header := NullHeader\<rparr>)) (io_assert False ''cache_header''))
     else io_ret ())))"

definition Cache_Reset :: "cache_env \<Rightarrow> unit cache_io" where
  "Cache_Reset env =
     io_bind get_header (\<lambda>h.
     io_seq (put_header (h\<lparr>ch_magic := cache_magic, ver_code := cache_version_code, record_count := 0, record_size := 0\<rparr>))
    (io_seq (\<lambda>c. if IsMapped c then io_require (Commit (env_os env)) ''file->Commit()'' c
              else case dc_config c of
                     None \<Rightarrow> Undef
                   | Some cfg \<Rightarrow>
                       io_seq (io_require (Write (env_os env) (env_config_object env cfg) 0) ''file->Write(*config)'')
                              (io_require (File_Flush (env_os env)) ''file->Flush()'') c)
    (io_bind Size (\<lambda>n.
     io_seq (if n > cache_capability then shrink env else io_ret ())
            (SaveConfig env)))))"

definition Cache_Init :: "cache_env \<Rightarrow> unit cache_io" where
  "Cache_Init env =
     io_seq (io_require (Open (env_os env) ReadWrite) ''Cache file open failed!'')
    (io_bind Size (\<lambda>n.
     io_bind (if n < cache_capability
              then io_seq (io_require (Resize (env_os env) cache_capability) ''file->Resize(cache_capability)'') (io_ret True)
              else io_ret False) (\<lambda>should_init.
     io_bind Size (\<lambda>n.
     io_bind (Map (env_os env) n) (\<lambda>m.
     io_seq (case m of
               Some _ \<Rightarrow> io_upd (\<lambda>c. c\<lparr>cache_header := Mapped n\<rparr>)
             | None \<Rightarrow> io_bind (Read (env_os env) 0 sizeof_CacheHeader) (\<lambda>(got, ok).
                         if ok then put_header (header_of_bytes got) else io_undef))
    (io_bind (if should_init then io_ret False else CheckValid) (\<lambda>valid.
     if \<not> valid then Cache_Reset env
     else (\<lambda>c. if dc_config c = None then LoadConfig env c else Ret () c))))))))"

definition GetCount :: "u32 cache_io" where
  "GetCount = io_bind get_header (\<lambda>h. io_ret (record_count h))"

text \<open>The growing step of \<^verbatim>\<open>Push\<close>: False is its early \<^verbatim>\<open>return false\<close>.\<close>

definition grow :: "cache_env \<Rightarrow> bool cache_io" where
  "grow env =
     io_bind Size (\<lambda>old_size.
     io_bind (Resize (env_os env) (old_size + cache_capability)) (\<lambda>ok.
     if \<not> ok then io_ret False
     else io_bind (io_get IsMapped) (\<lambda>mapped.
       if mapped then
         io_bind (Map (env_os env) (old_size + cache_capability)) (\<lambda>m. case m of
           None \<Rightarrow> io_ret False
         | Some _ \<Rightarrow> io_bind (Unmap (env_os env)) (\<lambda>ok.
             if \<not> ok then io_ret False
             else io_seq (io_upd (\<lambda>c. c\<lparr>cache_header := Mapped (old_size + cache_capability)\<rparr>)) (io_ret True)))
       else io_ret True)))"

definition count_record :: "nat \<Rightarrow> unit cache_io" where
  "count_record cache_size =
     io_bind get_header (\<lambda>h.
     put_header (h\<lparr>record_count := record_count h + 1,
       record_size := record_size h + of_nat (cache_size + sizeof_RecordHeader)\<rparr>))"

definition append_record :: "cache_env \<Rightarrow> track_msg \<Rightarrow> nat \<Rightarrow> bool cache_io" where
  "append_record env msg cache_size =
     io_bind get_header (\<lambda>h.
     let write_offset = sizeof_CacheHeader + unat (config_size h) + unat (record_size h);
         header = (\<lambda>hash. record_header_bytes \<lparr>rh_magic = record_magic, rh_hash = hash,
                     rh_length = of_nat cache_size, rh_time = create_time msg\<rparr>)
     in io_bind (io_get IsMapped) (\<lambda>mapped.
        if mapped then
          io_bind (mem_read (write_offset + sizeof_RecordHeader) cache_size) (\<lambda>buffer.
          case SerializeToBuffer (env_msg env) msg buffer of
            None \<Rightarrow> io_ret False
          | Some content \<Rightarrow>
              (case CityHash64 content 0 cache_size of
                 None \<Rightarrow> io_undef
               | Some hash \<Rightarrow>
                   io_seq (mem_write (write_offset + sizeof_RecordHeader) content)
                  (io_seq (mem_write write_offset (header hash))
                  (io_seq (count_record cache_size) (Commit (env_os env))))))
        else
          (case SerializeToBuffer (env_msg env) msg (replicate cache_size 0) of
            None \<Rightarrow> io_ret False
          | Some content \<Rightarrow>
              (case CityHash64 content 0 cache_size of
                 None \<Rightarrow> io_undef
               | Some hash \<Rightarrow>
                   io_bind (Write (env_os env) (header hash) write_offset) (\<lambda>ok. if \<not> ok then io_ret False else
                   io_bind (Write (env_os env) content (write_offset + sizeof_RecordHeader)) (\<lambda>ok. if \<not> ok then io_ret False else
                   io_seq (count_record cache_size)
                  (io_bind (Write (env_os env) (env_pointer env) 0) (\<lambda>ok. if \<not> ok then io_ret False else
                   File_Flush (env_os env)))))))))"

definition Cache_Push :: "cache_env \<Rightarrow> track_msg \<Rightarrow> bool cache_io" where
  "Cache_Push env msg =
     (let cache_size = GetSerializeSize (env_msg env) msg
      in io_bind get_header (\<lambda>h.
         let next_size = sizeof_CacheHeader + unat (config_size h) + unat (record_size h) + sizeof_RecordHeader + cache_size
         in if next_size > max_cache_size then io_ret False
            else io_bind Size (\<lambda>n.
              io_bind (if next_size > n then grow env else io_ret True) (\<lambda>ok.
              if \<not> ok then io_ret False else append_record env msg cache_size))))"

text \<open>
  The loop of \<^verbatim>\<open>Load\<close> over the bytes from \<^verbatim>\<open>memory_start\<close> on; the first number counts the records left.
  None is a load outside the bytes.
\<close>

fun load_loop :: "cache_env \<Rightarrow> TrackerConfig option \<Rightarrow> u8 list \<Rightarrow> nat \<Rightarrow> nat \<Rightarrow> nat \<Rightarrow> nat \<Rightarrow> track_msg list \<Rightarrow> track_msg list option" where
  "load_loop env config mem rec_size 0 read_size cur_offset result = Some result"
| "load_loop env config mem rec_size (Suc k) read_size cur_offset result =
     (if \<not> read_size < rec_size then Some result
      else if length mem < cur_offset + 16 then None
      else
        let len = le_value (slice (cur_offset + 12) 4 mem)
        in if cur_offset + sizeof_RecordHeader + len > rec_size then Some result
           else
             let content = slice (cur_offset + sizeof_RecordHeader) len mem;
                 go_on = load_loop env config mem rec_size k (read_size + (sizeof_RecordHeader + len))
                           (cur_offset + (sizeof_RecordHeader + len))
             in if slice cur_offset 4 mem \<noteq> record_magic then go_on result
                else Option.bind (CityHash64 content 0 len) (\<lambda>hash.
                  if of_nat (le_value (slice (cur_offset + 4) 8 mem)) \<noteq> hash then go_on result
                  else case Deserialize (env_msg env) content (new_TrackMessageImpl (env_now env) config) of
                         None \<Rightarrow> go_on result
                       | Some msg \<Rightarrow> go_on (result @ [msg])))"

definition Cache_Load :: "cache_env \<Rightarrow> track_msg list cache_io" where
  "Cache_Load env =
     io_bind get_header (\<lambda>h. io_bind Size (\<lambda>n.
     let start = sizeof_CacheHeader + unat (config_size h);
         rec_size = unat (record_size h)
     in if start + rec_size > n then io_ret []
        else
          io_bind (\<lambda>c. case (cache_header c, df_data c) of
                      (HeaderBuf, _) \<Rightarrow>
                        io_bind (Read (env_os env) start rec_size)
                          (\<lambda>(got, _). io_ret (got @ replicate (rec_size - length got) 0)) c
                    | (Mapped m, Some d) \<Rightarrow> Ret (drop start (take m d)) c
                    | _ \<Rightarrow> Undef) (\<lambda>mem.
          io_bind (io_get dc_config) (\<lambda>config.
          case load_loop env config mem rec_size (unat (record_count h)) 0 0 [] of
            None \<Rightarrow> io_undef
          | Some result \<Rightarrow> io_ret result))))"

definition Cache_Clear :: "cache_env \<Rightarrow> unit cache_io" where
  "Cache_Clear env = Cache_Reset env"

definition Cache_Destroy :: "cache_env \<Rightarrow> bool cache_io" where
  "Cache_Destroy env = io_bind (Close (env_os env)) (\<lambda>ok. if ok then File_Delete (env_os env) else io_ret False)"

text \<open>The destructor unmaps, then the file is closed by its own destructor.\<close>

definition DiskCache_destructor :: "cache_env \<Rightarrow> unit cache_io" where
  "DiskCache_destructor env =
     io_seq (\<lambda>c. if IsMapped c then io_seq Size (io_seq (Unmap (env_os env)) (io_upd (\<lambda>c. c\<lparr>cache_header := Unmapped\<rparr>))) c
              else Ret () c)
            (io_seq (File_destructor (env_os env)) (io_ret ()))"

section \<open>The layout round trips\<close>

lemma slice_append_left [simp]: "off + n \<le> length xs \<Longrightarrow> slice off n (xs @ ys) = slice off n xs"
  by (simp add: slice_def)

lemma slice_append_right: "length xs \<le> off \<Longrightarrow> slice off n (xs @ ys) = slice (off - length xs) n ys"
  by (simp add: slice_def)

lemma slice_all [simp]: "length xs = n \<Longrightarrow> slice 0 n xs = xs"
  by (simp add: slice_def)

lemma length_slice [simp]: "off + n \<le> length xs \<Longrightarrow> length (slice off n xs) = n"
  by (simp add: slice_def)

lemma word_of_digits [simp]:
  "of_nat (le_value (le_digits 4 (unat w))) = (w :: u32)"
  "of_nat (le_value (le_digits 8 (unat v))) = (v :: u64)"
proof -
  have "unat w < 256 ^ 4" "unat v < 256 ^ 8"
    using unsigned_less [of w] unsigned_less [of v] by simp_all
  then have "unat w mod 256 ^ 4 = unat w" "unat v mod 256 ^ 8 = unat v" by simp_all
  then show "of_nat (le_value (le_digits 4 (unat w))) = w" "of_nat (le_value (le_digits 8 (unat v))) = v"
    by (simp_all only: le_value_digits) simp_all
qed

lemma length_header_bytes [simp]: "length (ch_magic h) = 4 \<Longrightarrow> length (header_bytes h) = 28"
  by (simp add: header_bytes_def)

lemma header_roundtrip [simp]: "length (ch_magic h) = 4 \<Longrightarrow> header_of_bytes (header_bytes h) = h"
  by (simp add: header_of_bytes_def header_bytes_def slice_append_right del: le_value_digits)

lemma length_record_header [simp]: "length (rh_magic r) = 4 \<Longrightarrow> length (record_header_bytes r) = 20"
  by (simp add: record_header_bytes_def)

lemma length_magic [simp]: "length cache_magic = 4" "length record_magic = 4"
  by (simp_all add: cache_magic_def record_magic_def)

lemma write_at_middle:
  "length x = length b \<Longrightarrow> off = length a \<Longrightarrow> write_at off b (a @ x @ r) = a @ b @ r"
  by (simp add: write_at_def)

section \<open>What a cache file holds\<close>

text \<open>The record of a message: its header, with the checksum of the body, and the body.\<close>

definition record_bytes :: "cache_env \<Rightarrow> u32 \<times> TrackMsgCacheProto \<Rightarrow> u8 list" where
  "record_bytes env = (\<lambda>(time, p). let body = encode (env_msg env) p in
     record_header_bytes \<lparr>rh_magic = record_magic, rh_hash = the (CityHash64 body 0 (length body)),
       rh_length = of_nat (length body), rh_time = time\<rparr> @ body)"

definition records :: "cache_env \<Rightarrow> (u32 \<times> TrackMsgCacheProto) list \<Rightarrow> u8 list" where
  "records env ms = concat (map (record_bytes env) ms)"

definition config_bytes :: "cache_env \<Rightarrow> TrackerConfig \<Rightarrow> u8 list" where
  "config_bytes env cfg = encode (env_cfg env) (disk_config_of cfg)"

definition holds_header :: "cache_env \<Rightarrow> u64 \<Rightarrow> TrackerConfig \<Rightarrow> (u32 \<times> TrackMsgCacheProto) list \<Rightarrow> CacheHeader" where
  "holds_header env hash cfg ms = \<lparr>ch_magic = cache_magic, ver_code = cache_version_code, config_hash = hash,
     config_size = of_nat (length (config_bytes env cfg)), record_count = of_nat (length ms),
     record_size = of_nat (length (records env ms))\<rparr>"

definition used_size :: "cache_env \<Rightarrow> TrackerConfig \<Rightarrow> (u32 \<times> TrackMsgCacheProto) list \<Rightarrow> nat" where
  "used_size env cfg ms = 28 + length (config_bytes env cfg) + length (records env ms)"

text \<open>The bytes of a file that holds the configuration and the messages.\<close>

definition file_holds :: "cache_env \<Rightarrow> u64 \<Rightarrow> TrackerConfig \<Rightarrow> (u32 \<times> TrackMsgCacheProto) list \<Rightarrow> u8 list \<Rightarrow> bool" where
  "file_holds env hash cfg ms d \<longleftrightarrow>
     (\<exists>rest. d = header_bytes (holds_header env hash cfg ms) @ config_bytes env cfg @ records env ms @ rest)
     \<and> cache_capability \<le> length d \<and> length d \<le> max_cache_size + cache_capability
     \<and> used_size env cfg ms \<le> max_cache_size"

definition config_ok :: "u64 \<Rightarrow> TrackerConfig \<Rightarrow> bool" where
  "config_ok hash cfg \<longleftrightarrow> Config_Hash (cfg\<lparr>cfg_hash := 0\<rparr>) = Some (hash, cfg)"

text \<open>An opened cache that holds them.\<close>

definition cache_holds :: "cache_env \<Rightarrow> TrackerConfig \<Rightarrow> (u32 \<times> TrackMsgCacheProto) list \<Rightarrow> disk_cache \<Rightarrow> bool" where
  "cache_holds env cfg ms c \<longleftrightarrow>
     df_file c = OpenStream \<and> df_mode c = ReadWrite \<and> dc_config c = Some cfg \<and> config_ok (dc_hash c) cfg
     \<and> length (config_bytes env cfg) + 28 \<le> cache_capability
     \<and> (\<exists>d. df_data c = Some d \<and> cache_header c = Mapped (length d) \<and> cur_size c = length d
          \<and> file_holds env (dc_hash c) cfg ms d)"

lemma config_ok_Hash: "config_ok hash cfg \<Longrightarrow> Config_Hash cfg = Some (hash, cfg)"
proof -
  assume a: "config_ok hash cfg"
  then have "cfg\<lparr>cfg_hash := hash\<rparr> = cfg"
    by (auto simp: config_ok_def Config_Hash_def bind_eq_Some_conv)
  then have "cfg_hash cfg = hash" by (metis TrackerConfig.select_convs(7) TrackerConfig.surjective TrackerConfig.update_convs(7))
  with a show ?thesis by (auto simp: config_ok_def Config_Hash_def bind_eq_Some_conv)
qed

lemma length_record_bytes [simp]:
  "length (record_bytes env (time, p)) = 20 + length (encode (env_msg env) p)"
  by (simp add: record_bytes_def Let_def)

lemma records_snoc: "records env (ms @ [m]) = records env ms @ record_bytes env m"
  by (simp add: records_def)

lemma records_Cons: "records env (m # ms) = record_bytes env m @ records env ms"
  by (simp add: records_def)

lemma records_Nil [simp]: "records env [] = []"
  by (simp add: records_def)

lemma length_records: "20 * length ms \<le> length (records env ms)"
proof (induction ms)
  case Nil
  then show ?case by simp
next
  case (Cons m ms)
  then show ?case by (cases m) (simp add: records_Cons)
qed

lemma unat_u32 [simp]: "n \<le> max_cache_size \<Longrightarrow> unat (of_nat n :: u32) = n"
  by (simp add: max_cache_size_def unat_of_nat take_bit_eq_mod)

lemma holds_header_sizes [simp]:
  assumes "used_size env cfg ms \<le> max_cache_size"
  shows "unat (config_size (holds_header env hash cfg ms)) = length (config_bytes env cfg)"
    "unat (record_size (holds_header env hash cfg ms)) = length (records env ms)"
    "unat (record_count (holds_header env hash cfg ms)) = length ms"
  using assms length_records [of ms env] by (simp_all add: holds_header_def used_size_def)

lemma holds_magic [simp]: "length (ch_magic (holds_header env hash cfg ms)) = 4"
  by (simp add: holds_header_def)

lemma get_header_mapped:
  assumes "df_data c = Some (header_bytes h @ rest)" and "cache_header c = Mapped n" and "28 \<le> n"
    and "length (ch_magic h) = 4"
  shows "get_header c = Ret h c"
  using assms by (simp add: get_header_def io_bind_def mem_read_def sizeof_CacheHeader_def io_ret_def)

lemma put_header_mapped:
  assumes "df_data c = Some (header_bytes h @ rest)" and "cache_header c = Mapped n" and "28 \<le> n"
    and "length (ch_magic h) = 4" and "length (ch_magic h') = 4"
  shows "put_header h' c = Ret () (c\<lparr>df_data := Some (header_bytes h' @ rest)\<rparr>)"
  using assms write_at_middle [of "header_bytes h" "header_bytes h'" 0 "[]" rest]
  by (simp add: put_header_def mem_write_def)

lemma holds_get_header:
  assumes "cache_holds env cfg ms c"
  shows "get_header c = Ret (holds_header env (dc_hash c) cfg ms) c"
proof -
  from assms obtain rest where "df_data c = Some (header_bytes (holds_header env (dc_hash c) cfg ms) @ rest)"
      "cache_header c = Mapped (length (the (df_data c)))"
    by (auto simp: cache_holds_def file_holds_def)
  then show ?thesis by (intro get_header_mapped) auto
qed

lemma holds_Size:
  assumes "cache_holds env cfg ms c"
  shows "Size c = Ret (length (the (df_data c))) c"
  using assms by (auto simp: cache_holds_def file_holds_def cache_capability_def intro!: Size_cached)

section \<open>Pushing\<close>

lemma hash_defined: "length bs < 2 ^ 64 \<Longrightarrow> \<exists>h. CityHash64 bs 0 (length bs) = Some h"
  using CityHash64_defined [of 0 "length bs" bs] by (auto simp: returns_def)

lemma mem_read_ok:
  "cache_header c = Mapped m \<Longrightarrow> df_data c = Some d \<Longrightarrow> off + n \<le> m \<Longrightarrow> off + n \<le> length d \<Longrightarrow>
   mem_read off n c = Ret (slice off n d) c"
  by (simp add: mem_read_def)

lemma mem_write_ok:
  "cache_header c = Mapped m \<Longrightarrow> df_data c = Some d \<Longrightarrow> off + length bs \<le> m \<Longrightarrow> off + length bs \<le> length d \<Longrightarrow>
   mem_write off bs c = Ret () (c\<lparr>df_data := Some (write_at off bs d)\<rparr>)"
  by (simp add: mem_write_def)

lemma mem_write_part:
  assumes "df_data c = Some (a @ x @ z)" and "cache_header c = Mapped (length (a @ x @ z))" and "length bs = length x"
    and "off = length a"
  shows "mem_write off bs c = Ret () (c\<lparr>df_data := Some (a @ bs @ z)\<rparr>)"
  using assms write_at_middle [of x bs off a z] by (simp add: mem_write_def)

lemma append_record_holds:
  fixes msg :: track_msg
  assumes os: "\<forall>n. env_os env n" and c: "cache_holds env cfg ms c"
    and body: "body = encode (env_msg env) (proto msg)"
    and fits: "used_size env cfg ms + 20 + length body \<le> length (the (df_data c))"
    and max: "used_size env cfg ms + 20 + length body \<le> max_cache_size"
  shows "\<exists>c'. append_record env msg (length body) c = Ret True c' \<and> dc_hash c' = dc_hash c
     \<and> cache_holds env cfg (ms @ [(create_time msg, proto msg)]) c'"
proof -
  let ?h = "holds_header env (dc_hash c) cfg ms" and ?ms' = "ms @ [(create_time msg, proto msg)]"
  let ?C = "config_bytes env cfg" and ?R = "records env ms"
  from c obtain rest where d: "df_data c = Some (header_bytes ?h @ ?C @ ?R @ rest)"
      and ch: "cache_header c = Mapped (28 + length ?C + length ?R + length rest)"
      and len: "cache_capability \<le> 28 + length ?C + length ?R + length rest"
         "28 + length ?C + length ?R + length rest \<le> max_cache_size + cache_capability"
      and used: "used_size env cfg ms \<le> max_cache_size"
    by (auto simp: cache_holds_def file_holds_def)
  define x y z where "x = take 20 rest" and "y = take (length body) (drop 20 rest)" and "z = drop (20 + length body) rest"
  have room: "20 + length body \<le> length rest" using fits d by (simp add: used_size_def)
  have rest: "rest = x @ y @ z" "length x = 20" "length y = length body"
    using room append_take_drop_id [of 20 rest] append_take_drop_id [of "length body" "drop 20 rest"]
    by (simp_all add: x_def y_def z_def add.commute)
  from hash_defined [of body] max obtain hash where hash: "CityHash64 body 0 (length body) = Some hash"
    by (auto simp: max_cache_size_def)
  let ?off = "28 + length ?C + length ?R"
  define hdr where "hdr = record_header_bytes \<lparr>rh_magic = record_magic, rh_hash = hash,
                     rh_length = of_nat (length body), rh_time = create_time msg\<rparr>"
  have hdr: "length hdr = 20" by (simp add: hdr_def)
  have rb: "records env ?ms' = ?R @ hdr @ body"
    using hash by (simp add: records_snoc record_bytes_def hdr_def body Let_def)
  define c1 where "c1 = c\<lparr>df_data := Some (header_bytes ?h @ ?C @ ?R @ x @ body @ z)\<rparr>"
  define c2 where "c2 = c\<lparr>df_data := Some (header_bytes ?h @ ?C @ ?R @ hdr @ body @ z)\<rparr>"
  define c3 where "c3 = c\<lparr>df_data := Some (header_bytes (holds_header env (dc_hash c) cfg ?ms') @ ?C @ ?R @ hdr @ body @ z)\<rparr>"
  have "mem_write (?off + 20) body c = Ret () (c\<lparr>df_data := Some ((header_bytes ?h @ ?C @ ?R @ x) @ body @ z)\<rparr>)"
    by (rule mem_write_part [where x = y]) (use d ch rest in simp_all)
  then have w1: "mem_write (?off + 20) body c = Ret () c1" by (simp add: c1_def)
  have "mem_write ?off hdr c1 = Ret () (c1\<lparr>df_data := Some ((header_bytes ?h @ ?C @ ?R) @ hdr @ body @ z)\<rparr>)"
    by (rule mem_write_part [where x = x]) (use ch rest hdr in \<open>simp_all add: c1_def\<close>)
  then have w2: "mem_write ?off hdr c1 = Ret () c2" by (simp add: c1_def c2_def)
  have h': "?h\<lparr>record_count := record_count ?h + 1, record_size := record_size ?h + of_nat (length body + 20)\<rparr>
     = holds_header env (dc_hash c) cfg ?ms'"
    using rb hdr by (simp add: holds_header_def algebra_simps)
  have w3: "count_record (length body) c2 = Ret () c3"
    using get_header_mapped [of c2 ?h "?C @ ?R @ hdr @ body @ z"] ch h'
      put_header_mapped [of c2 ?h "?C @ ?R @ hdr @ body @ z" _ "holds_header env (dc_hash c) cfg ?ms'"]
    by (simp add: count_record_def io_bind_def c2_def c3_def sizeof_RecordHeader_def)
  have c4: "Commit (env_os env) c3 = Ret True (c3\<lparr>df_calls := df_calls c3 + 2\<rparr>)"
    using os c by (intro Commit_ok) (auto simp: c3_def cache_holds_def)
  have ser: "SerializeToBuffer (env_msg env) msg (slice (?off + 20) (length body) (header_bytes ?h @ ?C @ ?R @ rest)) = Some body"
    using rest max by (simp add: SerializeToBuffer_def GetSerializeSize_def body [symmetric] INT_MAX_def max_cache_size_def Let_def)
  have rd: "mem_read (?off + 20) (length body) c = Ret (slice (?off + 20) (length body) (header_bytes ?h @ ?C @ ?R @ rest)) c"
    using rest by (intro mem_read_ok [OF ch d]) auto
  have "append_record env msg (length body) c = Ret True (c3\<lparr>df_calls := df_calls c3 + 2\<rparr>)"
    using used holds_get_header [OF c] ch rd ser hash w1 w2 w3 c4
    by (simp add: append_record_def io_bind_def io_seq_def io_get_def IsMapped_def Let_def
        sizeof_CacheHeader_def sizeof_RecordHeader_def hdr_def [symmetric])
  moreover have "cache_holds env cfg ?ms' (c3\<lparr>df_calls := df_calls c3 + 2\<rparr>)"
    using c max ch d rb hdr len rest
    by (auto simp: cache_holds_def c3_def file_holds_def used_size_def)
  ultimately show ?thesis by (auto simp: c3_def)
qed
lemma grow_holds:
  assumes os: "\<forall>n. env_os env n" and c: "cache_holds env cfg ms c" and small: "length (the (df_data c)) \<le> max_cache_size"
  shows "\<exists>c'. grow env c = Ret True c' \<and> dc_hash c' = dc_hash c \<and> cache_holds env cfg ms c'
     \<and> length (the (df_data c')) = length (the (df_data c)) + cache_capability"
proof -
  from c obtain d where d: "df_data c = Some d" "cache_header c = Mapped (length d)" "cur_size c = length d"
      "file_holds env (dc_hash c) cfg ms d"
    by (auto simp: cache_holds_def)
  let ?n = "length d + cache_capability"
  define c1 where "c1 = c\<lparr>df_calls := Suc (df_calls c), df_data := Some (d @ replicate cache_capability 0), cur_size := ?n\<rparr>"
  define c3 where "c3 = c1\<lparr>df_calls := df_calls c1 + 2, cache_header := Mapped ?n\<rparr>"
  have n: "?n < 2 ^ 63" "?n \<noteq> 0" using small d by (auto simp: max_cache_size_def cache_capability_def)
  have "Resize (env_os env) ?n c = Ret True c1"
    using Resize_ok [OF os, of c ?n] c d(1) n by (simp add: cache_holds_def c1_def)
  moreover have "Map (env_os env) ?n c1 = Ret (Some (True, True)) (c1\<lparr>df_calls := Suc (df_calls c1)\<rparr>)"
    using c n by (intro Map_ok [OF os]) (auto simp: c1_def cache_holds_def)
  ultimately have "grow env c = Ret True c3"
    using holds_Size [OF c] os d by (simp add: grow_def io_bind_def io_get_def io_seq_def io_upd_def io_ret_def
        IsMapped_def c1_def c3_def Unmap_def syscall_def)
  moreover have "cache_holds env cfg ms c3"
    using c d small by (auto simp: cache_holds_def c1_def c3_def file_holds_def)
  ultimately show ?thesis using d by (simp add: c3_def c1_def)
qed

lemma append_record_overruns:
  assumes c: "cache_holds env cfg ms c" and "cache_header c = Mapped n"
    and "n < used_size env cfg ms + 20 + k"
  shows "append_record env msg k c = Undef"
proof -
  have "used_size env cfg ms \<le> max_cache_size" using c by (auto simp: cache_holds_def file_holds_def)
  moreover have "mem_read (used_size env cfg ms + 20) k c = Undef"
    using assms by (auto simp: mem_read_def split: option.splits)
  ultimately show ?thesis
    using holds_get_header [OF c] assms(2)
    by (simp add: append_record_def io_bind_def io_get_def IsMapped_def Let_def used_size_def sizeof_CacheHeader_def
        sizeof_RecordHeader_def)
qed

text \<open>The three outcomes of a push on a healthy system.\<close>

lemma Cache_Push_holds:
  assumes os: "\<forall>n. env_os env n" and c: "cache_holds env cfg ms c"
    and size: "next = used_size env cfg ms + 20 + GetSerializeSize (env_msg env) msg"
  shows "max_cache_size < next \<Longrightarrow> Cache_Push env msg c = Ret False c"
    and "next \<le> max_cache_size \<Longrightarrow> next \<le> length (the (df_data c)) + cache_capability \<Longrightarrow>
      \<exists>c'. Cache_Push env msg c = Ret True c' \<and> dc_hash c' = dc_hash c
        \<and> cache_holds env cfg (ms @ [(create_time msg, proto msg)]) c'"
    and "next \<le> max_cache_size \<Longrightarrow> length (the (df_data c)) + cache_capability < next \<Longrightarrow>
      Cache_Push env msg c = Undef"
proof -
  let ?k = "GetSerializeSize (env_msg env) msg" and ?n = "length (the (df_data c))"
  have used: "used_size env cfg ms \<le> max_cache_size" using c by (auto simp: cache_holds_def file_holds_def)
  have nx: "sizeof_CacheHeader + length (config_bytes env cfg) + length (records env ms) + sizeof_RecordHeader + ?k = next"
    by (simp add: size used_size_def sizeof_CacheHeader_def sizeof_RecordHeader_def)
  have step: "Cache_Push env msg c = (if next > max_cache_size then Ret False c
      else if next > ?n then
        (case grow env c of Ret ok c' \<Rightarrow> if \<not> ok then Ret False c' else append_record env msg ?k c'
           | Throw e c' \<Rightarrow> Throw e c' | Undef \<Rightarrow> Undef)
      else append_record env msg ?k c)"
    using used holds_get_header [OF c] holds_Size [OF c] nx
    by (auto simp: Cache_Push_def io_bind_def io_ret_def Let_def split: outcome.splits)
  have app: "\<exists>c''. append_record env msg ?k c' = Ret True c'' \<and> dc_hash c'' = dc_hash c'
      \<and> cache_holds env cfg (ms @ [(create_time msg, proto msg)]) c''"
    if "cache_holds env cfg ms c'" "next \<le> length (the (df_data c'))" "next \<le> max_cache_size" for c'
    using append_record_holds [OF os that(1) refl, of msg] that size by (simp add: GetSerializeSize_def)
  show "max_cache_size < next \<Longrightarrow> Cache_Push env msg c = Ret False c" by (simp add: step)
  assume max: "next \<le> max_cache_size"
  have gr: "\<exists>c'. grow env c = Ret True c' \<and> dc_hash c' = dc_hash c \<and> cache_holds env cfg ms c'
     \<and> length (the (df_data c')) = ?n + cache_capability" if "?n < next"
    using grow_holds [OF os c] max that by simp
  { assume "next \<le> ?n + cache_capability"
    then show "\<exists>c'. Cache_Push env msg c = Ret True c' \<and> dc_hash c' = dc_hash c
        \<and> cache_holds env cfg (ms @ [(create_time msg, proto msg)]) c'"
      using max gr app [OF c] app by (cases "?n < next") (fastforce simp: step)+ }
  { assume over: "?n + cache_capability < next"
    then obtain c' where c': "grow env c = Ret True c'" "cache_holds env cfg ms c'"
        "length (the (df_data c')) = ?n + cache_capability"
      using gr by auto
    then have "cache_header c' = Mapped (?n + cache_capability)" by (auto simp: cache_holds_def)
    with c'(2) over size have "append_record env msg ?k c' = Undef"
      by (intro append_record_overruns) auto
    then show "Cache_Push env msg c = Undef" using max over c' by (simp add: step) }
qed

section \<open>Loading\<close>

definition loaded :: "cache_env \<Rightarrow> TrackerConfig option \<Rightarrow> u32 \<times> TrackMsgCacheProto \<Rightarrow> track_msg" where
  "loaded env config m = (new_TrackMessageImpl (env_now env) config)\<lparr>proto := snd m\<rparr>"

text \<open>The messages \<^verbatim>\<open>Load\<close> can parse again: those whose strings are UTF-8.\<close>

definition readable :: "u32 \<times> TrackMsgCacheProto \<Rightarrow> bool" where
  "readable m \<longleftrightarrow> utf8_msg (snd m)"

lemma record_fields:
  fixes pre rest :: "u8 list" and time :: u32
  assumes "length (encode (env_msg env) p) \<le> max_cache_size"
  defines "body \<equiv> encode (env_msg env) p" and "mem \<equiv> pre @ record_bytes env (time, p) @ rest"
  shows "le_value (slice (length pre + 12) 4 mem) = length body"
    and "slice (length pre) 4 mem = record_magic"
    and "of_nat (le_value (slice (length pre + 4) 8 mem)) = the (CityHash64 body 0 (length body))"
    and "slice (length pre + 20) (length body) mem = body"
proof -
  have "length body mod 256 ^ 4 = length body" using assms(1) by (simp add: body_def max_cache_size_def)
  then show "le_value (slice (length pre + 12) 4 mem) = length body"
    using assms(1) by (simp add: mem_def record_bytes_def record_header_bytes_def slice_append_right Let_def body_def)
  show "slice (length pre) 4 mem = record_magic"
    "of_nat (le_value (slice (length pre + 4) 8 mem)) = the (CityHash64 body 0 (length body))"
    "slice (length pre + 20) (length body) mem = body"
    by (simp_all add: mem_def record_bytes_def record_header_bytes_def slice_append_right Let_def body_def
        del: le_value_digits)
qed

lemma load_loop_records:
  assumes "wire_format (env_msg env) utf8_msg" and "length (pre @ records env ms) \<le> max_cache_size"
  shows "load_loop env config (pre @ records env ms @ rest) (length (pre @ records env ms)) (length ms)
      (length pre) (length pre) acc = Some (acc @ map (loaded env config) (filter readable ms))"
  using assms(2)
proof (induction ms arbitrary: pre acc)
  case Nil
  then show ?case by simp
next
  case (Cons m ms)
  obtain time p where m: "m = (time, p)" by (cases m)
  let ?body = "encode (env_msg env) p"
  have b: "length ?body \<le> max_cache_size" using Cons.prems by (simp add: records_Cons m)
  obtain h where h: "CityHash64 ?body 0 (length ?body) = Some h"
    using hash_defined [of ?body] b by (auto simp: max_cache_size_def)
  have "length ?body \<le> INT_MAX" using b by (simp add: max_cache_size_def INT_MAX_def)
  then have "Deserialize (env_msg env) ?body (new_TrackMessageImpl (env_now env) config) = (if readable m then Some (loaded env config m) else None)"
    using wire_format.decode_encode [OF assms(1)] by (simp add: Deserialize_def loaded_def readable_def m)
  moreover have "load_loop env config (pre @ records env (m # ms) @ rest) (length (pre @ records env (m # ms))) (length ms)
      (length pre + (20 + length ?body)) (length pre + (20 + length ?body)) acc'
    = Some (acc' @ map (loaded env config) (filter readable ms))" for acc'
    using Cons.IH [of "pre @ record_bytes env m" acc'] Cons.prems
    by (simp add: records_Cons m add.assoc)
  ultimately show ?case
    using record_fields [OF b, of pre time "records env ms @ rest"] h
    by (simp add: records_Cons m sizeof_RecordHeader_def Let_def)
qed

lemma Cache_Load_holds:
  assumes "wire_format (env_msg env) utf8_msg" and c: "cache_holds env cfg ms c"
  shows "Cache_Load env c = Ret (map (loaded env (Some cfg)) (filter readable ms)) c"
proof -
  let ?h = "holds_header env (dc_hash c) cfg ms" and ?C = "config_bytes env cfg" and ?R = "records env ms"
  from c obtain rest where d: "df_data c = Some (header_bytes ?h @ ?C @ ?R @ rest)"
      and ch: "cache_header c = Mapped (28 + length ?C + length ?R + length rest)"
      and used: "used_size env cfg ms \<le> max_cache_size" and cfg: "dc_config c = Some cfg"
    by (auto simp: cache_holds_def file_holds_def)
  have "load_loop env (Some cfg) (?R @ rest) (length ?R) (length ms) 0 0 [] = Some (map (loaded env (Some cfg)) (filter readable ms))"
    using load_loop_records [OF assms(1), of "[]" ms "Some cfg" rest "[]"] used by (simp add: used_size_def)
  then show ?thesis
    using holds_get_header [OF c] holds_Size [OF c] used d ch cfg
    by (simp add: Cache_Load_def io_bind_def io_get_def io_ret_def Let_def sizeof_CacheHeader_def used_size_def)
qed

section \<open>Resetting and opening\<close>

lemma take_slices: "take (a + b) xs = take a xs @ slice a b xs"
  by (simp add: slice_def take_add)

lemma digits_of_slice:
  fixes w :: "'a::len word"
  assumes "w = of_nat (le_value (slice off n d))" and "off + n \<le> length d" and "256 ^ n = (2 ^ LENGTH('a) :: nat)"
  shows "le_digits n (unat w) = slice off n d"
proof -
  have "unat w = le_value (slice off n d)"
    using le_value_bound [of "slice off n d"] assms by (simp add: unat_of_nat take_bit_eq_mod)
  then show ?thesis using le_digits_value [of "slice off n d"] assms(2) by simp
qed

lemma header_bytes_of_bytes:
  assumes "28 \<le> length d"
  shows "header_bytes (header_of_bytes d) = take 28 d" and "length (ch_magic (header_of_bytes d)) = 4"
proof -
  let ?h = "header_of_bytes d"
  have "le_digits 4 (unat (ver_code ?h)) = slice 4 4 d" "le_digits 8 (unat (config_hash ?h)) = slice 8 8 d"
    "le_digits 4 (unat (config_size ?h)) = slice 16 4 d" "le_digits 4 (unat (record_count ?h)) = slice 20 4 d"
    "le_digits 4 (unat (record_size ?h)) = slice 24 4 d"
    by (rule digits_of_slice; use assms in \<open>simp add: header_of_bytes_def\<close>)+
  moreover have "take 28 d = slice 0 4 d @ slice 4 4 d @ slice 8 8 d @ slice 16 4 d @ slice 20 4 d @ slice 24 4 d"
    using take_slices [of 24 4 d] take_slices [of 20 4 d] take_slices [of 16 4 d] take_slices [of 8 8 d] take_slices [of 4 4 d]
    by (simp add: slice_def)
  ultimately show "header_bytes ?h = take 28 d" by (simp add: header_bytes_def header_of_bytes_def)
  show "length (ch_magic ?h) = 4" using assms by (simp add: header_of_bytes_def)
qed

text \<open>An opened, mapped cache with the header \<open>h\<close>, whatever follows it.\<close>

definition opened_with :: "CacheHeader \<Rightarrow> disk_cache \<Rightarrow> bool" where
  "opened_with h c \<longleftrightarrow> df_file c = OpenStream \<and> df_mode c = ReadWrite \<and> length (ch_magic h) = 4 \<and>
     (\<exists>rest. df_data c = Some (header_bytes h @ rest) \<and> cache_header c = Mapped (28 + length rest)
        \<and> cur_size c = 28 + length rest \<and> cache_capability \<le> 28 + length rest
        \<and> 28 + length rest \<le> max_cache_size + cache_capability)"

text \<open>A configuration that belongs to the hash, before (\<open>cfg0\<close>) and after its hash was computed.\<close>

definition config_ready :: "cache_env \<Rightarrow> u64 \<Rightarrow> TrackerConfig \<Rightarrow> TrackerConfig \<Rightarrow> bool" where
  "config_ready env hash cfg0 cfg \<longleftrightarrow> Config_Hash cfg0 = Some (hash, cfg) \<and> config_ok hash cfg
     \<and> length (config_bytes env cfg) + 28 \<le> cache_capability"

lemma opened_get_header: "opened_with h c \<Longrightarrow> get_header c = Ret h c"
  by (auto simp: opened_with_def intro!: get_header_mapped)

lemma opened_Size: "opened_with h c \<Longrightarrow> Size c = Ret (length (the (df_data c))) c"
  by (auto simp: opened_with_def cache_capability_def intro!: Size_cached)

lemma opened_put_header:
  assumes "opened_with h c" and "length (ch_magic h') = 4"
  shows "\<exists>d. put_header h' c = Ret () (c\<lparr>df_data := d\<rparr>) \<and> opened_with h' (c\<lparr>df_data := d\<rparr>)"
proof -
  from assms obtain rest where r: "df_data c = Some (header_bytes h @ rest)" "cache_header c = Mapped (28 + length rest)"
      "cur_size c = 28 + length rest" "cache_capability \<le> 28 + length rest" "28 + length rest \<le> max_cache_size + cache_capability"
    by (auto simp: opened_with_def)
  have "put_header h' c = Ret () (c\<lparr>df_data := Some (header_bytes h' @ rest)\<rparr>)"
    by (rule put_header_mapped [OF r(1,2)]) (use assms in \<open>auto simp: opened_with_def\<close>)
  moreover have "opened_with h' (c\<lparr>df_data := Some (header_bytes h' @ rest)\<rparr>)"
    using assms r by (simp add: opened_with_def)
  ultimately show ?thesis by blast
qed

lemma opened_Commit:
  assumes "opened_with h c" and "\<forall>n. env_os env n"
  shows "Commit (env_os env) c = Ret True (c\<lparr>df_calls := df_calls c + 2\<rparr>)" and "opened_with h (c\<lparr>df_calls := n\<rparr>)"
  using assms Commit_ok [of "env_os env" c] by (auto simp: opened_with_def)

lemma shrink_opened:
  assumes os: "\<forall>n. env_os env n" and c: "opened_with h c"
  shows "\<exists>n d. let c' = c\<lparr>df_calls := n, df_data := d, cur_size := cache_capability, cache_header := Mapped cache_capability\<rparr>
     in shrink env c = Ret () c' \<and> opened_with h c'"
proof -
  from c obtain rest where r: "df_data c = Some (header_bytes h @ rest)" "cache_header c = Mapped (28 + length rest)"
      "cur_size c = 28 + length rest" "cache_capability \<le> 28 + length rest" "length (ch_magic h) = 4"
      "df_file c = OpenStream" "df_mode c = ReadWrite"
    by (auto simp: opened_with_def)
  define c1 where "c1 = c\<lparr>df_calls := Suc (df_calls c), cache_header := Unmapped\<rparr>"
  define c2 where "c2 = c1\<lparr>df_calls := Suc (Suc (df_calls c)), df_data := Some (header_bytes h @ take (cache_capability - 28) rest),
     cur_size := cache_capability\<rparr>"
  have "Resize (env_os env) cache_capability c1 = Ret True c2"
    using Resize_ok [OF os, of c1 cache_capability] r by (simp add: c1_def c2_def cache_capability_def)
  moreover have "Map (env_os env) cache_capability c2 = Ret (Some (True, True)) (c2\<lparr>df_calls := Suc (df_calls c2)\<rparr>)"
    using r by (intro Map_ok [OF os]) (auto simp: c1_def c2_def cache_capability_def)
  ultimately have "shrink env c = Ret () (c2\<lparr>df_calls := Suc (df_calls c2), cache_header := Mapped cache_capability\<rparr>)"
    using os r(2) opened_Size [OF c] by (simp add: shrink_def io_bind_def io_get_def io_seq_def io_upd_def io_require_def io_assert_step
        IsMapped_def Unmap_def syscall_def c1_def)
  then show ?thesis
    using r by (auto simp: c1_def c2_def opened_with_def cache_capability_def Let_def
      intro!: exI [of _ "Suc (Suc (Suc (df_calls c)))"] exI [of _ "Some (header_bytes h @ take (cache_capability - 28) rest)"])
qed

lemma SaveConfig_opened:
  assumes os: "\<forall>n. env_os env n" and c: "opened_with h c" and cfg: "dc_config c = Some cfg0" "config_ready env (dc_hash c) cfg0 cfg"
    and h: "ch_magic h = cache_magic" "ver_code h = cache_version_code" "record_count h = 0" "record_size h = 0"
  shows "\<exists>c'. SaveConfig env c = Ret () c' \<and> dc_hash c' = dc_hash c \<and> cache_holds env cfg [] c'"
proof -
  from c obtain rest where r: "df_data c = Some (header_bytes h @ rest)" "cache_header c = Mapped (28 + length rest)"
      "cur_size c = 28 + length rest" "cache_capability \<le> 28 + length rest" "28 + length rest \<le> max_cache_size + cache_capability"
      "df_file c = OpenStream" "df_mode c = ReadWrite"
    by (auto simp: opened_with_def)
  let ?bs = "config_bytes env cfg" and ?h' = "holds_header env (dc_hash c) cfg []"
  have len: "28 + length ?bs \<le> cache_capability" and hash: "Config_Hash cfg0 = Some (dc_hash c, cfg)" and ok: "config_ok (dc_hash c) cfg"
    using cfg(2) by (auto simp: config_ready_def)
  define z where "z = drop (length ?bs) rest"
  have rest: "rest = take (length ?bs) rest @ z" "length (take (length ?bs) rest) = length ?bs"
    using len r(4) by (auto simp: z_def)
  define c1 where "c1 = c\<lparr>dc_config := Some cfg\<rparr>"
  define c2 where "c2 = c1\<lparr>df_data := Some (header_bytes h @ ?bs @ z)\<rparr>"
  define c3 where "c3 = c1\<lparr>df_data := Some (header_bytes ?h' @ ?bs @ z)\<rparr>"
  have m: "config_matches c = Ret True c1" using cfg(1) hash by (simp add: config_matches_def c1_def)
  have w: "mem_write 28 ?bs c1 = Ret () c2"
    unfolding c2_def by (rule mem_write_part [where x = "take (length ?bs) rest"]) (use r rest h in \<open>simp_all add: c1_def\<close>)
  have len': "length ?bs + length z = length rest" using rest by (metis length_append)
  have g: "get_header c2 = Ret h c2"
    by (rule get_header_mapped [where n = "28 + length rest"]) (use r h in \<open>simp_all add: c2_def c1_def\<close>)
  have "h\<lparr>config_size := of_nat (length ?bs), config_hash := dc_hash c\<rparr> = ?h'"
    using h by (simp add: holds_header_def)
  then have p: "put_header (h\<lparr>config_size := of_nat (length ?bs), config_hash := dc_hash c\<rparr>) c2 = Ret () c3"
    using put_header_mapped [of c2 h "?bs @ z" "28 + length rest" ?h'] r h by (simp add: c2_def c1_def c3_def)
  have c4: "Commit (env_os env) c3 = Ret True (c3\<lparr>df_calls := df_calls c3 + 2\<rparr>)"
    using os r by (intro Commit_ok) (auto simp: c3_def c1_def)
  have fits: "int (length ?bs) \<le> int (length rest) mod 18446744073709551616"
    using len' r(5) by (simp add: max_cache_size_def cache_capability_def)
  have sz: "Size c1 = Ret (28 + length rest) c1" using r by (intro Size_cached) (auto simp: c1_def)
  have im: "length ?bs \<le> INT_MAX" using len by (simp add: INT_MAX_def cache_capability_def)
  have dh: "dc_hash c2 = dc_hash c" by (simp add: c2_def c1_def)
  have "SaveConfig env c = Ret () (c3\<lparr>df_calls := df_calls c3 + 2\<rparr>)"
    using m sz w g p c4 fits im r(2) dh
    by (simp add: SaveConfig_def io_seq_def io_bind_def io_require_def io_get_def io_assert_step IsMapped_def
        sizeof_CacheHeader_def config_bytes_def [symmetric] c1_def)
  moreover have "cache_holds env cfg [] (c3\<lparr>df_calls := df_calls c3 + 2\<rparr>)"
    using r len len' ok by (auto simp: cache_holds_def c3_def c1_def file_holds_def used_size_def max_cache_size_def cache_capability_def)
  ultimately show ?thesis by (auto simp: c3_def c1_def)
qed


lemma Cache_Reset_opened:
  assumes os: "\<forall>n. env_os env n" and c: "opened_with h c" and cfg: "dc_config c = Some cfg0" "config_ready env (dc_hash c) cfg0 cfg"
  shows "\<exists>c'. Cache_Reset env c = Ret () c' \<and> dc_hash c' = dc_hash c \<and> cache_holds env cfg [] c'"
proof -
  let ?h = "h\<lparr>ch_magic := cache_magic, ver_code := cache_version_code, record_count := 0, record_size := 0\<rparr>"
  have mapped: "IsMapped c" using c by (auto simp: opened_with_def IsMapped_def)
  obtain d where p: "put_header ?h c = Ret () (c\<lparr>df_data := d\<rparr>)" "opened_with ?h (c\<lparr>df_data := d\<rparr>)"
    using opened_put_header [OF c, of ?h] by auto
  define c1 where "c1 = c\<lparr>df_data := d, df_calls := df_calls c + 2\<rparr>"
  have cm: "Commit (env_os env) (c\<lparr>df_data := d\<rparr>) = Ret True c1" "opened_with ?h c1"
    using opened_Commit [OF p(2) os] by (simp_all add: c1_def)
  obtain c2 where s: "(if length (the (df_data c1)) > cache_capability then shrink env else io_ret ()) c1 = Ret () c2"
      "opened_with ?h c2" "dc_config c2 = Some cfg0" "dc_hash c2 = dc_hash c"
    using shrink_opened [OF os cm(2)] cm(2) cfg(1)
    by (cases "length (the (df_data c1)) > cache_capability") (auto simp: Let_def c1_def io_ret_def)
  obtain c3 where "SaveConfig env c2 = Ret () c3" "dc_hash c3 = dc_hash c" "cache_holds env cfg [] c3"
    using SaveConfig_opened [OF os s(2,3)] s(4) cfg(2) by auto
  moreover have "Cache_Reset env c = SaveConfig env c2"
    using opened_get_header [OF c] p(1) cm(1) opened_Size [OF cm(2)] s(1) mapped
    by (simp add: Cache_Reset_def io_bind_def io_seq_def io_require_def io_assert_step IsMapped_def)
  ultimately show ?thesis by auto
qed

text \<open>The first steps of \<^verbatim>\<open>Init\<close>: the file is opened, brought to its least size, and mapped.\<close>

lemma Init_opens:
  assumes os: "\<forall>n. env_os env n"
    and fresh: "c = new_DiskCache contents parent n hash config"
    and d: "d = (case contents of Some d \<Rightarrow> d | None \<Rightarrow> [])" and size: "length d \<le> max_cache_size + cache_capability"
  defines "init \<equiv> length d < cache_capability"
  shows "\<exists>n c'. Cache_Init env c =
      io_bind (if init then io_ret False else CheckValid) (\<lambda>valid.
        if \<not> valid then Cache_Reset env else (\<lambda>c. if dc_config c = None then LoadConfig env c else Ret () c)) c'
    \<and> c' = \<lparr>df_data = Some (d @ replicate (cache_capability - length d) 0), df_parent = parent \<or> contents = None, df_file = OpenStream,
        df_mode = ReadWrite, cur_size = max (length d) cache_capability, df_calls = n, dc_hash = hash, dc_config = config,
        header_buf = zero_header, cache_header = Mapped (max (length d) cache_capability)\<rparr>"
proof -
  let ?d = "d @ replicate (cache_capability - length d) 0" and ?n = "max (length d) cache_capability"
  have c: "c = \<lparr>df_data = contents, df_parent = parent, df_file = NullStream, df_mode = None_mode, cur_size = 0, df_calls = n,
      dc_hash = hash, dc_config = config, header_buf = zero_header, cache_header = HeaderBuf\<rparr>"
    by (simp add: fresh new_DiskCache_def new_File_def disk_file.extend_def disk_cache.fields_def)
  obtain n1 where op: "Open (env_os env) ReadWrite c = Ret True (c\<lparr>df_data := Some d, df_parent := parent \<or> contents = None,
      df_file := OpenStream, df_mode := ReadWrite, df_calls := n1\<rparr>)" (is "_ = Ret True ?c1")
    using Open_ok [OF os, of c] by (auto simp: c d)
  have s1: "Size ?c1 = Ret (length d) (?c1\<lparr>cur_size := length d\<rparr>)"
    by (rule Size_fresh) (simp_all add: c IsOpen_def)
  obtain n2 where res: "(if init
        then io_seq (io_require (Resize (env_os env) cache_capability) ''file->Resize(cache_capability)'') (io_ret True)
        else io_ret False) (?c1\<lparr>cur_size := length d\<rparr>) = Ret init (?c1\<lparr>cur_size := ?n, df_data := Some ?d, df_calls := n2\<rparr>)" (is "_ = Ret init ?c2")
  proof (cases init)
    case True
    then have "Resize (env_os env) cache_capability (?c1\<lparr>cur_size := length d\<rparr>)
      = Ret True (?c1\<lparr>cur_size := ?n, df_data := Some ?d, df_calls := Suc n1\<rparr>)"
      using Resize_ok [OF os, of "?c1\<lparr>cur_size := length d\<rparr>" cache_capability]
      by (simp add: c cache_capability_def init_def max_def)
    then show ?thesis using True that [of "Suc n1"] by (simp add: io_seq_def io_bind_def io_require_def io_assert_step io_ret_def)
  next
    case False
    then show ?thesis using that [of n1] by (simp add: init_def io_ret_def c max_def)
  qed
  have s2: "Size ?c2 = Ret ?n ?c2" by (rule Size_cached) (simp_all add: cache_capability_def)
  have mp: "Map (env_os env) ?n ?c2 = Ret (Some (True, True)) (?c2\<lparr>df_calls := Suc (df_calls ?c2)\<rparr>)"
    by (rule Map_ok [OF os]) (simp_all add: cache_capability_def)
  show ?thesis
    using op s1 res s2 mp
    by (intro exI [of _ "Suc n2"] exI conjI)
      (simp_all add: Cache_Init_def io_seq_def io_bind_def io_require_def io_assert_step io_upd_def c init_def)
qed

lemma Init_creates:
  assumes os: "\<forall>n. env_os env n" and cfg: "config_ready env hash cfg0 cfg"
    and old: "case contents of Some d \<Rightarrow> length d < cache_capability | None \<Rightarrow> True"
  shows "\<exists>c'. Cache_Init env (new_DiskCache contents parent n hash (Some cfg0)) = Ret () c' \<and> dc_hash c' = hash
     \<and> cache_holds env cfg [] c'"
proof -
  define d where "d = (case contents of Some d \<Rightarrow> d | None \<Rightarrow> [])"
  let ?d = "d @ replicate (cache_capability - length d) 0"
  have small: "length d < cache_capability" using old by (auto simp: d_def cache_capability_def split: option.splits)
  then obtain c' where c': "Cache_Init env (new_DiskCache contents parent n hash (Some cfg0)) = Cache_Reset env c'"
      "df_data c' = Some ?d" "df_file c' = OpenStream" "df_mode c' = ReadWrite" "cur_size c' = cache_capability"
      "dc_hash c' = hash" "dc_config c' = Some cfg0" "cache_header c' = Mapped cache_capability"
    using Init_opens [OF os refl d_def, of parent n hash "Some cfg0"] by (auto simp: max_def io_bind_def io_ret_def)
  have len: "length ?d = cache_capability" using small by simp
  then have "28 \<le> length ?d" by (simp add: cache_capability_def)
  then have hb: "?d = header_bytes (header_of_bytes ?d) @ drop 28 ?d" "length (ch_magic (header_of_bytes ?d)) = 4"
    by (metis header_bytes_of_bytes(1) append_take_drop_id, rule header_bytes_of_bytes)
  have "opened_with (header_of_bytes ?d) c'"
    unfolding opened_with_def
  proof (intro conjI exI)
    show "df_data c' = Some (header_bytes (header_of_bytes ?d) @ drop 28 ?d)" using c'(2) hb(1) by metis
    show "cache_header c' = Mapped (28 + length (drop 28 ?d))" "cur_size c' = 28 + length (drop 28 ?d)"
      "cache_capability \<le> 28 + length (drop 28 ?d)" "28 + length (drop 28 ?d) \<le> max_cache_size + cache_capability"
      using len c' by (simp_all add: cache_capability_def)
  qed (use c' hb in simp_all)
  from Cache_Reset_opened [OF os this c'(7)] cfg c' show ?thesis by simp
qed

text \<open>
  Opening a file that holds messages keeps them, and finds the configuration if none is given and its
  texts are UTF-8.
\<close>

definition utf8_config :: "TrackerConfig \<Rightarrow> bool" where
  "utf8_config cfg \<longleftrightarrow> utf8_cfg (disk_config_of cfg)"

lemma config_of_disk_config: "config_of_disk (disk_config_of cfg) = cfg\<lparr>cfg_hash := 0\<rparr>"
  by (simp add: config_of_disk_def disk_config_of_def)

lemma Init_reopens:
  assumes os: "\<forall>n. env_os env n" and wf: "wire_format (env_cfg env) utf8_cfg"
    and d: "file_holds env hash cfg ms d" and cfg: "config_ok hash cfg" "length (config_bytes env cfg) + 28 \<le> cache_capability"
    and config: "config = None \<and> utf8_config cfg \<or> config = Some cfg"
  shows "\<exists>c'. Cache_Init env (new_DiskCache (Some d) parent n hash config) = Ret () c' \<and> dc_hash c' = hash
     \<and> cache_holds env cfg ms c'"
proof -
  have len: "cache_capability \<le> length d" "length d \<le> max_cache_size + cache_capability" using d by (auto simp: file_holds_def)
  then obtain c' where c': "Cache_Init env (new_DiskCache (Some d) parent n hash config) =
      io_bind CheckValid (\<lambda>valid.
        if \<not> valid then Cache_Reset env else (\<lambda>c. if dc_config c = None then LoadConfig env c else Ret () c)) c'"
      "df_data c' = Some d" "df_file c' = OpenStream" "df_mode c' = ReadWrite" "cur_size c' = length d"
      "dc_hash c' = hash" "dc_config c' = config" "cache_header c' = Mapped (length d)"
    using Init_opens [OF os refl, of d "Some d" parent n hash config] by (auto simp: max_def)
  have h: "cache_holds env cfg ms (c'\<lparr>dc_config := Some cfg\<rparr>)" using c' d cfg by (auto simp: cache_holds_def)
  let ?h = "holds_header env hash cfg ms"
  from d obtain rest where rest: "d = header_bytes ?h @ config_bytes env cfg @ records env ms @ rest"
      and used: "used_size env cfg ms \<le> max_cache_size"
    by (auto simp: file_holds_def)
  have g: "get_header c' = Ret ?h c'"
    by (rule get_header_mapped [where rest = "config_bytes env cfg @ records env ms @ rest"]) (use c' rest in auto)
  have s: "Size c' = Ret (length d) c'" using c' len by (intro Size_cached) (auto simp: cache_capability_def)
  have fit: "28 + length (config_bytes env cfg) + length (records env ms) \<le> length d" using rest by simp
  have v: "CheckValid c' = Ret True c'"
    using g s c' used fit by (simp add: CheckValid_def io_bind_def io_get_def io_ret_def sizeof_CacheHeader_def)
      (simp add: holds_header_def)
  show ?thesis
  proof (cases config)
    case None
    have m: "mem_read 28 (length (config_bytes env cfg)) c' = Ret (config_bytes env cfg) c'"
      using mem_read_ok [OF c'(8,2), of 28 "length (config_bytes env cfg)"] fit rest
      by (simp add: slice_append_right)
    have "length (encode (env_cfg env) (disk_config_of cfg)) \<le> INT_MAX"
      using cfg(2) by (simp add: config_bytes_def cache_capability_def INT_MAX_def)
    moreover have "utf8_cfg (disk_config_of cfg)" using None config by (simp add: utf8_config_def)
    ultimately have "decode (env_cfg env) (encode (env_cfg env) (disk_config_of cfg)) = Some (disk_config_of cfg)"
      using wire_format.decode_encode [OF wf] by simp
    then have "LoadConfig env c' = Ret () (c'\<lparr>dc_config := Some cfg\<rparr>)"
      using g s m used fit c' cfg(1)
      by (simp add: LoadConfig_def io_bind_def io_seq_def io_assert_step io_get_def io_upd_def IsMapped_def config_offset_def
          sizeof_CacheHeader_def config_bytes_def config_of_disk_config config_ok_def)
    then show ?thesis using c' v None h by (auto simp: io_bind_def)
  next
    case (Some cfg')
    then have "c'\<lparr>dc_config := Some cfg\<rparr> = c'" using config c' by simp
    then show ?thesis using c' v Some h by (auto simp: io_bind_def)
  qed
qed

text \<open>Pushing a list of messages.\<close>

fun push_all :: "cache_env \<Rightarrow> track_msg list \<Rightarrow> bool list cache_io" where
  "push_all env [] = io_ret []"
| "push_all env (m # msgs) = io_bind (Cache_Push env m) (\<lambda>ok. io_bind (push_all env msgs) (\<lambda>oks. io_ret (ok # oks)))"

definition msg_bytes :: "cache_env \<Rightarrow> track_msg \<Rightarrow> nat" where
  "msg_bytes env msg = 20 + GetSerializeSize (env_msg env) msg"

definition stored :: "track_msg \<Rightarrow> u32 \<times> TrackMsgCacheProto" where
  "stored msg = (create_time msg, proto msg)"

lemma used_size_snoc: "used_size env cfg (ms @ [stored msg]) = used_size env cfg ms + msg_bytes env msg"
  by (simp add: used_size_def records_snoc stored_def msg_bytes_def GetSerializeSize_def)

lemma used_fits: "cache_holds env cfg ms c \<Longrightarrow> used_size env cfg ms \<le> length (the (df_data c))"
  by (auto simp: cache_holds_def file_holds_def used_size_def)

lemma push_all_holds:
  assumes os: "\<forall>n. env_os env n" and c: "cache_holds env cfg ms c"
    and small: "\<And>m. m \<in> set msgs \<Longrightarrow> msg_bytes env m \<le> cache_capability"
    and sum: "used_size env cfg ms + (\<Sum>m\<leftarrow>msgs. msg_bytes env m) \<le> max_cache_size"
  shows "\<exists>c'. push_all env msgs c = Ret (replicate (length msgs) True) c' \<and> dc_hash c' = dc_hash c
     \<and> cache_holds env cfg (ms @ map stored msgs) c'"
  using c small sum
proof (induction msgs arbitrary: ms c)
  case Nil
  then show ?case by (simp add: io_ret_def)
next
  case (Cons m msgs)
  obtain c1 where c1: "Cache_Push env m c = Ret True c1" "dc_hash c1 = dc_hash c" "cache_holds env cfg (ms @ [stored m]) c1"
    using Cache_Push_holds(2) [OF os Cons.prems(1) refl, of m] Cons.prems(2) [of m] Cons.prems(3) used_fits [OF Cons.prems(1)]
    by (auto simp: msg_bytes_def stored_def)
  obtain c2 where "push_all env msgs c1 = Ret (replicate (length msgs) True) c2" "dc_hash c2 = dc_hash c1"
      "cache_holds env cfg ((ms @ [stored m]) @ map stored msgs) c2"
    using Cons.IH [OF c1(3)] Cons.prems(2,3) by (auto simp: used_size_snoc)
  with c1 show ?case by (simp add: io_bind_def io_ret_def)
qed

end
