(* ===== verification/Decimal.thy ===== *)
theory Decimal
  imports Tap_Prelude
begin

text \<open>
  Decimal numbers as the SDK prints and reads them: \<^verbatim>\<open>fmt::format("{}", n)\<close> for unsigned integers, and
  \<^verbatim>\<open>std::stoull\<close> and \<^verbatim>\<open>std::stoul\<close>, which skip white space, take a sign, read digits up to the first
  other character, and throw when there is no digit or the number does not fit.
\<close>

definition digit_char :: "nat \<Rightarrow> char" where
  "digit_char n = char_of (48 + n)"

fun dec :: "nat \<Rightarrow> string" where
  "dec n = (if n < 10 then [digit_char n] else dec (n div 10) @ [digit_char (n mod 10)])"

declare dec.simps [simp del]

definition is_digit :: "char \<Rightarrow> bool" where
  "is_digit c \<longleftrightarrow> 48 \<le> (of_char c :: nat) \<and> of_char c \<le> (57 :: nat)"

definition is_space :: "char \<Rightarrow> bool" where
  "is_space c \<longleftrightarrow> of_char c = (32 :: nat) \<or> 9 \<le> (of_char c :: nat) \<and> of_char c \<le> (13 :: nat)"

definition digits_value :: "string \<Rightarrow> nat" where
  "digits_value = foldl (\<lambda>v c. 10 * v + (of_char c - 48)) 0"

definition strtoull :: "string \<Rightarrow> u64 throws" where
  "strtoull s =
     (let s = dropWhile is_space s;
          neg = (s \<noteq> [] \<and> hd s = CHR ''-'');
          s = (if s \<noteq> [] \<and> hd s \<in> {CHR ''+'', CHR ''-''} then tl s else s);
          ds = takeWhile is_digit s
      in if ds = [] then Inl (LibraryError ''invalid_argument'')
         else if digits_value ds \<ge> 2 ^ 64 then Inl (LibraryError ''out_of_range'')
         else Inr (if neg then - of_nat (digits_value ds) else of_nat (digits_value ds)))"

definition stoull :: "string \<Rightarrow> u64 throws" where
  "stoull s = strtoull s"

text \<open>\<^verbatim>\<open>u32 idx = std::stoul(...)\<close>: \<^verbatim>\<open>unsigned long\<close> has 64 bits, the value is cut to 32.\<close>

definition stoul_u32 :: "string \<Rightarrow> u32 throws" where
  "stoul_u32 s = map_sum id (\<lambda>w. ucast w) (strtoull s)"

lemma of_char_digit: "n < 10 \<Longrightarrow> of_char (digit_char n) = 48 + n"
  by (simp add: digit_char_def)

lemma is_digit_char: "n < 10 \<Longrightarrow> is_digit (digit_char n)"
  by (simp add: is_digit_def of_char_digit)

lemma dec_nonempty [simp]: "dec n \<noteq> []"
  by (subst dec.simps) simp

lemma dec_digits: "list_all is_digit (dec n)"
proof (induction n rule: dec.induct)
  case (1 n)
  then show ?case by (subst dec.simps) (simp add: is_digit_char)
qed

lemma digits_value_dec [simp]: "digits_value (dec n) = n"
proof (induction n rule: dec.induct)
  case (1 n)
  then show ?case
    by (subst dec.simps) (auto simp: digits_value_def of_char_digit)
qed

lemma digit_not_special: "is_digit c \<Longrightarrow> \<not> is_space c \<and> c \<noteq> CHR ''+'' \<and> c \<noteq> CHR ''-'' \<and> c \<noteq> CHR ''@''
    \<and> c \<noteq> CHR ''.'' \<and> c \<noteq> CHR ''t'' \<and> c \<noteq> CHR ''r'' \<and> c \<noteq> CHR ''c''"
  by (auto simp: is_digit_def is_space_def)

lemma strtoull_dec:
  assumes "n < 2 ^ 64" and "\<not> is_digit c"
  shows "strtoull (dec n) = Inr (of_nat n)" and "strtoull (dec n @ c # rest) = Inr (of_nat n)"
proof -
  obtain d ds where d: "dec n = d # ds" by (cases "dec n") auto
  have ds: "\<forall>x\<in>set (dec n). is_digit x" using dec_digits [of n] by (simp add: list_all_iff)
  then have k: "\<not> is_space d" "d \<noteq> CHR ''+''" "d \<noteq> CHR ''-''"
    using digit_not_special [of d] d by auto
  have tw: "takeWhile is_digit (dec n) = dec n" "takeWhile is_digit (dec n @ c # rest) = dec n"
    using ds assms(2) by (simp_all add: takeWhile_append2)
  have dw: "dropWhile is_space (dec n) = dec n" "dropWhile is_space (dec n @ c # rest) = dec n @ c # rest"
      "hd (dec n) = d"
    using k d by simp_all
  show "strtoull (dec n) = Inr (of_nat n)" "strtoull (dec n @ c # rest) = Inr (of_nat n)"
    using k assms(1) unfolding strtoull_def Let_def dw by (simp_all add: tw dw)
qed

end
