(* ===== verification/Track_Upload.thy ===== *)
theory Track_Upload
  imports Hmac Md5 Http_Client Track_Message Decimal
begin

text \<open>
  The names of cache files and the signed request of an upload (\<^verbatim>\<open>source/tracker/tracker_impl.cpp\<close>:
  \<^verbatim>\<open>DiskCachePath\<close>, the file loop of \<^verbatim>\<open>SyncLoadTrackersCache\<close>, \<^verbatim>\<open>TrackerCache::SerializeToUpload\<close> and
  \<^verbatim>\<open>UploadTopicTrackers\<close>). The protobuf form of a \<^verbatim>\<open>LogGroup\<close>, LZ4, the clock and the contents of
  uninitialised arrays are parameters (\<open>upload_env\<close>).
\<close>

section \<open>File names\<close>

definition npos :: u64 where "npos = - 1"

definition find_first_of :: "char list \<Rightarrow> string \<Rightarrow> u64" where
  "find_first_of cs s = (let n = length (takeWhile (\<lambda>c. c \<notin> set cs) s) in if n < length s then of_nat n else npos)"

definition substr :: "string \<Rightarrow> u64 \<Rightarrow> u64 \<Rightarrow> string" where
  "substr s pos n = take (unat n) (drop (unat pos) s)"

definition DiskCachePath :: "u64 \<Rightarrow> u32 \<Rightarrow> string" where
  "DiskCachePath hash index = dec (unat hash) @ ''@'' @ dec (unat index) @ ''.trc''"

text \<open>What the loop reads from a file name: None when it skips the file, an exception when it logs.\<close>

definition cache_file_name :: "string \<Rightarrow> (u64 \<times> u32) throws option" where
  "cache_file_name f_name =
     (let trc_index = find_first_of ''.trc'' f_name;
          is_trc = (trc_index = of_nat (length f_name) - 4);
          filename = substr f_name 0 trc_index
      in if \<not> is_trc then None
         else
           let at_index = find_first_of ''@'' filename
           in if at_index \<le> 0 then None
              else
                let hash_str = substr filename 0 at_index;
                    idx_str = substr filename (at_index + 1) (of_nat (length filename))
                in Some (throws_bind (stoull hash_str) (\<lambda>hash.
                     throws_bind (stoul_u32 idx_str) (\<lambda>idx. Inr (hash, idx)))))"

section \<open>The body\<close>

record Log =
  log_time :: u32
  log_pairs :: "(string \<times> string) list"

record LogGroup =
  group_topic :: string
  group_logs :: "Log list"

record upload_env =
  up_group :: "LogGroup \<Rightarrow> u8 list"
  up_lz4 :: "u8 list \<Rightarrow> u8 list"
  up_time :: nat
  up_sha_buffers :: "nat \<Rightarrow> u8 list"
  up_sha_words :: "nat \<Rightarrow> u8 list"
  up_md5_buffer :: "u8 list"
  up_md5_digest :: "u8 list"

definition log_of :: "track_msg \<Rightarrow> Log" where
  "log_of track = \<lparr>log_time = create_time track, log_pairs = log_contents (proto track) @ log_commons (proto track)\<rparr>"

definition SerializeToUpload :: "upload_env \<Rightarrow> TrackerConfig \<Rightarrow> track_msg list \<Rightarrow> u8 list" where
  "SerializeToUpload up config trackers =
     (if trackers = [] then []
      else up_group up \<lparr>group_topic = topic config, group_logs = map log_of trackers\<rparr>)"

section \<open>The request\<close>

definition toupper :: "char \<Rightarrow> char" where
  "toupper c = (if 97 \<le> (of_char c :: nat) \<and> of_char c \<le> (122 :: nat) then char_of ((of_char c :: nat) - 32) else c)"

definition nl :: string where "nl = [CHR 0x0A]"

definition header_fmt :: "string \<Rightarrow> nat \<Rightarrow> nat \<Rightarrow> string \<Rightarrow> string \<Rightarrow> string" where
  "header_fmt md5 rawsize time_stamp proj store =
     ''POST'' @ nl @ md5 @ nl @ ''application/x-protobuf'' @ nl @ ''x-log-apiversion:0.6.0'' @ nl
     @ ''x-log-bodyrawsize:'' @ dec rawsize @ nl @ ''x-log-compresstype:lz4'' @ nl
     @ ''x-log-signaturemethod:hmac-sha1'' @ nl @ ''x-log-timestamp:'' @ dec time_stamp @ nl
     @ ''/putrecords/'' @ proj @ ''/'' @ store"

definition upload_headers :: "TrackerConfig \<Rightarrow> nat \<Rightarrow> string \<Rightarrow> nat \<Rightarrow> nat \<Rightarrow> string \<Rightarrow> pairs" where
  "upload_headers config time_stamp md5 compressed_size rawsize sig =
     [(''x-log-timestamp'', dec time_stamp), (''Content-MD5'', md5), (''Content-Length'', dec compressed_size),
      (''x-log-bodyrawsize'', dec rawsize), (''Authorization'', sig), (''Content-Type'', ''application/x-protobuf''),
      (''x-log-apiversion'', ''0.6.0''), (''x-log-compresstype'', ''lz4''), (''x-log-signaturemethod'', ''hmac-sha1''),
      (''Host'', endpoint config), (''accept'', ''*/*''), (''Accept-Encoding'', ''identity'')]"

text \<open>
  \<^verbatim>\<open>UploadTopicTrackers\<close> up to its \<^verbatim>\<open>co_await\<close>: an error that ends it at once, or the path, headers
  and body of the request. None is undefined behaviour in the digest classes.
\<close>

definition upload_request :: "upload_env \<Rightarrow> TrackerConfig \<Rightarrow> track_msg list \<Rightarrow> (net_error + string \<times> pairs \<times> u8 list) option" where
  "upload_request up config trackers =
     (let serialize_buffer = SerializeToUpload up config trackers
      in if serialize_buffer = [] then Some (Inl (MakeError (- 1) (- 1) ''No buffer!''))
         else
           let compressed_buffer = up_lz4 up serialize_buffer
           in if compressed_buffer = [] then Some (Inl (MakeError (- 1) (- 1) ''lz4 compress error!''))
              else do {
                st \<leftarrow> MD5_new (up_md5_buffer up) (up_md5_digest up) compressed_buffer;
                (digest, _) \<leftarrow> MD5_toStr st;
                let md5 = map toupper digest;
                let header_sig = header_fmt md5 (length serialize_buffer) (up_time up) (project config) (log_store config);
                mac \<leftarrow> HashHmac (up_sha_buffers up) (up_sha_words up) header_sig (access_key_secret config);
                let header_sig_fmt = ''LOG '' @ access_keyid config @ '':'' @ mac;
                Some (Inr (''putrecords/'' @ project config @ ''/'' @ log_store config,
                  upload_headers config (up_time up) md5 (length compressed_buffer) (length serialize_buffer) header_sig_fmt,
                  compressed_buffer))
              })"

section \<open>Lemmas\<close>

lemma find_first_at:
  assumes "\<forall>c\<in>set xs. c \<notin> set cs" and "c \<in> set cs"
  shows "find_first_of cs (xs @ c # ys) = of_nat (length xs)"
proof -
  have "takeWhile (\<lambda>c. c \<notin> set cs) (xs @ c # ys) = xs" using assms by (simp add: takeWhile_append2)
  then show ?thesis by (simp add: find_first_of_def)
qed

lemma dec_free: "\<forall>c\<in>set (dec n). c \<notin> set ''.trc'' \<and> c \<noteq> CHR ''@''"
  using dec_digits [of n] digit_not_special by (auto simp: list_all_iff)

lemma length_dec_pow: "n < 10 ^ k \<Longrightarrow> 0 < k \<Longrightarrow> length (dec n) \<le> k"
proof (induction k arbitrary: n)
  case (Suc k)
  show ?case
  proof (cases "n < 10")
    case False
    have "n div 10 < 10 ^ k" using Suc.prems(1) by (simp add: less_mult_imp_div_less mult.commute)
    moreover have "0 < k" using False Suc.prems by (cases k) auto
    ultimately have "length (dec (n div 10)) \<le> k" by (rule Suc.IH)
    then show ?thesis using False by (subst dec.simps) simp
  qed (simp add: dec.simps)
qed simp

text \<open>
  A cache file is found again. The name the SDK gives to the file of a configuration hash and an
  index is read back, at the next start, as the same hash and index.
\<close>

theorem cache_name_roundtrip: "cache_file_name (DiskCachePath hash index) = Some (Inr (hash, index))"
proof -
  let ?h = "dec (unat hash)" and ?i = "dec (unat index)"
  have b: "unat hash < 2 ^ 64" "unat index < 2 ^ 32" using unsigned_less [of hash] unsigned_less [of index] by simp_all
  have l: "length ?h \<le> 20" "length ?i \<le> 10"
    by (rule length_dec_pow; use b in simp)+
  have f: "find_first_of ''.trc'' (DiskCachePath hash index) = of_nat (length (?h @ ''@'' @ ?i))"
    using find_first_at [of "?h @ ''@'' @ ?i" "''.trc''" "CHR ''.''" "''trc''"] dec_free [of "unat hash"] dec_free [of "unat index"]
    by (auto simp add: DiskCachePath_def)
  have u: "unat (of_nat n :: u64) = n" if "n < 100" for n using that by (simp add: unat_of_nat take_bit_eq_mod)
  have s: "substr (DiskCachePath hash index) 0 (of_nat (length (?h @ ''@'' @ ?i))) = ?h @ ''@'' @ ?i"
    using l u [of "length (?h @ ''@'' @ ?i)"] by (simp add: substr_def DiskCachePath_def)
  have a: "find_first_of ''@'' (?h @ ''@'' @ ?i) = of_nat (length ?h)"
    using find_first_at [of ?h "''@''" "CHR ''@''" ?i] dec_free [of "unat hash"] by auto
  have "unat (of_nat (length ?h) :: u64) \<noteq> 0" using u [of "length ?h"] l by simp
  then have "(of_nat (length ?h) :: u64) \<noteq> 0" by force
  moreover have "substr (?h @ ''@'' @ ?i) 0 (of_nat (length ?h)) = ?h"
    using u [of "length ?h"] l by (simp add: substr_def)
  moreover have "unat (of_nat (length ?h) + 1 :: u64) = Suc (length ?h)" using u [of "Suc (length ?h)"] l by (simp add: add.commute)
  then have "substr (?h @ ''@'' @ ?i) (of_nat (length ?h) + 1) (of_nat (length (?h @ ''@'' @ ?i))) = ?i"
    using u [of "length (?h @ ''@'' @ ?i)"] l by (simp add: substr_def)
  moreover have "stoull ?h = Inr hash" using strtoull_dec(1) [OF b(1), of "CHR ''x''"] by (simp add: stoull_def is_digit_def)
  moreover have "ucast (ucast index :: u64) = index" by (rule bit_word_eqI) (auto simp: bit_simps)
  then have "stoul_u32 ?i = Inr index"
    using strtoull_dec(1) [of "unat index" "CHR ''x''"] b(2)
    by (simp add: stoul_u32_def is_digit_def)
  ultimately show ?thesis
    unfolding cache_file_name_def f s a Let_def
    by (simp add: DiskCachePath_def)
qed

lemma upload_request_made:
  assumes "raw = SerializeToUpload up config msgs" and "raw \<noteq> []" and "up_lz4 up raw \<noteq> []"
    and "length (up_md5_buffer up) = 64" and "length (up_lz4 up raw) + 64 \<le> 2 ^ 32"
    and "md5 = map toupper (hex_of_bytes (md5_ref (up_lz4 up raw)))"
    and "txt = header_fmt md5 (length raw) (up_time up) (project config) (log_store config)"
  shows "upload_request up config msgs = Some (Inr (''putrecords/'' @ project config @ ''/'' @ log_store config,
    upload_headers config (up_time up) md5 (length (up_lz4 up raw)) (length raw)
      (''LOG '' @ access_keyid config @ '':'' @ base64_ref (rfc2104 sha1_ref 64 (bytes_of (access_key_secret config)) (bytes_of txt))),
    up_lz4 up raw))"
proof -
  obtain st where st: "MD5_new (up_md5_buffer up) (up_md5_digest up) (up_lz4 up raw) = Some st" "md5_repr st (up_lz4 up raw)" "\<not> md_finished st"
    using assms(4,5) by (rule MD5_new_repr)
  then obtain st' where "MD5_toStr st = Some (hex_of_bytes (md5_ref (up_lz4 up raw)), st')"
    using MD5_toStr_eq [OF st(2,3)] by auto
  then show ?thesis
    using assms st(1) by (simp add: upload_request_def HashHmac_eq Let_def)
qed

text \<open>
  An upload is signed as the log service asks. When the messages serialise and compress, the request
  is made: it carries the compressed body, its upper-case MD5 digest, and an authorization with the
  Base64 text of the HMAC-SHA1, under the secret key, of the text that names the digest, the sizes, the
  time and the log store.
\<close>

theorem upload_signed:
  assumes "raw = SerializeToUpload up config msgs" and "raw \<noteq> []" and "up_lz4 up raw \<noteq> []"
    and "length (up_md5_buffer up) = 64" and "length (up_lz4 up raw) + 64 \<le> 2 ^ 32"
    and "md5 = map toupper (hex_of_bytes (md5_ref (up_lz4 up raw)))"
    and "txt = header_fmt md5 (length raw) (up_time up) (project config) (log_store config)"
  shows "\<exists>headers. upload_request up config msgs
      = Some (Inr (''putrecords/'' @ project config @ ''/'' @ log_store config, headers, up_lz4 up raw))
    \<and> map_of headers ''Content-MD5'' = Some md5
    \<and> map_of headers ''Authorization'' = Some (''LOG '' @ access_keyid config @ '':'' @
        base64_ref (rfc2104 sha1_ref 64 (bytes_of (access_key_secret config)) (bytes_of txt)))"
  using upload_request_made [OF assms] by (simp add: upload_headers_def)

theorem upload_signed_witness:
  "\<exists>headers. upload_request \<lparr>up_group = (\<lambda>_. [1, 2]), up_lz4 = id, up_time = 5, up_sha_buffers = (\<lambda>_. []), up_sha_words = (\<lambda>_. []),
      up_md5_buffer = replicate 64 0, up_md5_digest = []\<rparr>
      \<lparr>topic = ''t'', endpoint = ''e'', access_keyid = ''id'', access_key_secret = ''key'', project = ''p'', log_store = ''s'', cfg_hash = 0\<rparr>
      [new_TrackMessageImpl 7 None] = Some (Inr (''putrecords/p/s'', headers, [1, 2]))"
  using upload_signed [of "[1, 2]" "\<lparr>up_group = (\<lambda>_. [1, 2]), up_lz4 = id, up_time = 5, up_sha_buffers = (\<lambda>_. []), up_sha_words = (\<lambda>_. []),
      up_md5_buffer = replicate 64 0, up_md5_digest = []\<rparr>"
      "\<lparr>topic = ''t'', endpoint = ''e'', access_keyid = ''id'', access_key_secret = ''key'', project = ''p'', log_store = ''s'', cfg_hash = 0\<rparr>"
      "[new_TrackMessageImpl 7 None]"]
  by (fastforce simp: SerializeToUpload_def)

end
