(* ===== verification/Tracker.thy ===== *)
theory Tracker
  imports Disk_Cache Track_Upload Dur_Store
begin

text \<open>
  The tracker (\<^verbatim>\<open>source/tracker/tracker_impl.cpp\<close>): messages are flushed into cache files, up to 16 per
  configuration, and one cache at a time is uploaded. The static variables of the file are the record
  \<open>tracker\<close>. A \<^verbatim>\<open>TrackerCache\<close> object is a number, its address; \<open>trk_objs\<close> holds the objects. The mutex
  \<^verbatim>\<open>tracker_lock\<close> is held by \<^verbatim>\<open>FlushTracker\<close>, by the check and by the upload's callback, so each is one
  step; locking it twice on one thread is undefined behaviour. An upload that waits for the network is
  \<open>trk_pending\<close>; its callback is the step \<open>UploadFinished\<close>.
\<close>

section \<open>State\<close>

definition MAX_CACHE_COUNT :: nat where "MAX_CACHE_COUNT = 16"
definition UPLOAD_TRACKER_COUNT :: u32 where "UPLOAD_TRACKER_COUNT = 32"
definition check_ms :: nat where "check_ms = 20 * 1000"
definition TAP_TRACKER_VERSION :: string where "TAP_TRACKER_VERSION = ''1.0.1''"

record tracker =
  tracker_group_size :: u32
  trk_inited :: bool
  uploading :: bool
  trackers_cache :: "u64 \<Rightarrow> (u32 \<times> nat) list"
  tracker_cache_ids :: "u64 \<Rightarrow> bool list"
  latest_upload_failed :: "nat option"
  trk_files :: "string \<Rightarrow> u8 list option"
  trk_dir :: bool
  trk_objs :: "nat \<Rightarrow> disk_cache"
  trk_next :: nat
  trk_calls :: nat
  trk_pending :: "(u64 \<times> u32 \<times> nat \<times> (string \<times> pairs \<times> u8 list)) option"
  check_posts :: "nat list"

type_synonym 'a trk_io = "('a, tracker) io"

record track_env =
  te_cache :: cache_env
  te_upload :: upload_env

text \<open>An operation of a cache object; all objects share the sequence of system calls.\<close>

definition on_cache :: "nat \<Rightarrow> 'a cache_io \<Rightarrow> 'a trk_io" where
  "on_cache k m s =
     (case m ((trk_objs s k)\<lparr>df_calls := trk_calls s\<rparr>) of
        Ret a c \<Rightarrow> Ret a (s\<lparr>trk_objs := (trk_objs s)(k := c), trk_calls := df_calls c\<rparr>)
      | Throw e c \<Rightarrow> Throw e (s\<lparr>trk_objs := (trk_objs s)(k := c), trk_calls := df_calls c\<rparr>)
      | Undef \<Rightarrow> Undef)"

text \<open>\<^verbatim>\<open>std::map::emplace\<close>: the entries are ordered by index, an index that is there is kept.\<close>

fun emplace :: "u32 \<Rightarrow> 'a \<Rightarrow> (u32 \<times> 'a) list \<Rightarrow> (u32 \<times> 'a) list" where
  "emplace i k [] = [(i, k)]"
| "emplace i k ((j, m) # xs) = (if i < j then (i, k) # (j, m) # xs else if i = j then (j, m) # xs else (j, m) # emplace i k xs)"

definition map_erase :: "u32 \<Rightarrow> (u32 \<times> 'a) list \<Rightarrow> (u32 \<times> 'a) list" where
  "map_erase i = filter (\<lambda>(j, _). j \<noteq> i)"

definition set_id :: "u64 \<Rightarrow> u32 \<Rightarrow> bool \<Rightarrow> unit trk_io" where
  "set_id hash index v s =
     (if unat index < MAX_CACHE_COUNT
      then Ret () (s\<lparr>tracker_cache_ids := (tracker_cache_ids s)(hash := (tracker_cache_ids s hash)[unat index := v])\<rparr>)
      else Undef)"

section \<open>Cache objects\<close>

text \<open>The destructor of an object: its file is left on disk.\<close>

definition release :: "track_env \<Rightarrow> string \<Rightarrow> nat \<Rightarrow> unit trk_io" where
  "release env name k =
     io_seq (on_cache k (DiskCache_destructor (te_cache env)))
            (io_upd (\<lambda>s. s\<lparr>trk_files := (trk_files s)(name := df_data (trk_objs s k))\<rparr>))"

text \<open>\<^verbatim>\<open>std::make_shared<TrackerCache>(path, hash, config)\<close>; an exception destroys the \<^verbatim>\<open>DiskCache\<close>.\<close>

definition new_TrackerCache :: "track_env \<Rightarrow> string \<Rightarrow> u64 \<Rightarrow> TrackerConfig option \<Rightarrow> nat trk_io" where
  "new_TrackerCache env name hash config s =
     (case Cache_Init (te_cache env) (new_DiskCache (trk_files s name) (trk_dir s) (trk_calls s) hash config) of
        Ret _ c \<Rightarrow> Ret (trk_next s) (s\<lparr>trk_objs := (trk_objs s)(trk_next s := c), trk_next := Suc (trk_next s),
                     trk_dir := df_parent c, trk_calls := df_calls c\<rparr>)
      | Throw e c \<Rightarrow>
          (case DiskCache_destructor (te_cache env) c of
             Ret _ c' \<Rightarrow> Throw e (s\<lparr>trk_files := (trk_files s)(name := df_data c'), trk_dir := df_parent c', trk_calls := df_calls c'\<rparr>)
           | _ \<Rightarrow> Undef)
      | Undef \<Rightarrow> Undef)"

definition emplace_cache :: "track_env \<Rightarrow> string \<Rightarrow> u64 \<Rightarrow> u32 \<Rightarrow> nat \<Rightarrow> unit trk_io" where
  "emplace_cache env name hash index k s =
     (if index \<in> fst ` set (trackers_cache s hash) then release env name k s
      else Ret () (s\<lparr>trackers_cache := (trackers_cache s)(hash := emplace index k (trackers_cache s hash))\<rparr>))"

definition TrackerCache_Push :: "track_env \<Rightarrow> track_msg \<Rightarrow> nat \<Rightarrow> bool trk_io" where
  "TrackerCache_Push env msg k = io_catch (on_cache k (Cache_Push (te_cache env) msg)) (io_ret False)"

definition File_Delete_name :: "track_env \<Rightarrow> string \<Rightarrow> bool trk_io" where
  "File_Delete_name env name s =
     (if trk_files s name = None then Ret False s
      else if env_os (te_cache env) (trk_calls s)
      then Ret True (s\<lparr>trk_calls := Suc (trk_calls s), trk_files := (trk_files s)(name := None)\<rparr>)
      else Throw (LibraryError ''remove'') (s\<lparr>trk_calls := Suc (trk_calls s)\<rparr>))"

definition CreateCache :: "track_env \<Rightarrow> u64 \<Rightarrow> u32 \<Rightarrow> TrackerConfig option \<Rightarrow> nat option trk_io" where
  "CreateCache env hash index config =
     io_catch
       (io_bind (new_TrackerCache env (DiskCachePath hash index) hash config) (\<lambda>k.
        io_seq (set_id hash index True)
       (io_seq (emplace_cache env (DiskCachePath hash index) hash index k) (io_ret (Some k)))))
       (io_seq (File_Delete_name env (DiskCachePath hash index)) (io_ret None))"

section \<open>Uploads\<close>

text \<open>
  \<^verbatim>\<open>UploadTopicTrackers(cache).start(...)\<close>: the coroutine runs on the caller's thread up to the request.
  If it ends before, its callback runs there too, and locks \<^verbatim>\<open>tracker_lock\<close>, which the caller holds.
\<close>

definition start_upload :: "track_env \<Rightarrow> u64 \<Rightarrow> u32 \<Rightarrow> nat \<Rightarrow> unit trk_io" where
  "start_upload env hash index k =
     io_bind (on_cache k (Cache_Load (te_cache env))) (\<lambda>trackers.
     io_bind (io_get (\<lambda>s. dc_config (trk_objs s k))) (\<lambda>config.
     case config of
       None \<Rightarrow> io_undef
     | Some cfg \<Rightarrow>
         (case upload_request (te_upload env) cfg trackers of
            Some (Inr rq) \<Rightarrow> io_upd (\<lambda>s. s\<lparr>trk_pending := Some (hash, index, k, rq)\<rparr>)
          | _ \<Rightarrow> io_undef)))"

definition UploadTrackerCacheAsync :: "track_env \<Rightarrow> u64 \<Rightarrow> u32 \<Rightarrow> unit trk_io" where
  "UploadTrackerCacheAsync env hash index s =
     (if uploading s then Ret () s
      else case map_of (trackers_cache s hash) index of
             None \<Rightarrow> Ret () s
           | Some k \<Rightarrow>
               start_upload env hash index k
                 (s\<lparr>trackers_cache := (trackers_cache s)(hash := map_erase index (trackers_cache s hash)), uploading := True\<rparr>))"

text \<open>The callback. A cache that \<^verbatim>\<open>Clear\<close> cannot reset is destroyed, and freed with the callback.\<close>

definition UploadFinished :: "track_env \<Rightarrow> bool \<Rightarrow> unit trk_io" where
  "UploadFinished env success s =
     (case trk_pending s of
        None \<Rightarrow> Undef
      | Some (hash, index, k, _) \<Rightarrow>
          io_seq (io_upd (\<lambda>s. s\<lparr>trk_pending := None\<rparr>))
         (io_seq (if success then
                    io_catch
                      (io_seq (on_cache k (Cache_Clear (te_cache env)))
                              (emplace_cache env (DiskCachePath hash index) hash index k))
                      (io_seq (on_cache k (Cache_Destroy (te_cache env)))
                      (io_seq (set_id hash index False)
                              (release env (DiskCachePath hash index) k)))
                  else
                    io_seq (emplace_cache env (DiskCachePath hash index) hash index k)
                           (io_upd (\<lambda>s. s\<lparr>latest_upload_failed := Some k\<rparr>)))
                (io_upd (\<lambda>s. s\<lparr>uploading := False\<rparr>))) s)"

fun check_loop :: "(u64 \<times> u32 \<times> nat) list \<Rightarrow> u64 \<times> u32 \<Rightarrow> (u64 \<times> u32) trk_io" where
  "check_loop [] cache_upload = io_ret cache_upload"
| "check_loop ((hash, idx, k) # rest) cache_upload =
     io_bind (on_cache k GetCount) (\<lambda>n.
     if n > 0 then
       io_bind (io_get latest_upload_failed) (\<lambda>failed.
       if failed \<noteq> Some k then check_loop rest (hash, idx) else io_ret (hash, idx))
     else check_loop rest cache_upload)"

text \<open>\<open>order\<close> lists the hashes in the order in which the unordered map is walked.\<close>

definition CheckAndUploadTrackers :: "track_env \<Rightarrow> u64 list \<Rightarrow> unit trk_io" where
  "CheckAndUploadTrackers env order s =
     (if uploading s then Ret () s
      else io_bind (check_loop (concat (map (\<lambda>hash. map (\<lambda>(idx, k). (hash, idx, k)) (trackers_cache s hash)) order)) (0, 0))
             (\<lambda>(hash, index). if hash \<noteq> 0 then UploadTrackerCacheAsync env hash index else io_ret ()) s)"

text \<open>The timer event: the check, then the next post of the event.\<close>

definition check_upload_event :: "track_env \<Rightarrow> u64 list \<Rightarrow> unit trk_io" where
  "check_upload_event env order =
     io_seq (CheckAndUploadTrackers env order) (io_upd (\<lambda>s. s\<lparr>check_posts := check_posts s @ [check_ms]\<rparr>))"

section \<open>Flushing\<close>

text \<open>
  The first loop of \<^verbatim>\<open>FlushTracker\<close>. A full cache is handed to the upload, which erases the map entry
  the loop stands on; going on from there is undefined behaviour.
\<close>

fun flush_loop :: "track_env \<Rightarrow> u64 \<Rightarrow> track_msg \<Rightarrow> (u32 \<times> nat) list \<Rightarrow> bool trk_io" where
  "flush_loop env hash msg [] = io_ret False"
| "flush_loop env hash msg ((index, k) # rest) =
     io_bind (on_cache k GetCount) (\<lambda>n.
     io_bind (io_get tracker_group_size) (\<lambda>group_size.
     if n \<ge> group_size then
       io_seq (UploadTrackerCacheAsync env hash index)
      (io_bind (io_get (\<lambda>s. (index, k) \<in> set (trackers_cache s hash))) (\<lambda>present.
       if present then flush_loop env hash msg rest else io_undef))
     else
       io_bind (TrackerCache_Push env msg k) (\<lambda>pushed.
       if pushed then
         io_bind (on_cache k GetCount) (\<lambda>n.
         io_seq (if n \<ge> UPLOAD_TRACKER_COUNT then UploadTrackerCacheAsync env hash index else io_ret ()) (io_ret True))
       else flush_loop env hash msg rest)))"

text \<open>The second loop: the first free index whose cache can be created takes the message.\<close>

fun create_loop :: "track_env \<Rightarrow> u64 \<Rightarrow> track_msg \<Rightarrow> TrackerConfig option \<Rightarrow> nat list \<Rightarrow> bool trk_io" where
  "create_loop env hash msg config [] = io_ret False"
| "create_loop env hash msg config (i # rest) =
     io_bind (io_get (\<lambda>s. tracker_cache_ids s hash ! i)) (\<lambda>taken.
     if taken then create_loop env hash msg config rest
     else io_bind (CreateCache env hash (of_nat i) config) (\<lambda>new_cache.
       case new_cache of
         Some k \<Rightarrow> TrackerCache_Push env msg k
       | None \<Rightarrow> create_loop env hash msg config rest))"

definition FlushTracker :: "track_env \<Rightarrow> track_msg option \<Rightarrow> (bool \<times> track_msg option) trk_io" where
  "FlushTracker env tracker s =
     (case tracker of
        None \<Rightarrow> Ret (False, None) s
      | Some msg \<Rightarrow>
          if \<not> trk_inited s then Ret (False, Some msg) s
          else (case Option.bind (tm_config msg) Config_Hash of
              None \<Rightarrow> Undef
            | Some (chash, config) \<Rightarrow>
                let msg = msg\<lparr>tm_config := Some config\<rparr>
                in if IsFlushed msg then Ret (False, Some msg) s
                   else
                     let msg = Flushed msg
                     in io_bind (flush_loop env chash msg (trackers_cache s chash)) (\<lambda>pushed.
                        io_bind (if \<not> pushed then create_loop env chash msg (Some config) [0..<MAX_CACHE_COUNT] else io_ret True) (\<lambda>pushed.
                        io_ret (pushed, Some msg))) s))"

section \<open>Start\<close>

fun sync_load :: "track_env \<Rightarrow> (string \<times> bool) list \<Rightarrow> unit trk_io" where
  "sync_load env [] = io_ret ()"
| "sync_load env ((f_name, is_dir) # fs) =
     (if is_dir then sync_load env fs
      else case cache_file_name f_name of
             Some (Inr (hash, idx)) \<Rightarrow>
               io_seq (io_catch
                         (io_bind (new_TrackerCache env f_name hash None) (\<lambda>k.
                          io_seq (emplace_cache env f_name hash idx k) (set_id hash idx True)))
                         (io_ret ()))
                      (sync_load env fs)
           | _ \<Rightarrow> sync_load env fs)"

definition SyncLoadTrackersCache :: "track_env \<Rightarrow> (string \<times> bool) list option \<Rightarrow> unit trk_io" where
  "SyncLoadTrackersCache env listing = sync_load env (case listing of Some fs \<Rightarrow> fs | None \<Rightarrow> [])"

definition Tracker_Init :: "track_env \<Rightarrow> u32 \<Rightarrow> bool \<Rightarrow> (string \<times> bool) list option \<Rightarrow> unit trk_io" where
  "Tracker_Init env group_size has_device listing =
     io_seq (io_upd (\<lambda>s. s\<lparr>tracker_group_size := (if group_size \<noteq> 0 then group_size else 2000)\<rparr>))
    (io_seq (io_assert has_device ''dev'')
    (io_seq (SyncLoadTrackersCache env listing)
    (io_seq (io_upd (\<lambda>s. s\<lparr>check_posts := check_posts s @ [0]\<rparr>))
            (io_upd (\<lambda>s. s\<lparr>trk_inited := True\<rparr>)))))"

section \<open>Creating messages\<close>

fun add_params :: "(string \<times> string) list \<Rightarrow> track_msg \<Rightarrow> track_msg throws" where
  "add_params [] msg = Inr msg"
| "add_params ((k, v) # ps) msg = throws_bind (AddParam k v msg) (add_params ps)"

record track_commons =
  tc_sdk_version :: string
  tc_device_id :: string
  tc_uuid :: string
  tc_device :: "DeviceInfo option"
  tc_game :: "(string \<times> string) option"

definition FillCommons :: "track_commons \<Rightarrow> track_msg \<Rightarrow> track_msg throws" where
  "FillCommons tc msg =
     throws_bind (add_params [(''sdk_version'', tc_sdk_version tc), (''device_id'', tc_device_id tc),
        (''t_log_id'', tc_uuid tc), (''version'', TAP_TRACKER_VERSION)] msg) (\<lambda>msg.
     throws_bind (case tc_device tc of
        None \<Rightarrow> Inr msg
      | Some d \<Rightarrow> add_params [(''dv'', dev_version d), (''md'', dev_model d), (''cpu'', dev_cpu_info d), (''ram'', dev_ram_size d),
          (''rom'', dev_rom_size d), (''network_type'', dev_network_type d), (''mobile_type'', dev_mobile_type d), (''os'', dev_platform d),
          (''sv'', dev_os_version d)] msg) (\<lambda>msg.
     case tc_game tc of
        None \<Rightarrow> Inr msg
      | Some (package, version) \<Rightarrow> add_params [(''app_package_name'', package), (''app_version'', version)] msg))"

definition CreateTracker :: "track_commons \<Rightarrow> u32 \<Rightarrow> TrackerConfig option \<Rightarrow> tracker \<Rightarrow> track_msg option throws" where
  "CreateTracker tc now config s =
     (if \<not> trk_inited s \<or> config = None then Inr None
      else map_sum id Some (FillCommons tc (new_TrackMessageImpl now config)))"

section \<open>The invariant of the caches\<close>

text \<open>The caches in use: those in the map and the one being uploaded.\<close>

definition entries :: "tracker \<Rightarrow> (u64 \<times> u32 \<times> nat) set" where
  "entries s = {(h, i, k). (i, k) \<in> set (trackers_cache s h)} \<union> {(h, i, k). \<exists>rq. trk_pending s = Some (h, i, k, rq)}"

definition trk_inv :: "tracker \<Rightarrow> bool" where
  "trk_inv s \<longleftrightarrow>
     (\<forall>h. length (tracker_cache_ids s h) = MAX_CACHE_COUNT \<and> distinct (map fst (trackers_cache s h)))
   \<and> (\<forall>h i. (\<exists>k. (h, i, k) \<in> entries s) \<longleftrightarrow> unat i < MAX_CACHE_COUNT \<and> tracker_cache_ids s h ! unat i)
   \<and> (\<forall>h i h' i' k. (h, i, k) \<in> entries s \<longrightarrow> (h', i', k) \<in> entries s \<longrightarrow> h = h' \<and> i = i')
   \<and> (\<forall>h i k. (h, i, k) \<in> entries s \<longrightarrow> k < trk_next s)
   \<and> (uploading s \<longleftrightarrow> trk_pending s \<noteq> None)
   \<and> (\<forall>h i k rq. trk_pending s = Some (h, i, k, rq) \<longrightarrow> i \<notin> fst ` set (trackers_cache s h))"

text \<open>The part of the state the invariant is about; operations of cache objects do not touch it.\<close>

definition shape :: "tracker \<Rightarrow> (u64 \<Rightarrow> (u32 \<times> nat) list) \<times> (u64 \<Rightarrow> bool list) \<times> bool \<times>
    (u64 \<times> u32 \<times> nat \<times> (string \<times> pairs \<times> u8 list)) option \<times> nat" where
  "shape s = (trackers_cache s, tracker_cache_ids s, uploading s, trk_pending s, trk_next s)"

lemma trk_inv_shape: "shape s = shape s' \<Longrightarrow> trk_inv s = trk_inv s'"
  by (simp add: trk_inv_def entries_def shape_def)

lemma on_cache_shape: "io_spec (\<lambda>s. shape s = x) (on_cache k m) (\<lambda>_ s. shape s = x) (\<lambda>s. shape s = x)"
  by (auto simp: io_spec_def on_cache_def shape_def split: outcome.split)

lemma on_cache_inv: "io_spec trk_inv (on_cache k m) (\<lambda>_. trk_inv) trk_inv"
proof (rule io_specI)
  fix s s' a assume "trk_inv s" "on_cache k m s = Ret a s'"
  then show "trk_inv s'" using io_specD(1) [OF on_cache_shape refl] trk_inv_shape [of s' s] by metis
next
  fix s s' e assume "trk_inv s" "on_cache k m s = Throw e s'"
  then show "trk_inv s'" using io_specD(2) [OF on_cache_shape refl] trk_inv_shape [of s' s] by metis
qed

lemma trk_inv_same_entries:
  assumes "trk_inv s" and "entries s' = entries s" and "tracker_cache_ids s' = tracker_cache_ids s" and "trk_next s' = trk_next s"
    and "\<And>h. distinct (map fst (trackers_cache s' h))" and "uploading s' \<longleftrightarrow> trk_pending s' \<noteq> None"
    and "\<And>h i k rq. trk_pending s' = Some (h, i, k, rq) \<Longrightarrow> i \<notin> fst ` set (trackers_cache s' h)"
  shows "trk_inv s'"
  using assms unfolding trk_inv_def by simp

lemma set_emplace: "i \<notin> fst ` set xs \<Longrightarrow> set (emplace i k xs) = insert (i, k) (set xs)"
  by (induction xs) (auto split: if_splits)

lemma distinct_emplace:
  "i \<notin> fst ` set xs \<Longrightarrow> distinct (map fst xs) \<Longrightarrow> distinct (map fst (emplace i k xs))"
proof (induction xs)
  case (Cons x xs)
  obtain j m where x: "x = (j, m)" by (cases x)
  have "fst ` set (emplace i k xs) = insert i (fst ` set xs)" using Cons.prems by (auto simp: set_emplace)
  then show ?case using Cons x by auto
qed simp

lemma map_erase_simps [simp]:
  "set (map_erase i xs) = {(j, k) \<in> set xs. j \<noteq> i}" "distinct (map fst xs) \<Longrightarrow> distinct (map fst (map_erase i xs))"
  unfolding map_erase_def by (auto simp: distinct_map_filter)

lemma Cache_Load_no_throw: "Cache_Load env c \<noteq> Throw e c'"
proof -
  have g: "get_header c \<noteq> Throw e' c''" for c e' c''
    by (auto simp: get_header_def io_bind_def io_ret_def mem_read_def split: outcome.splits header_ref.splits option.splits if_splits)
  have s: "(Size :: nat cache_io) c \<noteq> Throw e' c''" for c e' c'' by (auto simp: Size_def split: option.splits if_splits)
  have r: "(Read os off n :: (u8 list \<times> bool) cache_io) c \<noteq> Throw e' c''" for os off n c e' c''
    by (auto simp: Read_def io_bind_def io_ret_def syscall_def Let_def split: stream.splits option.splits)
  show ?thesis
    using g s r unfolding Cache_Load_def io_bind_def io_get_def io_ret_def io_undef_def Let_def
    by (auto split: outcome.splits header_ref.splits option.splits if_splits)
qed

text \<open>Handing a cache to the upload moves it from the map to the pending upload.\<close>

lemma start_upload_cases:
  assumes "start_upload env h i k s = r"
  shows "r = Undef \<or> (\<exists>s' rq. r = Ret () (s'\<lparr>trk_pending := Some (h, i, k, rq)\<rparr>) \<and> shape s' = shape s
    \<and> trk_inited s' = trk_inited s \<and> tracker_group_size s' = tracker_group_size s)"
proof (cases "on_cache k (Cache_Load (te_cache env)) s")
  case (Ret ms s')
  have "shape s' = shape s" using io_specD(1) [OF on_cache_shape refl Ret] by simp
  moreover have "trk_inited s' = trk_inited s" "tracker_group_size s' = tracker_group_size s"
    using Ret by (auto simp: on_cache_def split: outcome.splits)
  ultimately show ?thesis
    using assms Ret by (auto simp: start_upload_def io_bind_def io_get_def io_upd_def io_undef_def split: option.splits sum.splits)
next
  case (Throw e s')
  then show ?thesis using Cache_Load_no_throw by (auto simp: on_cache_def split: outcome.splits)
next
  case Undef
  then show ?thesis using assms by (simp add: start_upload_def io_bind_def)
qed

lemma UploadTrackerCacheAsync_cases:
  assumes "UploadTrackerCacheAsync env h i s = r"
  obtains "r = Undef"
  | "r = Ret () s" and "uploading s \<or> i \<notin> fst ` set (trackers_cache s h)"
  | k s' rq where "r = Ret () (s'\<lparr>trk_pending := Some (h, i, k, rq)\<rparr>)" and "\<not> uploading s"
      and "map_of (trackers_cache s h) i = Some k"
      and "shape s' = shape (s\<lparr>trackers_cache := (trackers_cache s)(h := map_erase i (trackers_cache s h)), uploading := True\<rparr>)"
      and "trk_inited s' = trk_inited s" and "tracker_group_size s' = tracker_group_size s"
proof (cases "uploading s \<or> map_of (trackers_cache s h) i = None")
  case True
  then have "r = Ret () s" using assms by (auto simp: UploadTrackerCacheAsync_def)
  with True that(2) show ?thesis by (auto simp: map_of_eq_None_iff)
next
  case False
  then obtain k where k: "\<not> uploading s" "map_of (trackers_cache s h) i = Some k" by auto
  then have "start_upload env h i k
      (s\<lparr>trackers_cache := (trackers_cache s)(h := map_erase i (trackers_cache s h)), uploading := True\<rparr>) = r"
    using assms by (simp add: UploadTrackerCacheAsync_def)
  from start_upload_cases [OF this] show ?thesis using k that by auto
qed

lemma upload_inv:
  assumes inv: "trk_inv s" and up: "\<not> uploading s" and k: "map_of (trackers_cache s h) i = Some k"
    and s': "shape s' = shape (s\<lparr>trackers_cache := (trackers_cache s)(h := map_erase i (trackers_cache s h)), uploading := True\<rparr>)"
  shows "trk_inv (s'\<lparr>trk_pending := Some (h, i, k, rq)\<rparr>)" and "entries (s'\<lparr>trk_pending := Some (h, i, k, rq)\<rparr>) = entries s"
proof -
  have d: "distinct (map fst (trackers_cache s h))" using inv by (simp add: trk_inv_def)
  have p: "trk_pending s = None" using inv up unfolding trk_inv_def by blast
  have ik: "(i, k) \<in> set (trackers_cache s h)" using k by (rule map_of_SomeD)
  then have uniq: "(i, k') \<in> set (trackers_cache s h) \<Longrightarrow> k' = k" for k'
    using d by (meson eq_key_imp_eq_value)
  have t: "trackers_cache s' = (trackers_cache s)(h := map_erase i (trackers_cache s h))"
      "tracker_cache_ids s' = tracker_cache_ids s" "uploading s'" "trk_next s' = trk_next s"
    using s' by (simp_all add: shape_def)
  have m: "(i', k') \<in> set (trackers_cache s' h') \<longleftrightarrow> (i', k') \<in> set (trackers_cache s h') \<and> \<not> (h' = h \<and> i' = i)" for h' i' k'
    by (simp add: t(1))
  have "(h', i', k') \<in> entries (s'\<lparr>trk_pending := Some (h, i, k, rq)\<rparr>) \<longleftrightarrow> (h', i', k') \<in> entries s" for h' i' k'
    using ik uniq [of k'] m [of i' k' h'] unfolding entries_def by (cases "h' = h \<and> i' = i"; cases rq) (auto simp: p)
  then show e: "entries (s'\<lparr>trk_pending := Some (h, i, k, rq)\<rparr>) = entries s" by auto
  have dd: "distinct (map fst (trackers_cache s' h'))" for h'
    using inv by (simp add: t(1) trk_inv_def)
  have "i \<notin> fst ` set (trackers_cache s' h)" using m by auto
  then show "trk_inv (s'\<lparr>trk_pending := Some (h, i, k, rq)\<rparr>)"
    by (intro trk_inv_same_entries [OF inv e]) (use t dd in auto)
qed

lemma UploadTrackerCacheAsync_inv: "io_spec trk_inv (UploadTrackerCacheAsync env h i) (\<lambda>_. trk_inv) trk_inv"
proof (rule io_specI)
  show "trk_inv s'" if "trk_inv s" "UploadTrackerCacheAsync env h i s = Ret a s'" for s a s'
    using that(2) by (cases rule: UploadTrackerCacheAsync_cases) (use that(1) upload_inv in auto)
  show "trk_inv s'" if "trk_inv s" "UploadTrackerCacheAsync env h i s = Throw e s'" for s e s'
    using that(2) by (cases rule: UploadTrackerCacheAsync_cases) auto
qed

lemma release_shape: "io_spec (\<lambda>s. shape s = x) (release env name k) (\<lambda>_ s. shape s = x) (\<lambda>s. shape s = x)"
  unfolding release_def by (rule io_spec_seq [OF on_cache_shape]) (simp add: io_spec_upd shape_def)

lemma new_TrackerCache_shape:
  "new_TrackerCache env name hash config s = Ret k s' \<Longrightarrow> k = trk_next s \<and> shape s' = shape (s\<lparr>trk_next := Suc (trk_next s)\<rparr>)"
  "new_TrackerCache env name hash config s = Throw e s' \<Longrightarrow> shape s' = shape s"
  by (auto simp: new_TrackerCache_def shape_def split: outcome.splits)

lemma trk_invD:
  assumes "trk_inv s"
  shows "length (tracker_cache_ids s h) = MAX_CACHE_COUNT" and "distinct (map fst (trackers_cache s h))"
    and "(\<exists>k. (h, i, k) \<in> entries s) \<longleftrightarrow> unat i < MAX_CACHE_COUNT \<and> tracker_cache_ids s h ! unat i"
    and "(h, i, k) \<in> entries s \<Longrightarrow> (h', i', k) \<in> entries s \<Longrightarrow> h = h' \<and> i = i'"
    and "(h, i, k) \<in> entries s \<Longrightarrow> k < trk_next s"
    and "uploading s \<longleftrightarrow> trk_pending s \<noteq> None"
    and "trk_pending s = Some (h, i, k, rq) \<Longrightarrow> i \<notin> fst ` set (trackers_cache s h)"
  using assms unfolding trk_inv_def by (elim conjE, iprover)+

lemma entry_id: "trk_inv s \<Longrightarrow> (h, i, k) \<in> entries s \<Longrightarrow> unat i < MAX_CACHE_COUNT \<and> tracker_cache_ids s h ! unat i"
  using trk_invD(3) by blast

lemma map_entry: "(i, k) \<in> set (trackers_cache s h) \<Longrightarrow> (h, i, k) \<in> entries s"
  by (simp add: entries_def)

lemma trk_inv_add:
  assumes inv: "trk_inv s" and i: "unat i < MAX_CACHE_COUNT" "\<not> tracker_cache_ids s h ! unat i"
    and s': "shape s' = ((trackers_cache s)(h := emplace i (trk_next s) (trackers_cache s h)),
        (tracker_cache_ids s)(h := (tracker_cache_ids s h)[unat i := True]), uploading s, trk_pending s, Suc (trk_next s))"
  shows "trk_inv s'" and "entries s' = insert (h, i, trk_next s) (entries s)"
proof -
  have new: "i \<notin> fst ` set (trackers_cache s h)" using i entry_id [OF inv] map_entry by fastforce
  have t: "trackers_cache s' = (trackers_cache s)(h := emplace i (trk_next s) (trackers_cache s h))"
    "tracker_cache_ids s' = (tracker_cache_ids s)(h := (tracker_cache_ids s h)[unat i := True])"
    "uploading s' = uploading s" "trk_pending s' = trk_pending s" "trk_next s' = Suc (trk_next s)"
    using s' by (simp_all add: shape_def)
  have m: "(i', k') \<in> set (trackers_cache s' h') \<longleftrightarrow> (i', k') \<in> set (trackers_cache s h') \<or> h' = h \<and> i' = i \<and> k' = trk_next s" for h' i' k'
    using set_emplace [OF new, of "trk_next s"] by (auto simp: t(1))
  show e: "entries s' = insert (h, i, trk_next s) (entries s)"
    by (auto simp: entries_def m t(4))
  note D = trk_invD [OF inv]
  have fresh: "(h', i', trk_next s) \<notin> entries s" for h' i' using D(5) by blast
  have pe: "i' \<notin> fst ` set (trackers_cache s' h')" if p: "trk_pending s = Some (h', i', k, rq)" for h' i' k rq
  proof -
    have "(h', i', k) \<in> entries s" using p by (cases rq) (simp add: entries_def)
    then have "\<not> (h' = h \<and> i' = i)" using i entry_id [OF inv] by blast
    then show ?thesis using D(7) [OF p] m by fastforce
  qed
  have bit: "(\<exists>k. (h', i', k) \<in> entries s') \<longleftrightarrow> unat i' < MAX_CACHE_COUNT \<and> tracker_cache_ids s' h' ! unat i'" for h' i'
  proof (cases "h' = h \<and> i' = i")
    case True
    then show ?thesis using i D(1) [of h] by (auto simp: e t)
  next
    case False
    then have "h' = h \<Longrightarrow> unat i \<noteq> unat i'" using word_unat_eq_iff by metis
    then have "tracker_cache_ids s' h' ! unat i' = tracker_cache_ids s h' ! unat i'"
      by (cases "h' = h") (simp_all add: t)
    then show ?thesis using False D(3) [of h' i'] by (auto simp: e)
  qed
  have len: "length (tracker_cache_ids s' h') = MAX_CACHE_COUNT \<and> distinct (map fst (trackers_cache s' h'))" for h'
    using D(1,2) distinct_emplace [OF new D(2)] by (simp add: t)
  have uniq: "h1 = h2 \<and> i1 = i2" if "(h1, i1, k) \<in> entries s'" "(h2, i2, k) \<in> entries s'" for h1 i1 h2 i2 k
    using that fresh D(4) unfolding e by fastforce
  have lt: "k < trk_next s'" if "(h1, i1, k) \<in> entries s'" for h1 i1 k
    using that D(5) unfolding e t(5) by (auto intro: less_SucI)
  show "trk_inv s'"
    unfolding trk_inv_def
  proof (intro conjI allI impI)
    show "length (tracker_cache_ids s' h') = MAX_CACHE_COUNT" "distinct (map fst (trackers_cache s' h'))" for h'
      using len by simp_all
    show "(\<exists>k. (h', i', k) \<in> entries s') = (unat i' < MAX_CACHE_COUNT \<and> tracker_cache_ids s' h' ! unat i')" for h' i' by (rule bit)
    show "uploading s' = (trk_pending s' \<noteq> None)" using D(6) by (simp add: t)
    show "i' \<notin> fst ` set (trackers_cache s' h')" if "trk_pending s' = Some (h', i', k, rq)" for h' i' k rq
      using pe that unfolding t(4) .
  qed (use uniq lt in blast)+
qed

text \<open>Creating a cache at a free index.\<close>

lemma create_at_free:
  assumes inv: "trk_inv s" and i: "unat i < MAX_CACHE_COUNT" "\<not> tracker_cache_ids s h ! unat i"
    and r: "new_TrackerCache env name h config s = Ret k s1"
  shows "\<exists>s2. io_seq (set_id h i True) (io_seq (emplace_cache env name h i k) (io_ret (Some k))) s1 = Ret (Some k) s2
    \<and> trk_inv s2 \<and> entries s2 = insert (h, i, k) (entries s) \<and> s2 = s1\<lparr>tracker_cache_ids := tracker_cache_ids s2, trackers_cache := trackers_cache s2\<rparr>"
    and "\<exists>s2. io_seq (emplace_cache env name h i k) (set_id h i True) s1 = Ret () s2
    \<and> trk_inv s2 \<and> entries s2 = insert (h, i, k) (entries s) \<and> s2 = s1\<lparr>tracker_cache_ids := tracker_cache_ids s2, trackers_cache := trackers_cache s2\<rparr>"
proof -
  have new: "i \<notin> fst ` set (trackers_cache s h)" using i entry_id [OF inv] map_entry by fastforce
  have k: "k = trk_next s" "shape s1 = shape (s\<lparr>trk_next := Suc (trk_next s)\<rparr>)"
    using new_TrackerCache_shape(1) [OF r] by simp_all
  then have t: "trackers_cache s1 = trackers_cache s" "tracker_cache_ids s1 = tracker_cache_ids s" "uploading s1 = uploading s"
      "trk_pending s1 = trk_pending s" "trk_next s1 = Suc (trk_next s)"
    by (simp_all add: shape_def)
  define s2 where "s2 = s1\<lparr>tracker_cache_ids := (tracker_cache_ids s)(h := (tracker_cache_ids s h)[unat i := True]),
     trackers_cache := (trackers_cache s)(h := emplace i k (trackers_cache s h))\<rparr>"
  have "shape s2 = ((trackers_cache s)(h := emplace i (trk_next s) (trackers_cache s h)),
        (tracker_cache_ids s)(h := (tracker_cache_ids s h)[unat i := True]), uploading s, trk_pending s, Suc (trk_next s))"
    by (simp add: s2_def shape_def t k)
  note a = trk_inv_add [OF inv i this]
  have "io_seq (set_id h i True) (io_seq (emplace_cache env name h i k) (io_ret (Some k))) s1 = Ret (Some k) s2"
    using i new t by (simp add: io_seq_def io_bind_def set_id_def emplace_cache_def io_ret_def s2_def)
  then show "\<exists>s2. io_seq (set_id h i True) (io_seq (emplace_cache env name h i k) (io_ret (Some k))) s1 = Ret (Some k) s2
    \<and> trk_inv s2 \<and> entries s2 = insert (h, i, k) (entries s) \<and> s2 = s1\<lparr>tracker_cache_ids := tracker_cache_ids s2, trackers_cache := trackers_cache s2\<rparr>"
    using a k by (auto simp: s2_def)
  have "io_seq (emplace_cache env name h i k) (set_id h i True) s1 = Ret () s2"
    using i new t by (simp add: io_seq_def io_bind_def set_id_def emplace_cache_def io_ret_def s2_def)
  then show "\<exists>s2. io_seq (emplace_cache env name h i k) (set_id h i True) s1 = Ret () s2
    \<and> trk_inv s2 \<and> entries s2 = insert (h, i, k) (entries s) \<and> s2 = s1\<lparr>tracker_cache_ids := tracker_cache_ids s2, trackers_cache := trackers_cache s2\<rparr>"
    using a k by (auto simp: s2_def)
qed

lemma File_Delete_name_inv: "io_spec trk_inv (File_Delete_name env name) (\<lambda>_. trk_inv) trk_inv"
  by (rule io_specI) (auto simp: File_Delete_name_def trk_inv_def entries_def split: if_splits)

lemma CreateCache_inv:
  assumes "i < MAX_CACHE_COUNT"
  shows "io_spec (\<lambda>s. trk_inv s \<and> \<not> tracker_cache_ids s h ! i) (CreateCache env h (of_nat i) config) (\<lambda>_. trk_inv) trk_inv"
  unfolding CreateCache_def
proof (rule io_spec_catch)
  have u: "unat (of_nat i :: u32) = i" using assms by (simp add: MAX_CACHE_COUNT_def unat_of_nat take_bit_eq_mod)
  show "io_spec (\<lambda>s. trk_inv s \<and> \<not> tracker_cache_ids s h ! i)
     (io_bind (new_TrackerCache env (DiskCachePath h (of_nat i)) h config)
       (\<lambda>k. io_seq (set_id h (of_nat i) True) (io_seq (emplace_cache env (DiskCachePath h (of_nat i)) h (of_nat i) k) (io_ret (Some k)))))
     (\<lambda>_. trk_inv) trk_inv"
    unfolding io_spec_def
  proof (intro allI impI)
    fix s assume s: "trk_inv s \<and> \<not> tracker_cache_ids s h ! i"
    show "case io_bind (new_TrackerCache env (DiskCachePath h (of_nat i)) h config)
       (\<lambda>k. io_seq (set_id h (of_nat i) True) (io_seq (emplace_cache env (DiskCachePath h (of_nat i)) h (of_nat i) k) (io_ret (Some k)))) s
      of Ret _ s' \<Rightarrow> trk_inv s' | Throw _ s' \<Rightarrow> trk_inv s' | Undef \<Rightarrow> True"
    proof (cases "new_TrackerCache env (DiskCachePath h (of_nat i)) h config s")
      case (Ret k s1)
      obtain s2 where "io_seq (set_id h (of_nat i) True)
          (io_seq (emplace_cache env (DiskCachePath h (of_nat i)) h (of_nat i) k) (io_ret (Some k))) s1 = Ret (Some k) s2" "trk_inv s2"
        using create_at_free(1) [OF _ _ _ Ret, of "of_nat i"] s u assms by auto
      then show ?thesis using Ret by (simp add: io_bind_def)
    next
      case (Throw e s1)
      then show ?thesis using new_TrackerCache_shape(2) [OF Throw] trk_inv_shape [of s1 s] s by (simp add: io_bind_def)
    qed (simp add: io_bind_def)
  qed
  show "io_spec trk_inv (io_seq (File_Delete_name env (DiskCachePath h (of_nat i))) (io_ret None)) (\<lambda>_. trk_inv) trk_inv"
    by (intro io_keeps_rules File_Delete_name_inv)
qed

lemma TrackerCache_Push_inv: "io_spec trk_inv (TrackerCache_Push env msg k) (\<lambda>_. trk_inv) trk_inv"
  unfolding TrackerCache_Push_def by (intro io_keeps_rules on_cache_inv)

lemma flush_loop_inv: "io_spec trk_inv (flush_loop env h msg xs) (\<lambda>_. trk_inv) trk_inv"
proof (induction xs)
  case Nil
  then show ?case by (simp add: io_keeps_prim)
next
  case (Cons x xs)
  obtain i k where "x = (i, k)" by (cases x)
  then show ?case
    using Cons by (simp only: flush_loop.simps)
      (intro io_keeps_rules on_cache_inv TrackerCache_Push_inv UploadTrackerCacheAsync_inv; assumption)
qed

lemma create_loop_inv:
  "\<forall>i\<in>set is. i < MAX_CACHE_COUNT \<Longrightarrow> io_spec trk_inv (create_loop env h msg config is) (\<lambda>_. trk_inv) trk_inv"
proof (induction "is")
  case Nil
  then show ?case by (simp add: io_keeps_prim)
next
  case (Cons i "is")
  then have IH: "io_spec trk_inv (create_loop env h msg config is) (\<lambda>_. trk_inv) trk_inv" by simp
  have step: "io_spec trk_inv (case n of Some k \<Rightarrow> TrackerCache_Push env msg k | None \<Rightarrow> create_loop env h msg config is)
      (\<lambda>_. trk_inv) trk_inv" for n
    using IH TrackerCache_Push_inv by (cases n) auto
  show ?case
    unfolding create_loop.simps
  proof (rule io_spec_bind)
    show "io_spec trk_inv (io_get (\<lambda>s. tracker_cache_ids s h ! i)) (\<lambda>taken s. trk_inv s \<and> taken = tracker_cache_ids s h ! i) trk_inv"
      by (simp add: io_spec_get)
    show "io_spec (\<lambda>s. trk_inv s \<and> taken = tracker_cache_ids s h ! i)
        (if taken then create_loop env h msg config is
         else io_bind (CreateCache env h (of_nat i) config)
           (\<lambda>n. case n of Some k \<Rightarrow> TrackerCache_Push env msg k | None \<Rightarrow> create_loop env h msg config is))
        (\<lambda>_. trk_inv) trk_inv" for taken
    proof (rule io_spec_if)
      show "io_spec (\<lambda>s. trk_inv s \<and> taken = tracker_cache_ids s h ! i) (create_loop env h msg config is) (\<lambda>_. trk_inv) trk_inv"
        by (rule io_spec_pre [OF IH]) simp
      assume "\<not> taken"
      then show "io_spec (\<lambda>s. trk_inv s \<and> taken = tracker_cache_ids s h ! i) (io_bind (CreateCache env h (of_nat i) config)
           (\<lambda>n. case n of Some k \<Rightarrow> TrackerCache_Push env msg k | None \<Rightarrow> create_loop env h msg config is)) (\<lambda>_. trk_inv) trk_inv"
        using Cons.prems by (intro io_spec_bind [OF io_spec_pre [OF CreateCache_inv] step]) auto
    qed
  qed
qed

lemma FlushTracker_inv: "io_keeps trk_inv (FlushTracker env msg)"
proof (rule io_specI)
  have body: "io_keeps trk_inv (io_bind (flush_loop env h m xs) (\<lambda>pushed.
      io_bind (if \<not> pushed then create_loop env h m cfg [0..<MAX_CACHE_COUNT] else io_ret True) (\<lambda>pushed. io_ret (pushed, Some m))))"
    for h m xs cfg
    by (intro io_keeps_rules flush_loop_inv create_loop_inv) simp
  fix s assume inv: "trk_inv s"
  show "trk_inv s'" if "FlushTracker env msg s = Ret a s'" for a s'
    using that inv
    by (auto simp: FlushTracker_def Let_def split: option.splits if_splits intro: io_specD(1) [OF body inv])
  show "trk_inv s'" if "FlushTracker env msg s = Throw e s'" for e s'
    using that
    by (auto simp: FlushTracker_def Let_def split: option.splits if_splits intro: io_specD(2) [OF body inv])
qed

lemma check_loop_inv: "io_keeps trk_inv (check_loop xs cur)"
proof (induction xs arbitrary: cur)
  case Nil
  then show ?case by (simp add: io_keeps_prim)
next
  case (Cons x xs)
  obtain h i k where "x = (h, i, k)" by (cases x)
  then show ?case using Cons by (simp only: check_loop.simps) (intro io_keeps_rules on_cache_inv; assumption)
qed

lemma trk_inv_posts [simp]: "trk_inv (s\<lparr>check_posts := x\<rparr>) = trk_inv s"
  by (rule trk_inv_shape) (simp add: shape_def)

lemma check_upload_event_inv: "io_keeps trk_inv (check_upload_event env order)"
proof -
  have step: "io_keeps trk_inv (io_bind (check_loop xs cur) (\<lambda>(h, i). if h \<noteq> 0 then UploadTrackerCacheAsync env h i else io_ret ()))" for xs cur
    by (rule io_keeps_bind [OF check_loop_inv]) (auto intro!: io_keeps_rules UploadTrackerCacheAsync_inv)
  have "io_keeps trk_inv (CheckAndUploadTrackers env order)"
  proof (rule io_specI)
    fix s assume inv: "trk_inv s"
    show "trk_inv s'" if "CheckAndUploadTrackers env order s = Ret a s'" for a s'
      using that inv io_specD(1) [OF step inv] by (auto simp: CheckAndUploadTrackers_def split: if_splits)
    show "trk_inv s'" if "CheckAndUploadTrackers env order s = Throw e s'" for e s'
      using that io_specD(2) [OF step inv] by (auto simp: CheckAndUploadTrackers_def split: if_splits)
  qed
  then show ?thesis
    unfolding check_upload_event_def by (intro io_keeps_rules) simp_all
qed

text \<open>The callback puts the cache back, or gives its index free.\<close>

lemma pending_back:
  assumes inv: "trk_inv s" and p: "trk_pending s = Some (h, i, k, rq)"
    and s': "shape s' = ((trackers_cache s)(h := emplace i k (trackers_cache s h)), tracker_cache_ids s, False, None, trk_next s)"
  shows "trk_inv s'" and "entries s' = entries s"
proof -
  note D = trk_invD [OF inv]
  have t: "trackers_cache s' = (trackers_cache s)(h := emplace i k (trackers_cache s h))" "tracker_cache_ids s' = tracker_cache_ids s"
      "\<not> uploading s'" "trk_pending s' = None" "trk_next s' = trk_next s"
    using s' by (simp_all add: shape_def)
  have m: "(i', k') \<in> set (trackers_cache s' h') \<longleftrightarrow> (i', k') \<in> set (trackers_cache s h') \<or> h' = h \<and> i' = i \<and> k' = k" for h' i' k'
    using set_emplace [OF D(7) [OF p], of k] by (auto simp: t(1))
  show e: "entries s' = entries s" using p by (cases rq) (auto simp: entries_def m t(4))
  show "trk_inv s'"
    by (rule trk_inv_same_entries [OF inv e]) (use t D(2) distinct_emplace [OF D(7) [OF p] D(2)] in auto)
qed

lemma pending_gone:
  assumes inv: "trk_inv s" and p: "trk_pending s = Some (h, i, k, rq)"
    and s': "shape s' = (trackers_cache s, (tracker_cache_ids s)(h := (tracker_cache_ids s h)[unat i := False]), False, None, trk_next s)"
  shows "trk_inv s'"
proof -
  note D = trk_invD [OF inv]
  have t: "trackers_cache s' = trackers_cache s" "tracker_cache_ids s' = (tracker_cache_ids s)(h := (tracker_cache_ids s h)[unat i := False])"
      "\<not> uploading s'" "trk_pending s' = None" "trk_next s' = trk_next s"
    using s' by (simp_all add: shape_def)
  have pe: "(h, i, k) \<in> entries s" using p by (cases rq) (simp add: entries_def)
  have e: "(h', i', k') \<in> entries s' \<longleftrightarrow> (h', i', k') \<in> entries s \<and> \<not> (h' = h \<and> i' = i)" for h' i' k'
    using D(7) [OF p] p by (auto simp: entries_def t image_iff)
  have bit: "(\<exists>k. (h', i', k) \<in> entries s') \<longleftrightarrow> unat i' < MAX_CACHE_COUNT \<and> tracker_cache_ids s' h' ! unat i'" for h' i'
  proof (cases "h' = h \<and> i' = i")
    case True
    then show ?thesis using entry_id [OF inv pe] D(1) [of h] by (auto simp: e t)
  next
    case False
    then have "h' = h \<Longrightarrow> unat i \<noteq> unat i'" using word_unat_eq_iff by metis
    then have "tracker_cache_ids s' h' ! unat i' = tracker_cache_ids s h' ! unat i'" by (cases "h' = h") (simp_all add: t)
    then show ?thesis using False D(3) [of h' i'] by (simp add: e)
  qed
  show ?thesis
    unfolding trk_inv_def
  proof (intro conjI allI impI)
    show "length (tracker_cache_ids s' h') = MAX_CACHE_COUNT" "distinct (map fst (trackers_cache s' h'))" for h'
      using D(1,2) by (simp_all add: t)
    show "(\<exists>k. (h', i', k) \<in> entries s') = (unat i' < MAX_CACHE_COUNT \<and> tracker_cache_ids s' h' ! unat i')" for h' i' by (rule bit)
  qed (use t D(4,5) e in auto)
qed

lemma UploadFinished_inv:
  assumes inv: "trk_inv s" and r: "UploadFinished env success s = Ret u s'"
  shows "trk_inv s'"
proof -
  from r obtain h i k rq where p: "trk_pending s = Some (h, i, k, rq)"
    by (auto simp: UploadFinished_def split: option.splits)
  note D = trk_invD [OF inv]
  define s0 where "s0 = s\<lparr>trk_pending := None\<rparr>"
  have free: "i \<notin> fst ` set (trackers_cache s h)" using D(7) [OF p] .
  have em0: "emplace_cache env name h i k t = Ret () (t\<lparr>trackers_cache := (trackers_cache t)(h := emplace i k (trackers_cache t h))\<rparr>)"
    if "shape t = shape s0" for t name
    using that free by (simp add: emplace_cache_def shape_def s0_def)
  let ?good = "\<lambda>t. shape t = shape (s0\<lparr>trackers_cache := (trackers_cache s)(h := emplace i k (trackers_cache s h))\<rparr>)"
  let ?bad = "\<lambda>t. shape t = shape (s0\<lparr>tracker_cache_ids := (tracker_cache_ids s)(h := (tracker_cache_ids s h)[unat i := False])\<rparr>)"
  have em: "io_spec (\<lambda>t. shape t = shape s0) (emplace_cache env name h i k) (\<lambda>_. ?good) E" for name E
    by (rule io_specI) (auto simp: em0, auto simp: shape_def s0_def)
  have good: "io_spec (\<lambda>t. shape t = shape s0) (io_seq (on_cache k m) (emplace_cache env name h i k)) (\<lambda>_ t. ?good t \<or> ?bad t)
      (\<lambda>t. shape t = shape s0)" for m name
    by (rule io_spec_post [OF io_spec_seq [OF on_cache_shape em]]) auto
  have sid: "io_spec (\<lambda>t. shape t = shape s0) (set_id h i False) (\<lambda>_. ?bad) E" for E
    by (rule io_specI) (auto simp: set_id_def shape_def s0_def split: if_splits)
  have bad: "io_spec (\<lambda>t. shape t = shape s0) (io_seq (on_cache k m) (io_seq (set_id h i False) (release env name k)))
      (\<lambda>_ t. ?good t \<or> ?bad t) (\<lambda>_. True)" for m :: "bool cache_io" and name
  proof (rule io_spec_seq)
    show "io_spec (\<lambda>t. shape t = shape s0) (on_cache k m) (\<lambda>_ t. shape t = shape s0) (\<lambda>_. True)"
      by (rule io_spec_post [OF on_cache_shape]) simp_all
    show "io_spec (\<lambda>t. shape t = shape s0) (io_seq (set_id h i False) (release env name k)) (\<lambda>_ t. ?good t \<or> ?bad t) (\<lambda>_. True)"
      by (rule io_spec_post [OF io_spec_seq [OF sid release_shape]]) auto
  qed
  let ?m = "if success then
         io_catch (io_seq (on_cache k (Cache_Clear (te_cache env))) (emplace_cache env (DiskCachePath h i) h i k))
           (io_seq (on_cache k (Cache_Destroy (te_cache env))) (io_seq (set_id h i False) (release env (DiskCachePath h i) k)))
       else io_seq (emplace_cache env (DiskCachePath h i) h i k) (io_upd (\<lambda>s. s\<lparr>latest_upload_failed := Some k\<rparr>))"
  have all: "io_spec (\<lambda>t. shape t = shape s0) ?m (\<lambda>_ t. ?good t \<or> ?bad t) (\<lambda>_. True)"
  proof (rule io_spec_if)
    show "io_spec (\<lambda>t. shape t = shape s0)
         (io_catch (io_seq (on_cache k (Cache_Clear (te_cache env))) (emplace_cache env (DiskCachePath h i) h i k))
           (io_seq (on_cache k (Cache_Destroy (te_cache env))) (io_seq (set_id h i False) (release env (DiskCachePath h i) k))))
         (\<lambda>_ t. ?good t \<or> ?bad t) (\<lambda>_. True)"
      by (rule io_spec_catch [OF good bad])
    show "io_spec (\<lambda>t. shape t = shape s0) (io_seq (emplace_cache env (DiskCachePath h i) h i k)
        (io_upd (\<lambda>s. s\<lparr>latest_upload_failed := Some k\<rparr>))) (\<lambda>_ t. ?good t \<or> ?bad t) (\<lambda>_. True)"
      by (rule io_spec_seq [OF em]) (simp add: io_spec_upd shape_def)
  qed
  obtain a s1 where s1: "?m s0 = Ret a s1" "s' = s1\<lparr>uploading := False\<rparr>"
    using r p by (auto simp: UploadFinished_def s0_def io_seq_def io_bind_def io_upd_def split: outcome.splits)
  from io_specD(1) [OF all refl s1(1)] have "?good s1 \<or> ?bad s1" .
  then show ?thesis
  proof
    assume "?good s1"
    then have "shape s' = ((trackers_cache s)(h := emplace i k (trackers_cache s h)), tracker_cache_ids s, False, None, trk_next s)"
      using s1(2) by (simp add: shape_def s0_def)
    then show ?thesis by (rule pending_back(1) [OF inv p])
  next
    assume "?bad s1"
    then have "shape s' = (trackers_cache s, (tracker_cache_ids s)(h := (tracker_cache_ids s h)[unat i := False]), False, None, trk_next s)"
      using s1(2) by (simp add: shape_def s0_def)
    then show ?thesis by (rule pending_gone [OF inv p])
  qed
qed

lemma load_entry_inv:
  "io_keeps (\<lambda>s. trk_inv s \<and> trk_pending s = None)
     (io_bind (new_TrackerCache env name h None) (\<lambda>k. io_seq (emplace_cache env name h i k) (set_id h i True)))"
  unfolding io_spec_def
proof (intro allI impI)
  fix s assume s: "trk_inv s \<and> trk_pending s = None"
  let ?m = "\<lambda>k. io_seq (emplace_cache env name h i k) (set_id h i True)"
  let ?P = "\<lambda>s. trk_inv s \<and> trk_pending s = None"
  show "case io_bind (new_TrackerCache env name h None) ?m s of Ret _ s' \<Rightarrow> ?P s' | Throw _ s' \<Rightarrow> ?P s' | Undef \<Rightarrow> True"
  proof (cases "new_TrackerCache env name h None s")
    case (Throw e s1)
    then show ?thesis using new_TrackerCache_shape(2) [OF Throw] trk_inv_shape [of s1 s] s by (simp add: io_bind_def shape_def)
  next
    case (Ret k s1)
    have k: "shape s1 = shape (s\<lparr>trk_next := Suc (trk_next s)\<rparr>)" using new_TrackerCache_shape(1) [OF Ret] by simp
    have inv1: "trk_inv t" if "shape t = shape s1" for t
    proof -
      have "entries t = entries s" "trackers_cache t = trackers_cache s" "tracker_cache_ids t = tracker_cache_ids s"
        "uploading t = uploading s" "trk_pending t = trk_pending s" "trk_next t = Suc (trk_next s)"
        using that k by (auto simp: shape_def entries_def)
      then show ?thesis using s unfolding trk_inv_def by (auto intro: less_SucI)
    qed
    show ?thesis
    proof (cases "i \<in> fst ` set (trackers_cache s h)")
      case True
      then obtain k0 where "(h, i, k0) \<in> entries s" using map_entry by fastforce
      then have i: "unat i < MAX_CACHE_COUNT" "tracker_cache_ids s h ! unat i" using entry_id s by auto
      then have same: "(tracker_cache_ids s h)[unat i := True] = tracker_cache_ids s h" by (metis list_update_id)
      have "io_spec (\<lambda>t. shape t = shape s1) (?m k) (\<lambda>_ t. shape t = shape s1) (\<lambda>t. shape t = shape s1)"
      proof (rule io_spec_seq)
        show "io_spec (\<lambda>t. shape t = shape s1) (emplace_cache env name h i k) (\<lambda>_ t. shape t = shape s1) (\<lambda>t. shape t = shape s1)"
        proof (rule io_specI)
          fix t assume t: "shape t = shape s1"
          then have "emplace_cache env name h i k t = release env name k t"
            using True k by (simp add: emplace_cache_def shape_def)
          then show "emplace_cache env name h i k t = Ret a t' \<Longrightarrow> shape t' = shape s1"
            "emplace_cache env name h i k t = Throw e t' \<Longrightarrow> shape t' = shape s1" for a e t'
            using io_specD [OF release_shape t] by auto
        qed
        show "io_spec (\<lambda>t. shape t = shape s1) (set_id h i True) (\<lambda>_ t. shape t = shape s1) (\<lambda>t. shape t = shape s1)"
          by (rule io_specI) (use k same in \<open>auto simp: set_id_def shape_def split: if_splits\<close>)
      qed
      from io_specD [OF this refl] show ?thesis
        using Ret inv1 k s by (auto simp: io_bind_def shape_def split: outcome.split)
    next
      case False
      show ?thesis
      proof (cases "unat i < MAX_CACHE_COUNT")
        case i: True
        have "\<not> tracker_cache_ids s h ! unat i"
          using trk_invD(3) [of s h i] s i False by (fastforce simp: entries_def image_iff)
        then obtain s2 where s2: "?m k s1 = Ret () s2" "trk_inv s2"
          using create_at_free(2) [OF _ i _ Ret] s by blast
        moreover have "trk_pending s2 = None"
          using s2(1) False k s i by (auto simp: io_seq_def io_bind_def emplace_cache_def set_id_def shape_def split: if_splits)
        ultimately show ?thesis using Ret by (simp add: io_bind_def)
      next
        case i: False
        have "?m k s1 = Undef" using False k i by (simp add: io_seq_def io_bind_def emplace_cache_def set_id_def shape_def)
        then show ?thesis using Ret by (simp add: io_bind_def)
      qed
    qed
  qed (simp add: io_bind_def)
qed

lemma sync_load_inv: "io_keeps (\<lambda>s. trk_inv s \<and> trk_pending s = None) (sync_load env fs)"
proof (induction fs)
  case Nil
  then show ?case by (simp add: io_keeps_prim)
next
  case (Cons f fs)
  obtain name is_dir where f: "f = (name, is_dir)" by (cases f)
  have "io_keeps (\<lambda>s. trk_inv s \<and> trk_pending s = None)
      (io_seq (io_catch (io_bind (new_TrackerCache env name h None) (\<lambda>k. io_seq (emplace_cache env name h i k) (set_id h i True))) (io_ret ()))
        (sync_load env fs))" for h i
    by (intro io_keeps_rules load_entry_inv Cons)
  then show ?case using Cons f by (auto split: option.split sum.split)
qed

section \<open>Runs of the tracker\<close>

text \<open>The state of the static variables when the program starts, on a given disk.\<close>

definition tracker_start :: "(string \<Rightarrow> u8 list option) \<Rightarrow> bool \<Rightarrow> (nat \<Rightarrow> disk_cache) \<Rightarrow> tracker" where
  "tracker_start files dir objs = \<lparr>tracker_group_size = 0, trk_inited = False, uploading = False, trackers_cache = (\<lambda>_. []),
     tracker_cache_ids = (\<lambda>_. replicate MAX_CACHE_COUNT False), latest_upload_failed = None, trk_files = files, trk_dir = dir,
     trk_objs = objs, trk_next = 0, trk_calls = 0, trk_pending = None, check_posts = []\<rparr>"

text \<open>
  Any interleaving of flushes, timer checks and ends of uploads after \<^verbatim>\<open>Init\<close>. An exception leaves a
  flush for its caller; one that leaves a callback ends the program.
\<close>

inductive trk_step :: "track_env \<Rightarrow> tracker \<Rightarrow> tracker \<Rightarrow> bool" for env where
  flush: "FlushTracker env msg s = Ret r s' \<Longrightarrow> trk_step env s s'"
| flush_throws: "FlushTracker env msg s = Throw e s' \<Longrightarrow> trk_step env s s'"
| check: "check_upload_event env order s = Ret u s' \<Longrightarrow> trk_step env s s'"
| uploaded: "UploadFinished env success s = Ret u s' \<Longrightarrow> trk_step env s s'"

inductive trk_reachable :: "track_env \<Rightarrow> tracker \<Rightarrow> bool" for env where
  init: "Tracker_Init env group_size has_device listing (tracker_start files dir objs) = Ret u s \<Longrightarrow> trk_reachable env s"
| step: "trk_reachable env s \<Longrightarrow> trk_step env s s' \<Longrightarrow> trk_reachable env s'"


lemma Tracker_Init_inv:
  assumes "Tracker_Init env group_size has_device listing (tracker_start files dir objs) = Ret u s"
  shows "trk_inv s"
proof -
  let ?P = "\<lambda>s. trk_inv s \<and> trk_pending s = None"
  have upd: "trk_inv (s\<lparr>tracker_group_size := g\<rparr>) = trk_inv s" "trk_inv (s\<lparr>trk_inited := b\<rparr>) = trk_inv s" for s g b
    by (rule trk_inv_shape; simp add: shape_def)+
  have as: "io_keeps ?P (io_assert b msg)" for b msg
    by (cases b) (auto simp: io_spec_def io_assert_step)
  have "io_keeps ?P (Tracker_Init env group_size has_device listing)"
    unfolding Tracker_Init_def SyncLoadTrackersCache_def
    by (intro io_keeps_rules sync_load_inv as) (simp_all add: upd)
  moreover have "?P (tracker_start files dir objs)"
    by (simp add: trk_inv_def entries_def tracker_start_def)
  ultimately have "?P s" using assms by (rule io_specD(1))
  then show ?thesis ..
qed

lemma trk_reachable_inv: "trk_reachable env s \<Longrightarrow> trk_inv s"
proof (induction rule: trk_reachable.induct)
  case (init group_size has_device listing files dir objs u s)
  then show ?case by (rule Tracker_Init_inv)
next
  case (step s s')
  from step.hyps(2) show ?case
  proof cases
    case (flush msg r)
    then show ?thesis by (rule io_specD(1) [OF FlushTracker_inv step.IH])
  next
    case (flush_throws msg e)
    then show ?thesis by (rule io_specD(2) [OF FlushTracker_inv step.IH])
  next
    case (check order u)
    then show ?thesis by (rule io_specD(1) [OF check_upload_event_inv step.IH])
  next
    case (uploaded success u)
    then show ?thesis by (rule UploadFinished_inv [OF step.IH])
  qed
qed

end
