(* ===== verification/Sdk_Result.thy ===== *)
theory Sdk_Result
  imports Tap_Prelude
begin

text \<open>
  \<^verbatim>\<open>source/sdk/result.h\<close>: results, and the promise behind a \<^verbatim>\<open>Future\<close> (the type of the login call).
  A value is a shared pointer, so it may be null (None). The callbacks that run are recorded in a
  log, in order, with the result each was given; a callback is a number. Waiting on the condition
  variable is given by the states the promise is in when each wait returns, and whether that wait
  timed out.
\<close>

section \<open>Results\<close>

definition NO_ERR :: int where "NO_ERR = 0"
definition ERR_TIMEOUT :: int where "ERR_TIMEOUT = 1"

record sdk_error =
  err_code :: int
  err_msg :: string

record 'v result =
  res_value :: "'v option"
  res_error :: sdk_error

definition Result_empty :: "'v result" where
  "Result_empty = \<lparr>res_value = None, res_error = \<lparr>err_code = NO_ERR, err_msg = ''''\<rparr>\<rparr>"

definition Result_of_value :: "'v option \<Rightarrow> 'v result" where
  "Result_of_value v = \<lparr>res_value = v, res_error = \<lparr>err_code = NO_ERR, err_msg = ''''\<rparr>\<rparr>"

definition Result_of_error :: "sdk_error \<Rightarrow> 'v result" where
  "Result_of_error e = \<lparr>res_value = None, res_error = e\<rparr>"

definition GetValue :: "'v result \<Rightarrow> 'v option" where "GetValue r = res_value r"

definition GetError :: "'v result \<Rightarrow> sdk_error" where "GetError r = res_error r"

definition Success :: "'v result \<Rightarrow> bool" where
  "Success r \<longleftrightarrow> err_code (res_error r) \<noteq> NO_ERR"

section \<open>Futures\<close>

record 'v promise =
  retrieved :: bool
  the_result :: "'v result"
  cb :: "nat option"
  ran :: "(nat \<times> 'v result) list"

definition Future_new :: "'v promise" where
  "Future_new = \<lparr>retrieved = False, the_result = Result_of_error \<lparr>err_code = ERR_TIMEOUT, err_msg = ''''\<rparr>,
     cb = None, ran = []\<rparr>"

definition AWait :: "nat \<Rightarrow> 'v promise \<Rightarrow> 'v promise" where
  "AWait callback p =
     (if retrieved p then p\<lparr>ran := ran p @ [(callback, the_result p)]\<rparr> else p\<lparr>cb := Some callback\<rparr>)"

definition Future_Set :: "'v result \<Rightarrow> 'v promise \<Rightarrow> 'v promise" where
  "Future_Set res p =
     (if retrieved p then p
      else let p = p\<lparr>the_result := res, retrieved := True\<rparr>
           in case cb p of None \<Rightarrow> p | Some c \<Rightarrow> p\<lparr>ran := ran p @ [(c, the_result p)]\<rparr>)"

text \<open>\<^verbatim>\<open>Get()\<close>: wait until retrieved. The list holds the promise as found after each wait.\<close>

fun Future_Get :: "'v promise \<Rightarrow> 'v promise list \<Rightarrow> 'v result option" where
  "Future_Get p waits =
     (if retrieved p then Some (the_result p)
      else case waits of [] \<Rightarrow> None | q # qs \<Rightarrow> Future_Get q qs)"

text \<open>\<^verbatim>\<open>Get(timeout_ms)\<close>: its loop goes on while the result is missing \<^emph>\<open>or\<close> the last wait timed out.\<close>

fun Future_Get_timeout_loop :: "bool \<Rightarrow> 'v promise \<Rightarrow> ('v promise \<times> bool) list \<Rightarrow> 'v result option" where
  "Future_Get_timeout_loop timeout p waits =
     (if \<not> retrieved p \<or> timeout
      then case waits of [] \<Rightarrow> None | (q, t) # qs \<Rightarrow> Future_Get_timeout_loop t q qs
      else Some (the_result p))"

definition Future_Get_timeout :: "'v promise \<Rightarrow> ('v promise \<times> bool) list \<Rightarrow> 'v result option" where
  "Future_Get_timeout p waits = Future_Get_timeout_loop False p waits"

declare Future_Get.simps [simp del] Future_Get_timeout_loop.simps [simp del]

lemma timeout_loop_simps [simp]:
  "Future_Get_timeout_loop t p [] = (if retrieved p \<and> \<not> t then Some (the_result p) else None)"
  "Future_Get_timeout_loop t p ((q, u) # qs) =
     (if retrieved p \<and> \<not> t then Some (the_result p) else Future_Get_timeout_loop u q qs)"
  by (simp_all add: Future_Get_timeout_loop.simps [of t p])

lemma timeout_loop_returns:
  "Future_Get_timeout_loop t p waits = Some r \<Longrightarrow>
   \<not> t \<and> retrieved p \<and> r = the_result p \<or> (\<exists>q. (q, False) \<in> set waits \<and> retrieved q \<and> r = the_result q)"
proof (induction waits arbitrary: t p)
  case (Cons w ws)
  then show ?case by (cases w) (auto split: if_splits)
qed (auto split: if_splits)

lemma timeout_loop_stuck:
  "(\<forall>(q, t) \<in> set waits. t) \<Longrightarrow> t \<or> \<not> retrieved p \<Longrightarrow> Future_Get_timeout_loop t p waits = None"
  by (induction waits arbitrary: t p) auto

section \<open>A future under any sequence of calls\<close>

datatype 'v call = SetCall "'v result" | AWaitCall nat

fun do_call :: "'v promise \<Rightarrow> 'v call \<Rightarrow> 'v promise" where
  "do_call p (SetCall r) = Future_Set r p"
| "do_call p (AWaitCall c) = AWait c p"

text \<open>The callbacks handed to \<^verbatim>\<open>AWait\<close>, in order.\<close>

fun awaits :: "'v call list \<Rightarrow> nat list" where
  "awaits [] = []"
| "awaits (SetCall r # cs) = awaits cs"
| "awaits (AWaitCall c # cs) = c # awaits cs"

definition unset :: "'v call list \<Rightarrow> bool" where
  "unset cs \<longleftrightarrow> (\<forall>r. SetCall r \<notin> set cs)"

lemma awaits_append [simp]: "awaits (cs @ ds) = awaits cs @ awaits ds"
  by (induction cs rule: awaits.induct) simp_all

lemma Future_new_simps [simp]:
  "\<not> retrieved Future_new" "cb Future_new = None" "ran Future_new = []"
  by (simp_all add: Future_new_def)

lemma calls_before_set:
  "unset cs \<Longrightarrow> foldl do_call Future_new cs =
     Future_new\<lparr>cb := if awaits cs = [] then None else Some (last (awaits cs))\<rparr>"
proof (induction cs rule: rev_induct)
  case (snoc c cs)
  then show ?case by (cases c) (auto simp: unset_def AWait_def)
qed (simp add: Future_new_def)

lemma calls_after_set:
  "retrieved p \<Longrightarrow> foldl do_call p cs = p\<lparr>ran := ran p @ map (\<lambda>c. (c, the_result p)) (awaits cs)\<rparr>"
proof (induction cs arbitrary: p)
  case (Cons c cs)
  then show ?case by (cases c) (simp_all add: AWait_def Future_Set_def)
qed simp

section \<open>Properties\<close>

text \<open>
  C32: a future is written once. Split any sequence of \<^verbatim>\<open>Set\<close> and \<^verbatim>\<open>AWait\<close> calls at its first \<^verbatim>\<open>Set\<close>: before it
  nothing is retrieved and no callback has run; after it the promise holds that result whatever is
  set later, \<^verbatim>\<open>Get\<close> returns it at once, and exactly these callbacks have run, once for each call, each with that
  result: the last one registered before the \<^verbatim>\<open>Set\<close>, if any, and all that came after it, in order. An
  \<^verbatim>\<open>AWait\<close> before the \<^verbatim>\<open>Set\<close> replaces the callback registered before, which never runs.
\<close>

theorem future_set_once:
  assumes "unset pre"
  shows "\<not> retrieved (foldl do_call Future_new pre) \<and> ran (foldl do_call Future_new pre) = [] \<and>
     (let p = foldl do_call Future_new (pre @ SetCall r # post)
      in retrieved p \<and> the_result p = r \<and> Future_Get p [] = Some r \<and>
         ran p = map (\<lambda>c. (c, r)) ((if awaits pre = [] then [] else [last (awaits pre)]) @ awaits post))"
  by (simp add: calls_before_set [OF assms] calls_after_set Future_Set_def Future_Get.simps Let_def)

theorem future_set_once_witness:
  "ran (foldl do_call Future_new [AWaitCall 3, AWaitCall 4, SetCall (Result_of_value (Some ())), SetCall Result_empty, AWaitCall 5])
     = [(4, Result_of_value (Some ())), (5, Result_of_value (Some ()))]"
  using future_set_once [of "[AWaitCall 3, AWaitCall 4]" "Result_of_value (Some ())" "[SetCall Result_empty, AWaitCall 5]"]
  by (simp add: unset_def Let_def)

text \<open>
  A timed \<^verbatim>\<open>Get\<close> never reports a timeout. Whatever happens while it waits, it returns only once
  the promise is retrieved and some wait has ended by a notification; if every wait times out it
  waits for ever, even when the result has arrived in the meantime.
\<close>

theorem Get_timeout_never_times_out:
  "(Future_Get_timeout p waits = Some r \<longrightarrow>
      retrieved p \<and> r = the_result p \<or> (\<exists>q. (q, False) \<in> set waits \<and> retrieved q \<and> r = the_result q))
   \<and> (\<not> retrieved p \<longrightarrow> (\<forall>(q, t) \<in> set waits. t) \<longrightarrow> Future_Get_timeout p waits = None)"
  using timeout_loop_returns [of False p waits r] timeout_loop_stuck [of waits False p]
  by (auto simp: Future_Get_timeout_def)

theorem Get_timeout_never_times_out_witness:
  "Future_Get_timeout (Future_new :: unit promise)
     [(Future_Set (Result_of_value (Some ())) Future_new, True)] = None"
  using Get_timeout_never_times_out
    [of "Future_new :: unit promise" "[(Future_Set (Result_of_value (Some ())) Future_new, True)]"]
  by (simp add: Future_new_def)

end
