(* ===== verification/Login.thy ===== *)
theory Login
  imports Sdk_Result Http_Client Core_Timer "HOL-Library.Signed_Division"
begin

text \<open>
  \<^verbatim>\<open>source/login/tap_login.cpp\<close>, \<^verbatim>\<open>login_model.h\<close> and \<^verbatim>\<open>login_model.cpp\<close>: login by a QR code. The coroutine
  \<^verbatim>\<open>LoginAsync\<close> asks for a device code, shows it, and polls for the token until it gets one, the window is
  cancelled or the code expires. The HTTP client at each request is an argument (it is asked again at
  every poll), as are the clock readings and what the window's \<^verbatim>\<open>Cancelable\<close> says after each pause. The
  requests and the pauses are recorded. Signed 64-bit values are words, read by \<open>sint\<close>.
\<close>

section \<open>Answers\<close>

record AccessToken =
  kid :: string
  token :: string
  token_type :: string
  mac_key :: string
  mac_algorithm :: string
  scope :: u64

text \<open>The constructor sets \<^verbatim>\<open>kid\<close> only; \<^verbatim>\<open>scope\<close> keeps whatever the memory held.\<close>

definition InnerAccessToken :: "u64 \<Rightarrow> json \<Rightarrow> AccessToken may" where
  "InnerAccessToken garbage j =
     Some (Inr \<lparr>kid = '''', token = '''', token_type = '''', mac_key = '''', mac_algorithm = '''', scope = garbage\<rparr>)"

record QrCodeResponse =
  qrcode_url :: string
  verification_url :: string
  device_code :: string
  user_code :: string
  expires_in :: u64
  poll_interval :: u64

definition QrCodeResponse_of_json :: "json \<Rightarrow> QrCodeResponse may" where
  "QrCodeResponse_of_json j =
     may_bind (json_read json_to_string j ''qrcode_url'') (\<lambda>qr.
     may_bind (json_read json_to_string j ''verification_url'') (\<lambda>url.
     may_bind (json_read json_to_string j ''device_code'') (\<lambda>dcode.
     may_bind (json_read json_to_string j ''user_code'') (\<lambda>ucode.
     may_bind (json_read json_to_s64 j ''expires_in'') (\<lambda>ex.
     may_bind (json_read json_to_s64 j ''interval'') (\<lambda>iv.
       Some (Inr \<lparr>qrcode_url = qr, verification_url = url, device_code = dcode, user_code = ucode,
              expires_in = ex, poll_interval = iv\<rparr>)))))))"

section \<open>The login coroutine\<close>

definition Login_Init :: http_client where
  "Login_Init = CreateHttpClient ''accounts.tapapis.com'' True"

text \<open>\<^verbatim>\<open>OnlineTimestamp().count() / 1000\<close>: division rounds towards zero, the result is unsigned.\<close>

definition TimeSecNow :: "int \<Rightarrow> timer \<Rightarrow> u64" where
  "TimeSecNow local_now t = of_int (OnlineTimestamp local_now t sdiv 1000)"

definition login_forms :: "(json \<Rightarrow> string) \<Rightarrow> string \<Rightarrow> string \<Rightarrow> pairs" where
  "login_forms dump did gid =
     [(''client_id'', gid), (''response_type'', ''device_code''), (''version'', ''device_code''),
      (''platform'', ''ue''), (''device_id'', dump (JObject [(''device_id'', JString did)]))]"

datatype login_end = Done "net_error + AccessToken" | Waiting | Broken

record login_run =
  lr_end :: login_end
  lr_requests :: "(string \<times> pairs) list"
  lr_pauses :: "int list"
  lr_shown :: "string option"

type_synonym poll = "u64 \<times> (net_error + json) sender \<times> bool"

definition ended :: "login_end \<Rightarrow> login_run" where
  "ended e = \<lparr>lr_end = e, lr_requests = [], lr_pauses = [], lr_shown = None\<rparr>"

text \<open>
  The polling loop. The comparison of the elapsed time with \<^verbatim>\<open>expires_in\<close> is unsigned. A window that gave
  no \<^verbatim>\<open>Cancelable\<close> is dereferenced after the first pause (\<open>Broken\<close>).
\<close>

fun poll_loop :: "u64 \<Rightarrow> pairs \<Rightarrow> bool \<Rightarrow> u64 \<Rightarrow> u64 \<Rightarrow> u64 \<Rightarrow> poll list \<Rightarrow> login_run" where
  "poll_loop garbage forms has_cancelable start expires iv [] = ended Waiting"
| "poll_loop garbage forms has_cancelable start expires iv ((now, request, canceled) # polls) =
     (if now - start < expires then
        (case PostAsync_forms request (InnerAccessToken garbage) ''oauth2/v1/token'' [] [] forms of
           Some (Inr tok) \<Rightarrow> (ended (Done (Inr tok)))\<lparr>lr_requests := [(''oauth2/v1/token'', forms)]\<rparr>
         | Some (Inl _) \<Rightarrow>
             let r = (if \<not> has_cancelable then ended Broken
                      else if canceled then ended (Done (Inl (MakeError (- 1) (- 1) ''Canceled!'')))
                      else poll_loop garbage forms has_cancelable start expires iv polls)
             in r\<lparr>lr_requests := (''oauth2/v1/token'', forms) # lr_requests r, lr_pauses := sint iv # lr_pauses r\<rparr>
         | None \<Rightarrow> ended Broken)
      else ended (Done (Inl (MakeError (- 1) (- 1) ''Timeout!''))))"

record login_env =
  le_device :: "string option"
  le_game :: "string option"
  le_window :: "(string \<Rightarrow> bool) option"
  le_dump :: "json \<Rightarrow> string"
  le_garbage :: u64

definition LoginAsync :: "login_env \<Rightarrow> string list \<Rightarrow> (net_error + json) sender \<Rightarrow> u64 \<Rightarrow> poll list \<Rightarrow> login_run" where
  "LoginAsync env perm request start polls =
     (case le_device env of
        None \<Rightarrow> ended (Done (Inl (MakeError (- 1) (- 1) ''No Device Info!'')))
      | Some did \<Rightarrow>
     (case le_game env of
        None \<Rightarrow> ended (Done (Inl (MakeError (- 1) (- 1) ''No Game Info!'')))
      | Some gid \<Rightarrow>
          let forms = login_forms (le_dump env) did gid;
              r = (case PostAsync_forms request QrCodeResponse_of_json ''oauth2/v1/device/code'' [] [] forms of
                     None \<Rightarrow> ended Broken
                   | Some (Inl e) \<Rightarrow> ended (Done (Inl e))
                   | Some (Inr qr) \<Rightarrow>
                       (case le_window env of
                          None \<Rightarrow> ended (Done (Inl (MakeError (- 1) (- 1) ''No window!, is current background?'')))
                        | Some show_qr \<Rightarrow>
                            (poll_loop (le_garbage env) forms (show_qr (qrcode_url qr)) start (expires_in qr) (poll_interval qr) polls)
                              \<lparr>lr_shown := Some (qrcode_url qr)\<rparr>))
          in r\<lparr>lr_requests := (''oauth2/v1/device/code'', forms) # lr_requests r\<rparr>))"

text \<open>The continuation of \<^verbatim>\<open>Login\<close>, which writes the future the caller got.\<close>

definition login_result :: "net_error + AccessToken \<Rightarrow> AccessToken result" where
  "login_result r =
     (case r of
        Inr tok \<Rightarrow> Result_of_value (Some tok)
      | Inl e \<Rightarrow> Result_of_error \<lparr>err_code = ne_code e, err_msg = ne_msg e\<rparr>)"

definition Login :: "login_run \<Rightarrow> AccessToken promise \<Rightarrow> AccessToken promise" where
  "Login r future = (case lr_end r of Done res \<Rightarrow> Future_Set (login_result res) future | _ \<Rightarrow> future)"

section \<open>Polling\<close>

definition accepted :: "pairs \<Rightarrow> poll \<Rightarrow> bool" where
  "accepted forms p = (case p of (now, request, canceled) \<Rightarrow>
     (\<exists>j. request POST ''oauth2/v1/token'' [] [] (ToContent forms) FORM = Inr j))"

definition expired :: "u64 \<Rightarrow> u64 \<Rightarrow> poll \<Rightarrow> bool" where
  "expired start expires p = (expires \<le> fst p - start)"

definition stops :: "pairs \<Rightarrow> u64 \<Rightarrow> u64 \<Rightarrow> poll \<Rightarrow> bool" where
  "stops forms start expires p \<longleftrightarrow> expired start expires p \<or> accepted forms p \<or> snd (snd p)"

lemma token_request:
  "PostAsync_forms request (InnerAccessToken garbage) path [] [] forms =
     Some (map_sum id (\<lambda>_. \<lparr>kid = '''', token = '''', token_type = '''', mac_key = '''', mac_algorithm = '''', scope = garbage\<rparr>)
       (request POST path [] [] (ToContent forms) FORM))"
  by (cases "request POST path [] [] (ToContent forms) FORM")
    (simp_all add: PostAsync_forms_def MakeResult_def InnerAccessToken_def)

text \<open>What the loop gives at the poll that stops it.\<close>

definition stop_result :: "u64 \<Rightarrow> pairs \<Rightarrow> u64 \<Rightarrow> u64 \<Rightarrow> poll \<Rightarrow> net_error + AccessToken" where
  "stop_result garbage forms start expires p =
     (if expired start expires p then Inl (MakeError (- 1) (- 1) ''Timeout!'')
      else if accepted forms p then Inr \<lparr>kid = '''', token = '''', token_type = '''', mac_key = '''', mac_algorithm = '''', scope = garbage\<rparr>
      else Inl (MakeError (- 1) (- 1) ''Canceled!''))"

lemma poll_loop_stop:
  "stops forms start expires p \<Longrightarrow>
   lr_end (poll_loop garbage forms True start expires iv (p # polls)) = Done (stop_result garbage forms start expires p)"
  by (cases p; cases "(fst (snd p)) POST ''oauth2/v1/token'' [] [] (ToContent forms) FORM")
    (auto simp: stops_def stop_result_def expired_def accepted_def token_request ended_def Let_def not_less)

lemma poll_loop_go:
  assumes "\<not> stops forms start expires p"
  shows "lr_end (poll_loop garbage forms True start expires iv (p # polls)) = lr_end (poll_loop garbage forms True start expires iv polls)"
    and "lr_requests (poll_loop garbage forms True start expires iv (p # polls)) =
      (''oauth2/v1/token'', forms) # lr_requests (poll_loop garbage forms True start expires iv polls)"
    and "lr_pauses (poll_loop garbage forms True start expires iv (p # polls)) =
      sint iv # lr_pauses (poll_loop garbage forms True start expires iv polls)"
  using assms
  by (cases p; cases "(fst (snd p)) POST ''oauth2/v1/token'' [] [] (ToContent forms) FORM";
      simp add: stops_def expired_def accepted_def token_request Let_def not_le)+

lemma poll_loop_first_stop:
  "lr_end (poll_loop garbage forms True start expires iv polls) =
     (case dropWhile (\<lambda>p. \<not> stops forms start expires p) polls of
        [] \<Rightarrow> Waiting | p # _ \<Rightarrow> Done (stop_result garbage forms start expires p))"
proof (induction polls)
  case (Cons p polls)
  then show ?case by (cases "stops forms start expires p") (simp_all add: poll_loop_stop poll_loop_go del: poll_loop.simps)
qed (simp add: ended_def)

lemma sdiv_nonneg: "0 \<le> (a :: int) \<Longrightarrow> a sdiv 1000 = a div 1000"
  by (cases "a = 0") (simp_all add: signed_divide_int_def)

lemma unat_of_int: "0 \<le> (a :: int) \<Longrightarrow> a < 2 ^ 63 \<Longrightarrow> uint (of_int a :: u64) = a"
  by (simp add: unsigned_of_int take_bit_int_eq_self)

lemma expired_iff:
  "start \<le> fst p \<Longrightarrow> expired start expires p \<longleftrightarrow> unat start + unat expires \<le> unat (fst p)"
  by (auto simp: expired_def word_le_nat_alt unat_sub)

lemma poll_loop_expired:
  "expires \<le> now - start \<Longrightarrow>
   poll_loop garbage forms has_cancelable start expires iv ((now, request, canceled) # polls)
     = ended (Done (Inl (MakeError (- 1) (- 1) ''Timeout!'')))"
  by (simp add: not_less [symmetric])

lemma expired_set_back:
  assumes "0 \<le> sint expires" and "0 \<le> now" and "now < st" and "st < 2 ^ 63"
  shows "(expires :: u64) \<le> of_int now - of_int st"
proof -
  have eq: "(of_int now - of_int st :: u64) = of_int (now - st)" by simp
  have "uint (of_int now - of_int st :: u64) = (now - st) mod 2 ^ 64"
    unfolding eq by (simp only: unsigned_of_int take_bit_eq_mod) simp
  also have "\<dots> = (now - st + 2 ^ 64) mod 2 ^ 64" by simp
  also have "\<dots> = now - st + 2 ^ 64" using assms(2-4) by (intro mod_pos_pos_trivial) simp_all
  finally have u: "uint (of_int now - of_int st :: u64) = now - st + 2 ^ 64" .
  have "\<not> bit (uint expires) 63" using assms(1) by (simp add: sint_uint signed_take_bit_nonnegative_iff)
  then have "uint expires = take_bit 63 (uint expires)"
    using take_bit_Suc_from_most [of 63 "uint expires"] uint_lt2p [of expires]
      take_bit_int_eq_self [of "uint expires" 64] by simp
  then have "uint expires < 2 ^ 63" by (metis take_bit_int_less_exp)
  then show ?thesis unfolding word_le_def u using assms(2-4) by simp
qed

text \<open>The code was asked for and shown in a window that can be cancelled.\<close>

definition qr_shown :: "login_env \<Rightarrow> (net_error + json) sender \<Rightarrow> pairs \<Rightarrow> QrCodeResponse \<Rightarrow> bool" where
  "qr_shown env request forms qr \<longleftrightarrow>
     (case (le_device env, le_game env, le_window env) of
        (Some did, Some gid, Some show_qr) \<Rightarrow>
          forms = login_forms (le_dump env) did gid \<and> show_qr (qrcode_url qr) \<and>
          PostAsync_forms request QrCodeResponse_of_json ''oauth2/v1/device/code'' [] [] forms = Some (Inr qr)
      | _ \<Rightarrow> False)"

lemma LoginAsync_polls:
  assumes "qr_shown env request forms qr"
  shows "lr_end (LoginAsync env perm request start polls) =
     (case dropWhile (\<lambda>p. \<not> stops forms start (expires_in qr) p) polls of
        [] \<Rightarrow> Waiting | p # _ \<Rightarrow> Done (stop_result (le_garbage env) forms start (expires_in qr) p))"
  using assms by (auto simp: qr_shown_def LoginAsync_def Let_def poll_loop_first_stop split: option.splits)

lemma Login_retrieved: "lr_end r = Done res \<Longrightarrow> Login r Future_new = \<lparr>retrieved = True, the_result = login_result res, cb = None, ran = []\<rparr>"
  by (simp add: Login_def Future_Set_def Future_new_def Let_def)

section \<open>Properties\<close>

text \<open>
  C24: how a login ends. Once the QR code is shown, the future stays empty until the first poll that
  finds the code expired, gets an accepted answer or finds the window cancelled, in this order; it then
  holds the timeout, the token or the cancellation of that poll, and later polls change nothing. The
  token is the same empty one for every accepted answer.
\<close>

theorem login_outcome:
  assumes "qr_shown env request forms qr"
  shows "Future_Get (Login (LoginAsync env perm request start polls) Future_new) [] =
     (case dropWhile (\<lambda>p. \<not> stops forms start (expires_in qr) p) polls of
        [] \<Rightarrow> None
      | p # _ \<Rightarrow> Some (login_result (stop_result (le_garbage env) forms start (expires_in qr) p)))"
proof (cases "dropWhile (\<lambda>p. \<not> stops forms start (expires_in qr) p) polls")
  case Nil
  then have "lr_end (LoginAsync env perm request start polls) = Waiting"
    unfolding LoginAsync_polls [OF assms] Nil by simp
  then show ?thesis unfolding Nil by (simp add: Login_def Future_Get.simps Future_new_def)
next
  case (Cons p ps)
  then show ?thesis
    using Login_retrieved LoginAsync_polls [OF assms, of perm start polls] by (simp add: Future_Get.simps)
qed

definition demo_qr :: json where
  "demo_qr = JObject [(''qrcode_url'', JString ''q''), (''verification_url'', JString ''v''), (''device_code'', JString ''d''),
     (''user_code'', JString ''u''), (''expires_in'', JInt 60), (''interval'', JInt 5)]"

definition demo_login :: login_env where
  "demo_login = \<lparr>le_device = Some ''dev'', le_game = Some ''game'', le_window = Some (\<lambda>_. True), le_dump = (\<lambda>_. ''{}''), le_garbage = 7\<rparr>"

definition demo_server :: "(net_error + json) sender" where
  "demo_server = (\<lambda>_ path _ _ _ _. if path = ''oauth2/v1/device/code'' then Inr demo_qr else Inl (MakeError 400 0 ''pending''))"

lemma demo_qr_code:
  "QrCodeResponse_of_json demo_qr =
     Some (Inr \<lparr>qrcode_url = ''q'', verification_url = ''v'', device_code = ''d'', user_code = ''u'', expires_in = 60, poll_interval = 5\<rparr>)"
  by (simp add: QrCodeResponse_of_json_def demo_qr_def json_read_def json_const_at_def json_to_string_def json_to_s64_def)

lemma demo_shown:
  "qr_shown demo_login demo_server (login_forms (\<lambda>_. ''{}'') ''dev'' ''game'')
     \<lparr>qrcode_url = ''q'', verification_url = ''v'', device_code = ''d'', user_code = ''u'', expires_in = 60, poll_interval = 5\<rparr>"
  by (simp add: qr_shown_def demo_login_def PostAsync_forms_def MakeResult_def demo_server_def demo_qr_code)

theorem login_outcome_witness:
  "Future_Get (Login (LoginAsync demo_login [] demo_server 1000
       [(1000, demo_server, False), (1005, \<lambda>_ _ _ _ _ _. Inr JNull, False), (1010, demo_server, True)]) Future_new) []
   = Some (Result_of_value (Some \<lparr>kid = '''', token = '''', token_type = '''', mac_key = '''', mac_algorithm = '''', scope = 7\<rparr>))"
  by (subst login_outcome [OF demo_shown])
    (simp add: demo_login_def stops_def expired_def accepted_def demo_server_def stop_result_def login_result_def)

text \<open>
  C36: a login ends. When the clock does not go back behind the start and reads the expiry time or later
  at some poll, the future has been written.
\<close>

theorem login_ends:
  assumes "qr_shown env request forms qr"
    and "(now, server, canceled) \<in> set polls" and "start \<le> now" and "unat start + unat (expires_in qr) \<le> unat now"
  shows "retrieved (Login (LoginAsync env perm request start polls) Future_new)"
proof -
  have "stops forms start (expires_in qr) (now, server, canceled)"
    using expired_iff [of start "(now, server, canceled)"] assms(3,4) by (simp add: stops_def)
  then have "dropWhile (\<lambda>p. \<not> stops forms start (expires_in qr) p) polls \<noteq> []"
    using assms(2) by (auto simp: dropWhile_eq_Nil_conv)
  then obtain p ps where "dropWhile (\<lambda>p. \<not> stops forms start (expires_in qr) p) polls = p # ps"
    unfolding neq_Nil_conv by blast
  then show ?thesis
    using Login_retrieved LoginAsync_polls [OF assms(1), of perm start polls] by simp
qed

theorem login_ends_witness:
  "retrieved (Login (LoginAsync demo_login [] demo_server 1000 [(1000, demo_server, False), (1070, demo_server, False)]) Future_new)"
  by (rule login_ends [OF demo_shown, of 1070 demo_server False]) simp_all

text \<open>
  A clock set back ends a login. When the server's time arrives during a login and is a second or
  more behind the local clock the login started with, the next poll reports a timeout at once, whatever
  the expiry time: the elapsed time wraps around.
\<close>

theorem login_clock_set_back:
  assumes "\<not> online_time_set t" and "0 \<le> sint expires" and "0 \<le> server_ms + (local_now - set_at)"
    and "server_ms + (local_now - set_at) + 1000 \<le> local_start" and "local_start < 2 ^ 63"
  shows "lr_end (poll_loop garbage forms has_cancelable (TimeSecNow local_start t) expires iv
      ((TimeSecNow local_now (SetOnlineTime set_at server_ms t), request, canceled) # polls))
    = Done (Inl (MakeError (- 1) (- 1) ''Timeout!''))"
proof -
  let ?now = "server_ms + (local_now - set_at)"
  have "?now div 1000 < local_start div 1000" and "local_start div 1000 < 2 ^ 63"
    using assms(3-5) by (auto simp: div_less_dividend intro: order.strict_trans1 [OF zdiv_mono1])
  then have "expires \<le> of_int (?now div 1000) - of_int (local_start div 1000)"
    using assms(2,3) by (intro expired_set_back) simp_all
  moreover have "TimeSecNow local_start t = of_int (local_start div 1000)"
    "TimeSecNow local_now (SetOnlineTime set_at server_ms t) = of_int (?now div 1000)"
    using assms(1,3,4) sdiv_nonneg [of ?now] sdiv_nonneg [of local_start]
    by (simp_all add: TimeSecNow_def OnlineTimestamp_def SetOnlineTime_def algebra_simps)
  ultimately show ?thesis using poll_loop_expired by (simp add: ended_def)
qed

theorem login_clock_set_back_witness:
  "lr_end (poll_loop 0 [] True (TimeSecNow 1700000010000 \<lparr>msg_queue = [], event_fifo_id = 0, active_events = {}, alive_events = {},
       global_timer = 0, host_set = False, online_time_set = False, online_time = 0, time_ep_since_online = 0\<rparr>) 300 5
     [(TimeSecNow 1700000012000 (SetOnlineTime 1700000011000 1700000000000 \<lparr>msg_queue = [], event_fifo_id = 0, active_events = {},
       alive_events = {}, global_timer = 0, host_set = False, online_time_set = False, online_time = 0,
       time_ep_since_online = 0\<rparr>), demo_server, False)])
   = Done (Inl (MakeError (- 1) (- 1) ''Timeout!''))"
  by (rule login_clock_set_back) simp_all

end
