(* ===== verification/Sdk_Api.thy ===== *)
theory Sdk_Api
  imports Duration Tracker Login
begin

text \<open>
  The SDK as its callers see it: \<^verbatim>\<open>source/sdk/tapsdk.cpp\<close>, \<^verbatim>\<open>platform.cpp\<close>, \<^verbatim>\<open>core/runtime.cpp\<close> with the events of
  \<^verbatim>\<open>core/events.h\<close>, and the C interface of \<^verbatim>\<open>tapsdk_api.h\<close> and \<^verbatim>\<open>tapsdk_api.cpp\<close>. The static variables of these
  files are the record \<open>sdk\<close>. A C string is its text up to the terminator, or None for a null pointer;
  other pointers are options too. The user object keeps the caller's pointer, so a user is an address
  and the caller's memory is an argument. The objects behind message handles are numbered. The event bus
  calls its listeners on \<^verbatim>\<open>notifyNow\<close>; its only listener is the duration component, registered by
  \<^verbatim>\<open>InitEvents\<close>. An exception that leaves an \<^verbatim>\<open>extern "C"\<close> function is the outcome \<open>Throw\<close>.
\<close>

section \<open>The structs of the C interface\<close>

type_synonym cstr = "string option"

definition ToString :: "cstr \<Rightarrow> string" where
  "ToString str = (case str of Some s \<Rightarrow> s | None \<Rightarrow> '''')"

datatype tapsdk_result = TAPSDK_SUCCESS | TAPSDK_TIMEOUT | TAPSDK_NO_INIT | TAPSDK_ERROR | TAPSDK_INVALID_INPUT

definition TDS_DEV_TYPE_LOCAL :: int where "TDS_DEV_TYPE_LOCAL = 0"
definition TDS_DEV_TYPE_SANDBOX :: int where "TDS_DEV_TYPE_SANDBOX = 1"
definition TDS_DEV_TYPE_CLOUD :: int where "TDS_DEV_TYPE_CLOUD = 2"
definition TDS_REGION_CN :: int where "TDS_REGION_CN = 0"
definition TDS_REGION_GLOBAL :: int where "TDS_REGION_GLOBAL = 1"
definition TDS_REGION_RND :: int where "TDS_REGION_RND = 2"

record tapsdk_device_info =
  cd_device_version :: cstr
  cd_model :: cstr
  cd_platform :: cstr
  cd_engine :: cstr
  cd_os_version :: cstr
  cd_android_id :: cstr
  cd_ram_size :: cstr
  cd_rom_size :: cstr
  cd_network_type :: cstr
  cd_mobile_type :: cstr
  cd_cpu_info :: cstr

record tapsdk_device =
  cv_type :: int
  cv_device_id :: cstr
  cv_cache_dir :: cstr
  cv_info :: "tapsdk_device_info option"

record tapsdk_config =
  cc_login :: bool
  cc_duration :: bool
  cc_tracker :: bool
  cc_region :: int
  cc_process_name :: cstr
  cc_sdk_version :: cstr
  cc_group_size :: u32
  cc_device :: "tapsdk_device option"

record tapsdk_tracker_config =
  ct_topic :: cstr
  ct_endpoint :: cstr
  ct_access_keyid :: cstr
  ct_access_key_secret :: cstr
  ct_project :: cstr
  ct_log_store :: cstr
  ct_hash :: u64

record tapsdk_user =
  cu_contain_tap_info :: bool
  cu_user_id :: cstr

record tapsdk_game =
  cg_client_id :: cstr
  cg_identify :: cstr
  cg_app_version :: cstr

section \<open>The objects behind them\<close>

record api_device =
  ad_type :: int
  ad_device_id :: string
  ad_cache_dir :: string
  ad_info :: DeviceInfo

definition empty_DeviceInfo :: DeviceInfo where
  "empty_DeviceInfo = \<lparr>dev_version = '''', dev_model = '''', dev_platform = '''', dev_engine = '''', dev_os_version = '''',
     dev_android_id = '''', dev_ram_size = '''', dev_rom_size = '''', dev_network_type = '''', dev_mobile_type = '''', dev_cpu_info = ''''\<rparr>"

definition api_Device :: "tapsdk_device \<Rightarrow> api_device" where
  "api_Device config =
     \<lparr>ad_type = cv_type config, ad_device_id = ToString (cv_device_id config), ad_cache_dir = ToString (cv_cache_dir config),
      ad_info = (case cv_info config of
        None \<Rightarrow> empty_DeviceInfo
      | Some i \<Rightarrow> \<lparr>dev_version = ToString (cd_device_version i), dev_model = ToString (cd_model i),
          dev_platform = ToString (cd_platform i), dev_engine = ToString (cd_engine i), dev_os_version = ToString (cd_os_version i),
          dev_android_id = ToString (cd_android_id i), dev_ram_size = ToString (cd_ram_size i), dev_rom_size = ToString (cd_rom_size i),
          dev_network_type = ToString (cd_network_type i), dev_mobile_type = ToString (cd_mobile_type i),
          dev_cpu_info = ToString (cd_cpu_info i)\<rparr>)\<rparr>"

definition GetDeviceType :: "api_device \<Rightarrow> DeviceType throws" where
  "GetDeviceType d =
     (if ad_type d = TDS_DEV_TYPE_LOCAL then Inr Local
      else if ad_type d = TDS_DEV_TYPE_SANDBOX then Inr Sandbox
      else if ad_type d = TDS_DEV_TYPE_CLOUD then Inr Cloud
      else Inl (RuntimeError ''UnSupport Device!''))"

record api_game =
  ag_game_id :: string
  ag_package :: string
  ag_version :: string

definition api_Game :: "tapsdk_game \<Rightarrow> api_game" where
  "api_Game info = \<lparr>ag_game_id = ToString (cg_client_id info), ag_package = ToString (cg_identify info),
     ag_version = ToString (cg_app_version info)\<rparr>"

text \<open>\<^verbatim>\<open>api::User\<close> reads the caller's struct each time; None when it is gone.\<close>

type_synonym user_mem = "nat \<Rightarrow> tapsdk_user option"

definition GetUserId :: "user_mem \<Rightarrow> nat \<Rightarrow> string option" where
  "GetUserId mem p = map_option (\<lambda>u. ToString (cu_user_id u)) (mem p)"

definition ContainTapInfo :: "user_mem \<Rightarrow> nat \<Rightarrow> bool option" where
  "ContainTapInfo mem p = map_option cu_contain_tap_info (mem p)"

definition CreateConfig :: "tapsdk_tracker_config \<Rightarrow> (TrackerConfig \<times> tapsdk_tracker_config) option" where
  "CreateConfig config =
     map_option (\<lambda>(h, result). (result, config\<lparr>ct_hash := h\<rparr>))
       (Config_Hash \<lparr>topic = ToString (ct_topic config), endpoint = ToString (ct_endpoint config),
          access_keyid = ToString (ct_access_keyid config), access_key_secret = ToString (ct_access_key_secret config),
          project = ToString (ct_project config), log_store = ToString (ct_log_store config), cfg_hash = 0\<rparr>)"

section \<open>State\<close>

record Config =
  enable_duration_statistics :: bool
  enable_tap_login :: bool
  enable_tap_tracker :: bool
  process_name :: string
  cfg_region :: Region
  cfg_sdk_version :: string
  cfg_group_size :: u32

record ('e, 's, 'c) sdk =
  sdk_inited :: bool
  inited :: bool
  sdk_config :: Config
  current_device :: "api_device option"
  current_game :: "api_game option"
  current_user :: "nat option"
  event_bus :: bool
  timer_started :: bool
  duration_statistics :: "('e, 's, 'c) dur option"
  login_client :: "http_client option"
  sdk_tracker :: tracker
  tracker_configs :: "u64 \<rightharpoonup> TrackerConfig option"
  api_msgs :: "nat \<rightharpoonup> track_msg"
  api_next :: nat

type_synonym ('a, 'e, 's, 'c) sdk_io = "('a, ('e, 's, 'c) sdk) io"

text \<open>
  The surroundings of one call: the tables (opening the database may throw), the environment of the
  tracker and its directory listing, the clock readings, and the next identifier.
\<close>

record ('e, 's, 'c) sdk_env =
  se_ops :: "('e, 's, 'c) dur_ops"
  se_open :: "string \<Rightarrow> ('e \<times> 's \<times> 'c) throws"
  se_track :: track_env
  se_listing :: "(string \<times> bool) list option"
  se_now :: u64
  se_time :: u32
  se_uuid :: string

definition on_tracker :: "'a trk_io \<Rightarrow> ('a, 'e, 's, 'c) sdk_io" where
  "on_tracker m s =
     (case m (sdk_tracker s) of
        Ret a t \<Rightarrow> Ret a (s\<lparr>sdk_tracker := t\<rparr>)
      | Throw e t \<Rightarrow> Throw e (s\<lparr>sdk_tracker := t\<rparr>)
      | Undef \<Rightarrow> Undef)"

section \<open>Start\<close>

definition new_session :: GameSession where
  "new_session = \<lparr>gs_id = 0, gs_tap_user = False, gs_session = '''', gs_user_id = '''', gs_game_id = '''', gs_game_pkg = '''',
     gs_game_start = 0, gs_last_beats = 0, gs_last_timestamp = 0\<rparr>"

text \<open>A new \<^verbatim>\<open>DurationStatistics\<close> with the initial values of its members.\<close>

definition new_dur :: "'e \<times> 's \<times> 'c \<Rightarrow> ('e, 's, 'c) dur" where
  "new_dur dbs =
     \<lparr>running = False, foreground = True, local_session = new_session, device_info = None, sdk_version = '''',
      report_config = ReportConfig_default,
      online_heat_beat_interval = uint (rc_tap_frequency ReportConfig_default * 1000),
      online_heat_beat_interval_no_tap = uint (rc_no_tap_frequency ReportConfig_default * 1000),
      online_tick_interval = uint (rc_no_tap_frequency ReportConfig_default * 1000),
      ev_db = fst dbs, gs_db = fst (snd dbs), rc_db = snd (snd dbs), report_queue = bq_new (2 ^ 32 - 1),
      report_thread = False, tap_user = False, dev_type = Local, device_id = '''', user_id = '''', game_id = '''',
      game_pkg = '''', game_session = '''', posted = [], online_set = None\<rparr>"

text \<open>
  \<^verbatim>\<open>duration_statistics->Init\<close>. An object whose \<^verbatim>\<open>Init\<close> threw has no listeners and is never used; it is None.
\<close>

definition start_duration :: "('e, 's, 'c) sdk_env \<Rightarrow> api_device \<Rightarrow> Config \<Rightarrow> (unit, 'e, 's, 'c) sdk_io" where
  "start_duration env dev config s =
     (case throws_bind (GetDeviceType dev) (\<lambda>dtype.
           throws_bind (se_open env (ad_cache_dir dev)) (\<lambda>dbs.
             Init_dur (se_ops env) (Some (ad_device_id dev, dtype, Some (ad_info dev))) (cfg_sdk_version config)
               (se_uuid env) (se_now env) (new_dur dbs))) of
        Inl e \<Rightarrow> Throw e s
      | Inr d \<Rightarrow> Ret () (s\<lparr>duration_statistics := Some d\<rparr>))"

definition Runtime_Init :: "('e, 's, 'c) sdk \<Rightarrow> ('e, 's, 'c) sdk" where
  "Runtime_Init s = s\<lparr>timer_started := True, event_bus := True\<rparr>"

text \<open>The modules the configuration enables, in order.\<close>

definition Init_modules :: "('e, 's, 'c) sdk_env \<Rightarrow> api_device \<Rightarrow> Config \<Rightarrow> (bool, 'e, 's, 'c) sdk_io" where
  "Init_modules env dev config =
     io_seq (if enable_duration_statistics config then start_duration env dev config else io_ret ())
    (io_seq (if enable_tap_login config then io_upd (\<lambda>s. s\<lparr>login_client := Some Login_Init\<rparr>) else io_ret ())
    (io_seq (if enable_tap_tracker config
             then on_tracker (Tracker_Init (se_track env) (cfg_group_size config) True (se_listing env)) else io_ret ())
            (io_ret True)))"

definition Init :: "('e, 's, 'c) sdk_env \<Rightarrow> Config \<Rightarrow> (bool, 'e, 's, 'c) sdk_io" where
  "Init env config =
     io_seq (io_upd (\<lambda>s. s\<lparr>sdk_config := config\<rparr>))
    (io_catch
       (io_bind (io_get inited) (\<lambda>again.
        io_seq (io_assert (\<not> again) ''SDK already inited!'')
       (io_seq (io_upd (\<lambda>s. Runtime_Init (s\<lparr>inited := True\<rparr>)))
       (io_bind (io_get current_device) (\<lambda>device.
        case device of
          None \<Rightarrow> io_ret False
        | Some dev \<Rightarrow>
            Init_modules env dev config)))))
       (io_ret False))"

section \<open>Events\<close>

datatype sdk_event = UserEvent "(string \<times> bool) option" | ForegroundEvent | BackgroundEvent | GameStartEvent "api_game option"

text \<open>The listeners of \<^verbatim>\<open>InitEvents\<close>.\<close>

definition listeners :: "('e, 's, 'c) sdk_env \<Rightarrow> sdk_event \<Rightarrow> ('e, 's, 'c) dur \<Rightarrow> ('e, 's, 'c) dur throws" where
  "listeners env ev d =
     (case ev of
        UserEvent user \<Rightarrow> Inr (OnNewUser (se_ops env) (se_now env) user d)
      | ForegroundEvent \<Rightarrow> OnForeground (se_ops env) (se_now env) d
      | BackgroundEvent \<Rightarrow> OnBackground (se_ops env) (se_now env) d
      | GameStartEvent None \<Rightarrow> Inr d
      | GameStartEvent (Some game) \<Rightarrow> Inr (GameStart (se_ops env) (se_now env) (ag_game_id game) (ag_package game) d))"

text \<open>\<^verbatim>\<open>GetEventBus()->notifyNow(ev)\<close>: the bus is a null pointer before \<^verbatim>\<open>Runtime::Init\<close>.\<close>

definition notifyNow :: "('e, 's, 'c) sdk_env \<Rightarrow> sdk_event \<Rightarrow> (unit, 'e, 's, 'c) sdk_io" where
  "notifyNow env ev s =
     (if \<not> event_bus s then Undef
      else case duration_statistics s of
             None \<Rightarrow> Ret () s
           | Some d \<Rightarrow> (case listeners env ev d of
               Inl e \<Rightarrow> Throw e s
             | Inr d' \<Rightarrow> Ret () (s\<lparr>duration_statistics := Some d'\<rparr>)))"

definition Game_SetCurrent :: "('e, 's, 'c) sdk_env \<Rightarrow> api_game option \<Rightarrow> (unit, 'e, 's, 'c) sdk_io" where
  "Game_SetCurrent env game = io_seq (io_upd (\<lambda>s. s\<lparr>current_game := game\<rparr>)) (notifyNow env (GameStartEvent game))"

text \<open>The handler of the user event reads the user through its pointer.\<close>

definition read_user :: "user_mem \<Rightarrow> nat option \<Rightarrow> (string \<times> bool) option option" where
  "read_user mem user =
     (case user of
        None \<Rightarrow> Some None
      | Some p \<Rightarrow> (case (GetUserId mem p, ContainTapInfo mem p) of (Some uid, Some tap) \<Rightarrow> Some (Some (uid, tap)) | _ \<Rightarrow> None))"

definition User_SetCurrent :: "('e, 's, 'c) sdk_env \<Rightarrow> user_mem \<Rightarrow> nat option \<Rightarrow> (unit, 'e, 's, 'c) sdk_io" where
  "User_SetCurrent env mem user =
     io_seq (io_upd (\<lambda>s. s\<lparr>current_user := user\<rparr>))
       (case read_user mem user of
          None \<Rightarrow> (\<lambda>s. if event_bus s \<and> duration_statistics s = None then Ret () s else Undef)
        | Some u \<Rightarrow> notifyNow env (UserEvent u))"

definition Window_OnForeground :: "('e, 's, 'c) sdk_env \<Rightarrow> (unit, 'e, 's, 'c) sdk_io" where
  "Window_OnForeground env = notifyNow env ForegroundEvent"

definition Window_OnBackground :: "('e, 's, 'c) sdk_env \<Rightarrow> (unit, 'e, 's, 'c) sdk_io" where
  "Window_OnBackground env = notifyNow env BackgroundEvent"

definition Device_SetCurrent :: "api_device option \<Rightarrow> (unit, 'e, 's, 'c) sdk_io" where
  "Device_SetCurrent dev = io_upd (\<lambda>s. s\<lparr>current_device := dev\<rparr>)"

section \<open>The C interface\<close>

text \<open>\<^verbatim>\<open>R_UNLESS(expr, res)\<close>: return early.\<close>

definition R_UNLESS :: "bool \<Rightarrow> tapsdk_result \<Rightarrow> (tapsdk_result, 'e, 's, 'c) sdk_io \<Rightarrow> (tapsdk_result, 'e, 's, 'c) sdk_io" where
  "R_UNLESS cond res m = (if cond then m else io_ret res)"

definition Region_of_int :: "int \<Rightarrow> Region" where
  "Region_of_int r = (if r = TDS_REGION_CN then CN else if r = TDS_REGION_GLOBAL then Global else RND)"

definition Config_of_api :: "tapsdk_config \<Rightarrow> Config" where
  "Config_of_api config =
     \<lparr>enable_duration_statistics = cc_duration config, enable_tap_login = cc_login config, enable_tap_tracker = cc_tracker config,
      process_name = ToString (cc_process_name config), cfg_region = Region_of_int (cc_region config),
      cfg_sdk_version = ToString (cc_sdk_version config), cfg_group_size = cc_group_size config\<rparr>"

definition tapsdk_init :: "('e, 's, 'c) sdk_env \<Rightarrow> tapsdk_config option \<Rightarrow> (tapsdk_result, 'e, 's, 'c) sdk_io" where
  "tapsdk_init env config =
     (case config of
        None \<Rightarrow> io_ret TAPSDK_INVALID_INPUT
      | Some config \<Rightarrow> (case cc_device config of
          None \<Rightarrow> io_ret TAPSDK_INVALID_INPUT
        | Some device \<Rightarrow>
            R_UNLESS (cc_region config \<ge> TDS_REGION_CN \<and> cc_region config \<le> TDS_REGION_RND) TAPSDK_INVALID_INPUT
           (R_UNLESS (cv_type device \<ge> TDS_DEV_TYPE_LOCAL \<and> cv_type device \<le> TDS_DEV_TYPE_CLOUD) TAPSDK_INVALID_INPUT
           (io_seq (Device_SetCurrent (Some (api_Device device)))
           (io_bind (Init env (Config_of_api config)) (\<lambda>ok.
              if ok then io_seq (io_upd (\<lambda>s. s\<lparr>sdk_inited := True\<rparr>)) (io_ret TAPSDK_SUCCESS)
              else io_ret TAPSDK_ERROR))))))"

text \<open>The guard every other function starts with.\<close>

definition when_inited :: "(tapsdk_result, 'e, 's, 'c) sdk_io \<Rightarrow> (tapsdk_result, 'e, 's, 'c) sdk_io" where
  "when_inited m = io_bind (io_get sdk_inited) (\<lambda>ok. R_UNLESS ok TAPSDK_NO_INIT m)"

definition tapsdk_game_set :: "('e, 's, 'c) sdk_env \<Rightarrow> tapsdk_game option \<Rightarrow> (tapsdk_result, 'e, 's, 'c) sdk_io" where
  "tapsdk_game_set env game =
     when_inited
       (case game of
          Some g \<Rightarrow>
            R_UNLESS (cg_client_id g \<noteq> None) TAPSDK_INVALID_INPUT
           (R_UNLESS (cg_identify g \<noteq> None) TAPSDK_INVALID_INPUT
           (io_seq (Game_SetCurrent env (Some (api_Game g))) (io_ret TAPSDK_SUCCESS)))
        | None \<Rightarrow> io_seq (Game_SetCurrent env None) (io_ret TAPSDK_SUCCESS))"

definition tapsdk_user_set :: "('e, 's, 'c) sdk_env \<Rightarrow> user_mem \<Rightarrow> nat option \<Rightarrow> (tapsdk_result, 'e, 's, 'c) sdk_io" where
  "tapsdk_user_set env mem user =
     when_inited
       (case user of
          Some p \<Rightarrow> (case mem p of
              None \<Rightarrow> io_undef
            | Some u \<Rightarrow> R_UNLESS (cu_user_id u \<noteq> None) TAPSDK_NO_INIT
                (io_seq (User_SetCurrent env mem (Some p)) (io_ret TAPSDK_SUCCESS)))
        | None \<Rightarrow> io_seq (User_SetCurrent env mem None) (io_ret TAPSDK_SUCCESS))"

definition tapsdk_window_on_foreground :: "('e, 's, 'c) sdk_env \<Rightarrow> (tapsdk_result, 'e, 's, 'c) sdk_io" where
  "tapsdk_window_on_foreground env = when_inited (io_seq (Window_OnForeground env) (io_ret TAPSDK_SUCCESS))"

definition tapsdk_window_on_background :: "('e, 's, 'c) sdk_env \<Rightarrow> (tapsdk_result, 'e, 's, 'c) sdk_io" where
  "tapsdk_window_on_background env = when_inited (io_seq (Window_OnBackground env) (io_ret TAPSDK_SUCCESS))"

text \<open>
  The configuration of a new message: \<^verbatim>\<open>tracker_configs[hash]\<close> inserts a null pointer for an unknown hash, and a
  configuration made then is not stored. None is a read out of bounds in \<^verbatim>\<open>CityHash64\<close>.
\<close>

definition pick_config ::
    "tapsdk_tracker_config \<Rightarrow> (u64 \<rightharpoonup> TrackerConfig option)
     \<Rightarrow> (TrackerConfig \<times> tapsdk_tracker_config \<times> (u64 \<rightharpoonup> TrackerConfig option)) option" where
  "pick_config config configs =
     (if ct_hash config = 0 then
        map_option (\<lambda>(cfg, config). (cfg, config, configs(cfg_hash cfg \<mapsto> Some cfg))) (CreateConfig config)
      else
        let configs = (if configs (ct_hash config) = None then configs(ct_hash config \<mapsto> None) else configs)
        in case configs (ct_hash config) of
             Some (Some cfg) \<Rightarrow> Some (cfg, config, configs)
           | _ \<Rightarrow> map_option (\<lambda>(cfg, config). (cfg, config, configs)) (CreateConfig config))"

text \<open>What \<^verbatim>\<open>FillCommons\<close> asks of the SDK; the device is dereferenced.\<close>

definition commons_of :: "('e, 's, 'c) sdk_env \<Rightarrow> ('e, 's, 'c) sdk \<Rightarrow> track_commons option" where
  "commons_of env s =
     map_option (\<lambda>dev. \<lparr>tc_sdk_version = cfg_sdk_version (sdk_config s), tc_device_id = ad_device_id dev, tc_uuid = se_uuid env,
         tc_device = Some (ad_info dev), tc_game = map_option (\<lambda>g. (ag_package g, ag_version g)) (current_game s)\<rparr>)
       (current_device s)"

text \<open>The new message of \<^verbatim>\<open>CreateTracker\<close>, or None.\<close>

definition create_message :: "('e, 's, 'c) sdk_env \<Rightarrow> TrackerConfig \<Rightarrow> (track_msg option, 'e, 's, 'c) sdk_io" where
  "create_message env cfg s =
     (if \<not> trk_inited (sdk_tracker s) then Ret None s
      else case commons_of env s of
             None \<Rightarrow> Undef
           | Some tc \<Rightarrow> io_throws (CreateTracker tc (se_time env) (Some cfg) (sdk_tracker s)) s)"

text \<open>
  The result, the caller's struct (whose hash is filled in) and the handle. A message object that got no
  message is leaked.
\<close>

type_synonym create_result = "tapsdk_result \<times> tapsdk_tracker_config option \<times> nat option"

definition tapsdk_tracker_create ::
    "('e, 's, 'c) sdk_env \<Rightarrow> tapsdk_tracker_config option \<Rightarrow> bool \<Rightarrow> (create_result, 'e, 's, 'c) sdk_io" where
  "tapsdk_tracker_create env config has_message s =
     (if \<not> sdk_inited s then Ret (TAPSDK_NO_INIT, config, None) s
      else case config of
        None \<Rightarrow> Ret (TAPSDK_INVALID_INPUT, config, None) s
      | Some c \<Rightarrow>
          if \<not> has_message then Ret (TAPSDK_INVALID_INPUT, config, None) s
          else case pick_config c (tracker_configs s) of
            None \<Rightarrow> Undef
          | Some (cfg, c', configs) \<Rightarrow>
              io_bind (create_message env cfg) (\<lambda>msg.
                case msg of
                  Some m \<Rightarrow>
                    io_bind (io_get api_next) (\<lambda>k.
                    io_seq (io_upd (\<lambda>s. s\<lparr>api_msgs := (api_msgs s)(k \<mapsto> m), api_next := Suc k\<rparr>))
                           (io_ret (TAPSDK_SUCCESS, Some c', Some k)))
                | None \<Rightarrow> io_ret (TAPSDK_ERROR, Some c', None)) (s\<lparr>tracker_configs := configs\<rparr>))"

text \<open>The object behind a handle; a handle that was freed is a dangling pointer.\<close>

definition on_message :: "nat \<Rightarrow> (track_msg \<Rightarrow> (tapsdk_result, 'e, 's, 'c) sdk_io) \<Rightarrow> (tapsdk_result, 'e, 's, 'c) sdk_io" where
  "on_message k f s = (case api_msgs s k of None \<Rightarrow> Undef | Some msg \<Rightarrow> f msg s)"

definition add_to_message ::
    "(string \<Rightarrow> string \<Rightarrow> track_msg \<Rightarrow> track_msg throws) \<Rightarrow> nat option \<Rightarrow> cstr \<Rightarrow> cstr \<Rightarrow> (tapsdk_result, 'e, 's, 'c) sdk_io" where
  "add_to_message add message key value =
     when_inited
       (case (message, key, value) of
          (Some k, Some key, Some value) \<Rightarrow>
            on_message k (\<lambda>msg.
              io_bind (io_throws (add key value msg)) (\<lambda>msg.
              io_seq (io_upd (\<lambda>s. s\<lparr>api_msgs := (api_msgs s)(k \<mapsto> msg)\<rparr>)) (io_ret TAPSDK_SUCCESS)))
        | _ \<Rightarrow> io_ret TAPSDK_INVALID_INPUT)"

definition tapsdk_tracker_msg_add_param :: "nat option \<Rightarrow> cstr \<Rightarrow> cstr \<Rightarrow> (tapsdk_result, 'e, 's, 'c) sdk_io" where
  "tapsdk_tracker_msg_add_param message key value = add_to_message AddParam message key value"

definition tapsdk_tracker_msg_add_content :: "nat option \<Rightarrow> cstr \<Rightarrow> cstr \<Rightarrow> (tapsdk_result, 'e, 's, 'c) sdk_io" where
  "tapsdk_tracker_msg_add_content message key value = add_to_message AddContent message key value"

text \<open>\<^verbatim>\<open>FlushTracker\<close> marks the message before anything can throw.\<close>

definition flush_message :: "('e, 's, 'c) sdk_env \<Rightarrow> nat \<Rightarrow> track_msg \<Rightarrow> (bool, 'e, 's, 'c) sdk_io" where
  "flush_message env k msg s =
     (case on_tracker (FlushTracker (se_track env) (Some msg)) s of
        Ret (result, msg') s' \<Rightarrow> Ret result (s'\<lparr>api_msgs := (api_msgs s')(k := msg')\<rparr>)
      | Throw e s' \<Rightarrow> Throw e (s'\<lparr>api_msgs := (api_msgs s')(k \<mapsto> Flushed msg)\<rparr>)
      | Undef \<Rightarrow> Undef)"

definition tapsdk_tracker_flush :: "('e, 's, 'c) sdk_env \<Rightarrow> nat option \<Rightarrow> (tapsdk_result, 'e, 's, 'c) sdk_io" where
  "tapsdk_tracker_flush env message =
     when_inited
       (case message of
          None \<Rightarrow> io_ret TAPSDK_INVALID_INPUT
        | Some k \<Rightarrow>
            on_message k (\<lambda>msg.
              io_bind (flush_message env k msg) (\<lambda>result.
              if result then io_seq (io_upd (\<lambda>s. s\<lparr>api_msgs := (api_msgs s)(k := None)\<rparr>)) (io_ret TAPSDK_SUCCESS)
              else io_ret TAPSDK_ERROR)))"

section \<open>Any sequence of calls\<close>

datatype api_call =
    ApiInit "tapsdk_config option"
  | ApiGame "tapsdk_game option"
  | ApiUser "nat option"
  | ApiForeground
  | ApiBackground
  | ApiCreate "tapsdk_tracker_config option" bool
  | ApiParam "nat option" cstr cstr
  | ApiContent "nat option" cstr cstr
  | ApiFlush "nat option"

fun do_api :: "('e, 's, 'c) sdk_env \<Rightarrow> user_mem \<Rightarrow> api_call \<Rightarrow> (tapsdk_result, 'e, 's, 'c) sdk_io" where
  "do_api env mem (ApiInit config) = tapsdk_init env config"
| "do_api env mem (ApiGame game) = tapsdk_game_set env game"
| "do_api env mem (ApiUser user) = tapsdk_user_set env mem user"
| "do_api env mem ApiForeground = tapsdk_window_on_foreground env"
| "do_api env mem ApiBackground = tapsdk_window_on_background env"
| "do_api env mem (ApiCreate config has_message) =
     io_bind (tapsdk_tracker_create env config has_message) (\<lambda>(r, _, _). io_ret r)"
| "do_api env mem (ApiParam message key value) = tapsdk_tracker_msg_add_param message key value"
| "do_api env mem (ApiContent message key value) = tapsdk_tracker_msg_add_content message key value"
| "do_api env mem (ApiFlush message) = tapsdk_tracker_flush env message"

section \<open>Well-formed states\<close>

text \<open>
  What the static variables always satisfy: an initialised SDK has its runtime and a device; a stored
  configuration is stored under its hash; handles are below the counter and their messages have a
  configuration.
\<close>

definition configs_ok :: "(u64 \<rightharpoonup> TrackerConfig option) \<Rightarrow> bool" where
  "configs_ok configs \<longleftrightarrow> (\<forall>h c. configs h = Some (Some c) \<longrightarrow> cfg_hash c = h \<and> Config_Hash c = Some (h, c))"

text \<open>A message has a configuration, and the configuration its hash.\<close>

definition msg_hashed :: "track_msg \<Rightarrow> bool" where
  "msg_hashed m \<longleftrightarrow> (\<exists>c. tm_config m = Some c \<and> Config_Hash c = Some (cfg_hash c, c))"

definition msgs_ok :: "(nat \<rightharpoonup> track_msg) \<Rightarrow> nat \<Rightarrow> bool" where
  "msgs_ok msgs n \<longleftrightarrow> (\<forall>k m. msgs k = Some m \<longrightarrow> k < n \<and> msg_hashed m)"

definition sdk_wf :: "('e, 's, 'c) sdk \<Rightarrow> bool" where
  "sdk_wf s \<longleftrightarrow>
     (inited s \<longrightarrow> event_bus s \<and> timer_started s) \<and> (sdk_inited s \<longrightarrow> inited s \<and> current_device s \<noteq> None) \<and>
     configs_ok (tracker_configs s) \<and> msgs_ok (api_msgs s) (api_next s)"

abbreviation keeps_wf :: "('a, ('e, 's, 'c) sdk) io \<Rightarrow> bool" where
  "keeps_wf m \<equiv> io_spec sdk_wf m (\<lambda>_. sdk_wf) sdk_wf"

lemma on_tracker_wf: "keeps_wf (on_tracker m)"
  by (auto simp: io_spec_def on_tracker_def sdk_wf_def split: outcome.split)

lemma notifyNow_wf: "keeps_wf (notifyNow env ev)"
  by (auto simp: io_spec_def notifyNow_def sdk_wf_def split: option.split sum.split)

lemma keeps_wf_upd: "(\<And>s. sdk_wf s \<Longrightarrow> sdk_wf (f s)) \<Longrightarrow> keeps_wf (io_upd f)"
  by (rule io_spec_upd)

lemma keeps_wf_ret: "keeps_wf (io_ret a)"
  by (rule io_spec_ret)

lemma keeps_wf_when_inited: "keeps_wf m \<Longrightarrow> keeps_wf (when_inited m)"
  by (auto simp: io_spec_def when_inited_def R_UNLESS_def io_bind_def io_prim split: outcome.split)

lemma keeps_wf_unless: "keeps_wf m \<Longrightarrow> keeps_wf (R_UNLESS c r m)"
  by (simp add: R_UNLESS_def keeps_wf_ret)

lemma keeps_wf_undef: "keeps_wf io_undef"
  by (simp add: io_spec_def io_prim)

lemmas wf_rules = io_spec_seq io_spec_bind on_tracker_wf notifyNow_wf keeps_wf_upd keeps_wf_ret keeps_wf_when_inited
  keeps_wf_unless keeps_wf_undef

lemma game_set_wf: "keeps_wf (tapsdk_game_set env game)"
  unfolding tapsdk_game_set_def Game_SetCurrent_def
  by (cases game) (auto intro!: wf_rules simp: sdk_wf_def)

lemma user_set_wf: "keeps_wf (tapsdk_user_set env mem user)"
proof -
  have gone: "keeps_wf (\<lambda>s. if event_bus s \<and> duration_statistics s = None then Ret () s else Undef)"
    by (auto simp: io_spec_def)
  have u: "keeps_wf (User_SetCurrent env mem user')" for user'
    unfolding User_SetCurrent_def
    by (cases "read_user mem user'") (auto intro!: wf_rules gone simp: sdk_wf_def)
  show ?thesis
    unfolding tapsdk_user_set_def
    by (cases user) (auto intro!: wf_rules u split: option.split)
qed

lemma window_wf: "keeps_wf (tapsdk_window_on_foreground env)" "keeps_wf (tapsdk_window_on_background env)"
  unfolding tapsdk_window_on_foreground_def tapsdk_window_on_background_def Window_OnForeground_def Window_OnBackground_def
  by (auto intro!: wf_rules)

lemma AddParam_config: "AddParam k v m = Inr m' \<Longrightarrow> tm_config m' = tm_config m"
  "AddContent k v m = Inr m' \<Longrightarrow> tm_config m' = tm_config m"
  by (auto simp: AddParam_def AddContent_def throws_simps)

lemma add_params_config: "add_params ps m = Inr m' \<Longrightarrow> tm_config m' = tm_config m"
proof (induction ps m arbitrary: m' rule: add_params.induct)
  case (2 k v ps m)
  then show ?case using AddParam_config(1) by (fastforce simp: throws_simps)
qed simp

lemma FillCommons_config: "FillCommons tc m = Inr m' \<Longrightarrow> tm_config m' = tm_config m"
  unfolding FillCommons_def throws_simps
  by (auto dest!: add_params_config simp del: add_params.simps split: option.splits prod.splits)

lemma CreateTracker_config: "CreateTracker tc now config t = Inr (Some m) \<Longrightarrow> tm_config m = config \<and> config \<noteq> None"
proof -
  have inj: "map_sum id Some x = Inr (Some m) \<longleftrightarrow> x = Inr m" for x :: "track_msg throws"
    by (cases x) simp_all
  show "CreateTracker tc now config t = Inr (Some m) \<Longrightarrow> tm_config m = config \<and> config \<noteq> None"
    by (auto simp: CreateTracker_def inj new_TrackMessageImpl_def dest!: FillCommons_config split: if_splits)
qed

lemma CreateConfig_hash: "CreateConfig c = Some (cfg, c') \<Longrightarrow> c' = c\<lparr>ct_hash := cfg_hash cfg\<rparr>"
  by (auto simp: CreateConfig_def Config_Hash_def bind_eq_Some_conv)

lemma CreateConfig_hashed:
  assumes "CreateConfig c = Some (cfg, c')"
  shows "Config_Hash cfg = Some (cfg_hash cfg, cfg)"
proof -
  obtain h where h: "Config_Hash \<lparr>topic = ToString (ct_topic c), endpoint = ToString (ct_endpoint c),
          access_keyid = ToString (ct_access_keyid c), access_key_secret = ToString (ct_access_key_secret c),
          project = ToString (ct_project c), log_store = ToString (ct_log_store c), cfg_hash = 0\<rparr> = Some (h, cfg)"
    using assms by (auto simp: CreateConfig_def)
  then have "cfg_hash cfg = h" by (auto simp: Config_Hash_def bind_eq_Some_conv)
  with Config_Hash_idem [OF h] show ?thesis by simp
qed

lemma pick_config_ok:
  assumes "pick_config c configs = Some (cfg, c', configs')" and "configs_ok configs"
  shows "configs_ok configs'" and "Config_Hash cfg = Some (cfg_hash cfg, cfg)"
  using assms by (auto simp: pick_config_def configs_ok_def Let_def dest: CreateConfig_hashed split: if_splits option.splits)

lemma tracker_create_wf: "keeps_wf (tapsdk_tracker_create env config has_message)"
proof (rule io_specI)
  fix s s' r assume wf: "sdk_wf s" and run: "tapsdk_tracker_create env config has_message s = Ret r s'"
  have new: "msg_hashed m" if "pick_config c (tracker_configs s) = Some (cfg, c', configs)"
      "CreateTracker tc now (Some cfg) t = Inr (Some m)" for c cfg c' configs tc now t m
    using CreateTracker_config [OF that(2)] pick_config_ok(2) [OF that(1)] wf by (simp add: msg_hashed_def sdk_wf_def)
  show "sdk_wf s'"
    using wf run
    by (auto simp: tapsdk_tracker_create_def create_message_def sdk_wf_def msgs_ok_def io_throws_def io_bind_def io_seq_def io_prim
        less_Suc_eq dest: pick_config_ok(1) intro: new split: if_splits option.splits prod.splits sum.splits)
next
  fix s s' e assume wf: "sdk_wf s" and run: "tapsdk_tracker_create env config has_message s = Throw e s'"
  show "sdk_wf s'"
    using wf run
    by (auto simp: tapsdk_tracker_create_def create_message_def sdk_wf_def io_throws_def io_bind_def io_seq_def io_prim
        dest: pick_config_ok(1) split: if_splits option.splits prod.splits sum.splits)
qed

lemma add_to_message_wf:
  assumes "\<And>k v m m'. add k v m = Inr m' \<Longrightarrow> tm_config m' = tm_config m"
  shows "keeps_wf (add_to_message add message key value)"
proof -
  have "keeps_wf (on_message k (\<lambda>msg. io_bind (io_throws (add key' value' msg)) (\<lambda>msg.
      io_seq (io_upd (\<lambda>s. s\<lparr>api_msgs := (api_msgs s)(k \<mapsto> msg)\<rparr>)) (io_ret TAPSDK_SUCCESS))))" for k key' value'
    using assms
    by (auto simp: io_spec_def on_message_def sdk_wf_def msgs_ok_def msg_hashed_def io_throws_def io_bind_def io_seq_def io_prim
        split: option.split sum.split)
  then show ?thesis
    unfolding add_to_message_def by (auto intro!: wf_rules split: option.split)
qed

lemma FlushTracker_message:
  assumes "msg_hashed msg" and "FlushTracker env (Some msg) t = Ret (r, m) t'"
  shows "\<exists>m'. m = Some m' \<and> msg_hashed m'"
  using assms
  by (auto simp: FlushTracker_def msg_hashed_def Let_def io_bind_def io_prim Flushed_def split: if_splits option.splits outcome.splits)

lemma on_message_wf:
  "(\<And>msg. io_spec (\<lambda>s. sdk_wf s \<and> api_msgs s k = Some msg) (f msg) (\<lambda>_. sdk_wf) sdk_wf) \<Longrightarrow> keeps_wf (on_message k f)"
  by (auto simp: io_spec_def on_message_def split: option.split)

lemma sdk_wf_message:
  "sdk_wf s \<Longrightarrow> api_msgs s k = Some msg \<Longrightarrow> msg_hashed m \<Longrightarrow>
   sdk_wf (s\<lparr>sdk_tracker := t, api_msgs := (api_msgs s)(k \<mapsto> m)\<rparr>)"
  by (auto simp: sdk_wf_def msgs_ok_def)

lemma flush_message_wf:
  "io_spec (\<lambda>s. sdk_wf s \<and> api_msgs s k = Some msg) (flush_message env k msg) (\<lambda>_. sdk_wf) sdk_wf"
proof (rule io_specI)
  fix s s' r assume wf: "sdk_wf s \<and> api_msgs s k = Some msg" and run: "flush_message env k msg s = Ret r s'"
  from wf have cfg: "msg_hashed msg" by (auto simp: sdk_wf_def msgs_ok_def)
  from run obtain m t where f: "FlushTracker (se_track env) (Some msg) (sdk_tracker s) = Ret (r, m) t"
    and s': "s' = s\<lparr>sdk_tracker := t, api_msgs := (api_msgs s)(k := m)\<rparr>"
    by (auto simp: flush_message_def on_tracker_def split: outcome.splits)
  from FlushTracker_message [OF cfg f] wf show "sdk_wf s'" unfolding s' by (auto intro: sdk_wf_message)
next
  fix s s' e assume wf: "sdk_wf s \<and> api_msgs s k = Some msg" and run: "flush_message env k msg s = Throw e s'"
  from wf have cfg: "msg_hashed (Flushed msg)" by (auto simp: sdk_wf_def msgs_ok_def msg_hashed_def Flushed_def)
  from run obtain t where "s' = s\<lparr>sdk_tracker := t, api_msgs := (api_msgs s)(k \<mapsto> Flushed msg)\<rparr>"
    by (auto simp: flush_message_def on_tracker_def split: outcome.splits)
  then show "sdk_wf s'" using sdk_wf_message [of s k msg "Flushed msg" t] wf cfg by simp
qed

lemma tracker_flush_wf: "keeps_wf (tapsdk_tracker_flush env message)"
proof -
  have erase: "sdk_wf s \<Longrightarrow> sdk_wf (s\<lparr>api_msgs := (api_msgs s)(k := None)\<rparr>)" for s :: "('a, 'b, 'c) sdk" and k
    by (simp add: sdk_wf_def msgs_ok_def)
  show ?thesis
    unfolding tapsdk_tracker_flush_def
    by (cases message)
      (auto intro!: keeps_wf_when_inited keeps_wf_ret on_message_wf io_spec_bind flush_message_wf io_spec_seq keeps_wf_upd erase)
qed

text \<open>Starting: \<open>ready\<close> holds of the state from the call of \<^verbatim>\<open>Runtime::Init\<close> on.\<close>

definition ready :: "('e, 's, 'c) sdk \<Rightarrow> bool" where
  "ready s \<longleftrightarrow> sdk_wf s \<and> current_device s \<noteq> None \<and> inited s"

lemma ready_frame:
  "io_spec ready (on_tracker m) (\<lambda>_. ready) ready"
  "io_spec ready (start_duration env dev config) (\<lambda>_. ready) ready"
  "io_spec ready (io_upd (\<lambda>s. s\<lparr>login_client := c\<rparr>)) (\<lambda>_. ready) ready"
  "io_spec ready (io_ret a) (\<lambda>_. ready) ready"
  by (auto simp: io_spec_def on_tracker_def start_duration_def ready_def sdk_wf_def io_prim
      split: Disk_File.outcome.split sum.split)

lemma modules_ready: "io_spec ready (Init_modules env dev config) (\<lambda>_. ready) ready"
  unfolding Init_modules_def by (intro io_spec_seq [where R = ready]) (auto intro!: ready_frame)

text \<open>\<^verbatim>\<open>Init\<close> by cases: it fails at once when it ran before or there is no device.\<close>

lemma Init_cases:
  "Init env config s =
     (let s1 = s\<lparr>sdk_config := config\<rparr>; s2 = Runtime_Init (s1\<lparr>inited := True\<rparr>)
      in if inited s then Ret False s1
         else case current_device s of
                None \<Rightarrow> Ret False s2
              | Some dev \<Rightarrow> (case Init_modules env dev config s2 of Throw e s' \<Rightarrow> Ret False s' | r \<Rightarrow> r))"
  by (cases "current_device s")
    (simp_all add: Init_def Runtime_Init_def io_seq_def io_bind_def io_catch_def io_assert_def io_throws_def
      io_prim Let_def assert_that_def split: Disk_File.outcome.split)

lemma ready_start:
  "sdk_wf s \<Longrightarrow> current_device s \<noteq> None \<Longrightarrow> ready (Runtime_Init (s\<lparr>sdk_config := config, inited := True\<rparr>))"
  by (auto simp: ready_def Runtime_Init_def sdk_wf_def)

lemma Init_wf:
  assumes "sdk_wf s" and "current_device s \<noteq> None"
  shows "case Init env config s of
      Ret ok s' \<Rightarrow> sdk_wf s' \<and> inited s' \<and> current_device s' \<noteq> None \<and> (ok \<longrightarrow> \<not> inited s) | Throw e s' \<Rightarrow> False | Undef \<Rightarrow> True"
proof -
  obtain dev where dev: "current_device s = Some dev" using assms(2) by blast
  have "ready (Runtime_Init (s\<lparr>sdk_config := config, inited := True\<rparr>))" using assms by (rule ready_start)
  then have "case Init_modules env dev config (Runtime_Init (s\<lparr>sdk_config := config, inited := True\<rparr>)) of
      Ret ok s' \<Rightarrow> ready s' | Throw e s' \<Rightarrow> ready s' | Undef \<Rightarrow> True"
    using modules_ready [of env dev config] unfolding io_spec_def by blast
  moreover have "sdk_wf (s\<lparr>sdk_config := config\<rparr>)" using assms(1) by (simp add: sdk_wf_def)
  ultimately show ?thesis
    using dev by (auto simp: Init_cases Let_def ready_def split: Disk_File.outcome.splits)
qed

lemma init_wf: "keeps_wf (tapsdk_init env config)"
proof -
  have "keeps_wf (io_seq (Device_SetCurrent (Some dev)) (io_bind (Init env cfg) (\<lambda>ok.
      if ok then io_seq (io_upd (\<lambda>s. s\<lparr>sdk_inited := True\<rparr>)) (io_ret TAPSDK_SUCCESS) else io_ret TAPSDK_ERROR)))" for dev cfg
  proof -
    have dev: "io_spec sdk_wf (Device_SetCurrent (Some dev)) (\<lambda>_ s. sdk_wf s \<and> current_device s \<noteq> None) sdk_wf"
      by (auto simp: Device_SetCurrent_def io_spec_def io_prim sdk_wf_def)
    have ini: "io_spec (\<lambda>s. sdk_wf s \<and> current_device s \<noteq> None) (Init env cfg) (\<lambda>ok. ready) sdk_wf"
      using Init_wf [of _ env cfg] unfolding io_spec_def ready_def by (fastforce split: Disk_File.outcome.splits)
    have fin: "io_spec ready (if ok then io_seq (io_upd (\<lambda>s. s\<lparr>sdk_inited := True\<rparr>)) (io_ret TAPSDK_SUCCESS)
        else io_ret TAPSDK_ERROR) (\<lambda>_. sdk_wf) sdk_wf" for ok
      by (auto simp: io_spec_def io_seq_def io_bind_def io_prim ready_def sdk_wf_def)
    show ?thesis by (rule io_spec_seq [OF dev io_spec_bind [OF ini fin]])
  qed
  then show ?thesis
    unfolding tapsdk_init_def by (auto intro!: keeps_wf_unless keeps_wf_ret split: option.split)
qed

lemma do_api_wf: "keeps_wf (do_api env mem call)"
proof (cases call)
  case (ApiCreate config has_message)
  then show ?thesis
    by (auto intro!: io_spec_bind [OF tracker_create_wf] keeps_wf_ret split: prod.split)
qed (simp_all add: init_wf game_set_wf user_set_wf window_wf tracker_flush_wf tapsdk_tracker_msg_add_param_def
    tapsdk_tracker_msg_add_content_def add_to_message_wf AddParam_config)

end
