(* ===== verification/Report_Post.thy ===== *)
theory Report_Post
  imports Duration Http_Client
begin

text \<open>
  The report thread of \<^verbatim>\<open>source/duration/duration.cpp\<close> over the HTTP client of \<^verbatim>\<open>source/net\<close>: what
  \<^verbatim>\<open>PostSync<ReportResult>\<close> answers for the events of a batch, round after round, and what a batch
  that cannot be turned into JSON does to the thread.
\<close>

section \<open>A report\<close>

definition ReportResult_of_json :: "json \<Rightarrow> unit may" where
  "ReportResult_of_json j = Some (Inr ())"

definition post_reports ::
    "(net_error + json) sender \<Rightarrow> (json \<Rightarrow> string) \<Rightarrow> (string \<Rightarrow> json option) \<Rightarrow> DurEvent list \<Rightarrow> (net_error + unit) option" where
  "post_reports request dump parse reports =
     PostAsync_list request dump ReportResult_of_json ''report/v1/statistics'' [] [] (map (ReportContent_ToJson parse) reports)"

definition report_answer :: "(net_error + unit) option \<Rightarrow> post_answer" where
  "report_answer r = (case r of Some (Inr _) \<Rightarrow> PostOk | Some (Inl e) \<Rightarrow> PostFailed (ne_status e) | None \<Rightarrow> PostFailed (- 1))"

text \<open>
  A round of the thread: the clock, the network at that moment and whether the thread still runs at
  the end of the round. The answers are those of the client for the reports of each round.
\<close>

fun answer_rounds ::
    "(json \<Rightarrow> string) \<Rightarrow> (string \<Rightarrow> json option) \<Rightarrow> ('e, 's, 'c) dur \<Rightarrow> DurEvent list
     \<Rightarrow> (u64 \<times> (net_error + json) sender \<times> bool) list \<Rightarrow> (u64 \<times> post_answer \<times> bool) list" where
  "answer_rounds dump parse d events [] = []"
| "answer_rounds dump parse d events ((now, request, go) # rounds) =
     (let (events, reports, hb) = collect_reports now d False events
      in (now, report_answer (post_reports request dump parse reports), go) # answer_rounds dump parse d events rounds)"

definition report_over_net ::
    "('e, 's, 'c) dur_ops \<Rightarrow> (json \<Rightarrow> string) \<Rightarrow> (string \<Rightarrow> json option) \<Rightarrow> bool \<Rightarrow> DurEvent list
     \<Rightarrow> (u64 \<times> (net_error + json) sender \<times> bool) list \<Rightarrow> ('e, 's, 'c) dur \<Rightarrow> ('e, 's, 'c) report_run" where
  "report_over_net P dump parse uninit_success events rounds d =
     report_loop P uninit_success (10 * 1000) events (answer_rounds dump parse d events rounds) d"

section \<open>Lemmas\<close>

text \<open>The constructor of the result has no undefined case, so a report always has an answer.\<close>

lemma post_reports_defined: "post_reports request dump parse reports \<noteq> None"
  by (auto simp: post_reports_def PostAsync_list_def PostAsync_json_def MakeResult_def ReportResult_of_json_def split: sum.split)

definition bad_user :: "(string \<Rightarrow> json option) \<Rightarrow> DurEvent \<Rightarrow> bool" where
  "bad_user parse e \<longleftrightarrow> ev_action e \<noteq> HEAT_BEAT \<and> ev_user_id e \<noteq> [] \<and> parse (ev_user_id e) = None"

lemma bad_user_ToJson: "bad_user parse e \<Longrightarrow> ReportContent_ToJson parse e = Inl (RuntimeError ''Error user json'')"
  by (simp add: bad_user_def ReportContent_ToJson_def)

lemma ToJson_error: "ReportContent_ToJson parse e = Inl x \<Longrightarrow> x = RuntimeError ''Error user json''"
  by (cases "ev_user_id e = []"; cases "parse (ev_user_id e)") (simp_all add: ReportContent_ToJson_def Let_def)

lemma bad_user_answer:
  assumes "e \<in> set reports" and "bad_user parse e"
  shows "post_reports request dump parse reports = Some (Inl (MakeError (- 1) (- 1) ''Error user json''))"
proof -
  have "ReportContent_ToJson parse e \<in> set (map (ReportContent_ToJson parse) reports)" using assms(1) by simp
  then have "Inl (RuntimeError ''Error user json'') \<in> set (map (ReportContent_ToJson parse) reports)"
    unfolding bad_user_ToJson [OF assms(2)] .
  then obtain e' where "Inl e' \<in> set (map (ReportContent_ToJson parse) reports)"
      "collect_json JNull (map (ReportContent_ToJson parse) reports) = Inl e'"
    using collect_json_error by blast
  moreover from this(1) obtain r where "ReportContent_ToJson parse r = Inl e'" by (metis imageE list.set_map)
  then have "e' = RuntimeError ''Error user json''" by (rule ToJson_error)
  ultimately show ?thesis by (simp add: post_reports_def PostAsync_list_def PostAsync_json_def exn_what_def)
qed

lemma collect_keeps_bad:
  "e \<in> set events \<Longrightarrow> bad_user parse e \<Longrightarrow> collect_reports now d hb events = (es, rs, hb') \<Longrightarrow>
   (\<exists>e' \<in> set es. bad_user parse e') \<and> (\<exists>e' \<in> set rs. bad_user parse e')"
proof (induction events arbitrary: hb es rs hb')
  case (Cons x events)
  have stamp: "bad_user parse (stamp_report d e) = bad_user parse e" for e
    by (simp add: bad_user_def stamp_report_def)
  obtain es1 rs1 h1 where c1: "collect_reports now d hb events = (es1, rs1, h1)" by (metis prod_cases3)
  obtain es2 rs2 h2 where c2: "collect_reports now d True events = (es2, rs2, h2)" by (metis prod_cases3)
  show ?case
  proof (cases "e = x")
    case True
    then show ?thesis using Cons.prems stamp [of x] by (auto simp: c1 bad_user_def Let_def)
  next
    case False
    then show ?thesis
      using Cons.prems Cons.IH [OF _ _ c1] Cons.IH [OF _ _ c2] by (auto simp: c1 c2 Let_def split: if_splits)
  qed
qed simp

lemma blocked_run:
  assumes "e \<in> set events" and "bad_user parse e" and "\<forall>(now, request, go) \<in> set rounds. go"
  shows "let r = report_loop P success retry events (answer_rounds dump parse d events rounds) d
         in \<not> rr_finished r \<and> rr_dur r = d \<and> length (rr_sleeps r) = length rounds"
  using assms
proof (induction rounds arbitrary: e events success retry)
  case (Cons r rounds)
  obtain now request go where r: "r = (now, request, go)" by (cases r)
  obtain es rs hb where c: "collect_reports now d False events = (es, rs, hb)" by (metis prod_cases3)
  obtain e1 e2 where b: "e1 \<in> set es" "bad_user parse e1" "e2 \<in> set rs" "bad_user parse e2"
    using collect_keeps_bad [OF Cons.prems(1,2) c] by blast
  have "report_answer (post_reports request dump parse rs) = PostFailed (- 1)"
    by (simp add: bad_user_answer [OF b(3,4)] report_answer_def MakeError_def)
  moreover have "rs \<noteq> []" using b(3) by auto
  ultimately show ?case
    using Cons.IH [OF b(1,2), of False "next_retry retry"] Cons.prems(3)
    by (simp add: r c Let_def drop_status_def)
qed simp

section \<open>Properties\<close>

text \<open>
  C27: an event whose user identifier is not JSON text blocks the report thread. As long as the thread
  runs, its batch is neither sent nor given up: the client fails with status -1 before it makes a
  request, whatever the network would answer, the stored events stay, and the thread sleeps and
  tries the same batch again.
\<close>

theorem bad_user_blocks_reports:
  assumes "e \<in> set events" and "bad_user parse e" and "\<forall>(now, request, go) \<in> set rounds. go"
  shows "let r = report_over_net P dump parse uninit_success events rounds d
         in \<not> rr_finished r \<and> rr_dur r = d \<and> length (rr_sleeps r) = length rounds"
  unfolding report_over_net_def using assms by (rule blocked_run)

theorem bad_user_blocks_reports_witness:
  "let e = (new_event USER_LOGIN 5000 1000 example_dur)\<lparr>ev_user_id := ''alice''\<rparr>;
       r = report_over_net example_ops (\<lambda>_. ''[]'') (\<lambda>_. None) True [e]
             [(6000, \<lambda>_ _ _ _ _ _. Inr JNull, True), (7000, \<lambda>_ _ _ _ _ _. Inr JNull, True)] example_dur
   in \<not> rr_finished r \<and> length (rr_sleeps r) = 2"
  using bad_user_blocks_reports
    [of "(new_event USER_LOGIN 5000 1000 example_dur)\<lparr>ev_user_id := ''alice''\<rparr>"
        "[(new_event USER_LOGIN 5000 1000 example_dur)\<lparr>ev_user_id := ''alice''\<rparr>]" "\<lambda>_. None"
        "[(6000, \<lambda>_ _ _ _ _ _. Inr JNull, True), (7000, \<lambda>_ _ _ _ _ _. Inr JNull, True)]"
        example_ops "\<lambda>_. ''[]''" True example_dur]
  by (simp add: bad_user_def new_event_def Let_def)

end
