(* ===== verification/Proto_Wire.thy ===== *)
theory Proto_Wire
  imports Track_Message
begin

text \<open>
  The protobuf wire format of the messages in \<^verbatim>\<open>source/tracker/proto\<close>: all their fields are strings or
  submessages, that is, length-delimited records with the field number and wire type 2. Numbers are
  base-128 varints. A proto3 string field that is empty is not written; on reading, the last value of a
  string field counts, each must be UTF-8, and unknown field numbers are skipped. This gives an instance on which
  the contract \<open>wire_format\<close> of the generated classes holds. On bytes that no serialisation wrote it is laxer
  than protobuf, which also refuses varints of more than ten bytes; nothing here depends on that.
\<close>

section \<open>Varints and fields\<close>

fun varint :: "nat \<Rightarrow> u8 list" where
  "varint n = (if n < 128 then [of_nat n] else of_nat (n mod 128 + 128) # varint (n div 128))"

declare varint.simps [simp del]

fun read_varint :: "u8 list \<Rightarrow> (nat \<times> u8 list) option" where
  "read_varint [] = None"
| "read_varint (b # bs) =
     (if unat b < 128 then Some (unat b, bs)
      else map_option (\<lambda>(n, rest). (unat b - 128 + 128 * n, rest)) (read_varint bs))"

definition field_bytes :: "nat \<Rightarrow> u8 list \<Rightarrow> u8 list" where
  "field_bytes num payload = varint (num * 8 + 2) @ varint (length payload) @ payload"

text \<open>Reading one length-delimited field; other wire types do not occur in these messages.\<close>

definition read_field :: "u8 list \<Rightarrow> (nat \<times> u8 list \<times> u8 list) option" where
  "read_field bs =
     Option.bind (read_varint bs) (\<lambda>(key, bs).
       if key mod 8 \<noteq> 2 then None
       else Option.bind (read_varint bs) (\<lambda>(len, bs).
         if length bs < len then None else Some (key div 8, take len bs, drop len bs)))"

lemma read_varint_shorter: "read_varint bs = Some (n, rest) \<Longrightarrow> length rest < length bs"
proof (induction bs arbitrary: n)
  case (Cons b bs)
  then show ?case by (cases "unat b < 128") fastforce+
qed simp

lemma read_field_shorter: "read_field bs = Some (num, payload, rest) \<Longrightarrow> length rest < length bs"
  by (auto simp: read_field_def bind_eq_Some_conv split: if_splits prod.splits dest!: read_varint_shorter)

function read_fields :: "u8 list \<Rightarrow> (nat \<times> u8 list) list option" where
  "read_fields bs =
     (if bs = [] then Some []
      else case read_field bs of
             None \<Rightarrow> None
           | Some (num, payload, rest) \<Rightarrow> map_option (Cons (num, payload)) (read_fields rest))"
  by auto
termination
  by (relation "measure length") (auto dest: read_field_shorter)

declare read_fields.simps [simp del]

lemma read_varint_varint [simp]: "read_varint (varint n @ bs) = Some (n, bs)"
proof (induction n rule: varint.induct)
  case (1 n)
  show ?case
  proof (cases "n < 128")
    case True
    then show ?thesis by (simp add: varint.simps [of n] unat_of_nat_u8)
  next
    case False
    have "unat (of_nat (n mod 128 + 128) :: u8) = n mod 128 + 128"
      by (simp only: unat_of_nat_u8) simp
    then show ?thesis using False 1 by (simp add: varint.simps [of n])
  qed
qed

lemma read_field_bytes: "read_field (field_bytes num payload @ rest) = Some (num, payload, rest)"
proof -
  have "(num * 8 + 2) mod 8 = (2 :: nat)" "(num * 8 + 2) div 8 = num" by presburger+
  then show ?thesis by (simp add: read_field_def field_bytes_def del: add_2_eq_Suc')
qed

lemma field_bytes_nonempty [simp]: "field_bytes num payload \<noteq> []"
proof -
  have "varint n \<noteq> []" for n by (simp add: varint.simps [of n])
  then show ?thesis by (simp add: field_bytes_def)
qed

lemma read_fields_bytes: "read_fields (concat (map (\<lambda>(num, p). field_bytes num p) fs)) = Some fs"
proof (induction fs)
  case Nil
  then show ?case by (simp add: read_fields.simps)
next
  case (Cons f fs)
  obtain num p where "f = (num, p)" by (cases f)
  then show ?case using Cons by (subst read_fields.simps) (simp add: read_field_bytes)
qed

section \<open>String fields\<close>

definition string_of :: "u8 list \<Rightarrow> string" where
  "string_of bs = map (\<lambda>b. char_of (unat b)) bs"

lemma string_of_bytes [simp]: "string_of (bytes_of s) = s"
proof -
  have "char_of (unat (of_char c :: u8)) = c" for c :: char
    using unat_of_nat_u8 [of "of_char c"] by (simp add: of_nat_of_char)
  then show ?thesis by (simp add: string_of_def bytes_of_def map_idI)
qed

definition string_field :: "nat \<Rightarrow> string \<Rightarrow> (nat \<times> u8 list) list" where
  "string_field num s = (if s = [] then [] else [(num, bytes_of s)])"

definition string_value :: "nat \<Rightarrow> (nat \<times> u8 list) list \<Rightarrow> string" where
  "string_value num fs = (case map_of (rev fs) num of None \<Rightarrow> [] | Some bs \<Rightarrow> string_of bs)"

text \<open>Every occurrence of a string field is checked.\<close>

definition strings_ok :: "nat set \<Rightarrow> (nat \<times> u8 list) list \<Rightarrow> bool" where
  "strings_ok nums fs \<longleftrightarrow> (\<forall>(num, p)\<in>set fs. num \<in> nums \<longrightarrow> utf8 p)"

lemma strings_ok_append [simp]: "strings_ok nums (fs @ gs) \<longleftrightarrow> strings_ok nums fs \<and> strings_ok nums gs"
  by (auto simp: strings_ok_def)

lemma strings_ok_Nil [simp]: "strings_ok nums []"
  by (simp add: strings_ok_def)

lemma strings_ok_field [simp]: "num \<in> nums \<Longrightarrow> strings_ok nums (string_field num s) \<longleftrightarrow> utf8_text s"
  by (simp add: strings_ok_def string_field_def utf8_text_def bytes_of_def)

definition message_bytes :: "(nat \<times> u8 list) list \<Rightarrow> u8 list" where
  "message_bytes fs = concat (map (\<lambda>(num, p). field_bytes num p) fs)"

lemma read_message [simp]: "read_fields (message_bytes fs) = Some fs"
  by (simp add: message_bytes_def read_fields_bytes)

section \<open>The messages of the SDK\<close>

definition cfg_fields :: "TrackDiskCacheConfig \<Rightarrow> (nat \<times> u8 list) list" where
  "cfg_fields c = string_field 1 (dcc_topic c) @ string_field 2 (dcc_endpoint c) @ string_field 3 (dcc_access_keyid c)
     @ string_field 4 (dcc_access_key_secret c) @ string_field 5 (dcc_project c) @ string_field 6 (dcc_log_store c) @ []"

definition cfg_codec :: "TrackDiskCacheConfig codec" where
  "cfg_codec = \<lparr>encode = (\<lambda>c. message_bytes (cfg_fields c)),
     decode = (\<lambda>bs. Option.bind (read_fields bs) (\<lambda>fs. if \<not> strings_ok {1..6} fs then None else Some \<lparr>dcc_topic = string_value 1 fs, dcc_endpoint = string_value 2 fs,
       dcc_access_keyid = string_value 3 fs, dcc_access_key_secret = string_value 4 fs, dcc_project = string_value 5 fs,
       dcc_log_store = string_value 6 fs\<rparr>))\<rparr>"

definition content_bytes :: "string \<times> string \<Rightarrow> u8 list" where
  "content_bytes = (\<lambda>(k, v). message_bytes (string_field 1 k @ string_field 2 v @ []))"

definition read_content :: "u8 list \<Rightarrow> (string \<times> string) option" where
  "read_content bs = Option.bind (read_fields bs) (\<lambda>fs.
     if \<not> strings_ok {1, 2} fs then None else Some (string_value 1 fs, string_value 2 fs))"

fun read_contents :: "nat \<Rightarrow> (nat \<times> u8 list) list \<Rightarrow> (string \<times> string) list option" where
  "read_contents num [] = Some []"
| "read_contents num ((n, p) # fs) =
     (if n = num then Option.bind (read_content p) (\<lambda>c. map_option (Cons c) (read_contents num fs))
      else read_contents num fs)"

definition msg_codec :: "TrackMsgCacheProto codec" where
  "msg_codec = \<lparr>encode = (\<lambda>m. message_bytes (map (\<lambda>c. (1, content_bytes c)) (log_contents m)
        @ map (\<lambda>c. (2, content_bytes c)) (log_commons m))),
     decode = (\<lambda>bs. Option.bind (read_fields bs) (\<lambda>fs.
        Option.bind (read_contents 1 fs) (\<lambda>cs.
        map_option (\<lambda>ps. \<lparr>log_contents = cs, log_commons = ps\<rparr>) (read_contents 2 fs))))\<rparr>"

definition utf8_content :: "string \<times> string \<Rightarrow> bool" where
  "utf8_content = (\<lambda>(k, v). utf8_text k \<and> utf8_text v)"

lemma read_content_bytes [simp]: "read_content (content_bytes c) = (if utf8_content c then Some c else None)"
proof (cases c)
  case (Pair k v)
  have "(string_value 1 (string_field 1 k @ string_field 2 v), string_value 2 (string_field 1 k @ string_field 2 v)) = (k, v)"
    by (auto simp: string_value_def string_field_def)
  then show ?thesis by (simp add: Pair read_content_def content_bytes_def utf8_content_def)
qed

lemma read_contents_skip: "n \<noteq> num \<Longrightarrow> read_contents num (map (\<lambda>c. (n, content_bytes c)) cs @ fs) = read_contents num fs"
  by (induction cs) simp_all

lemma read_contents_all:
  "read_contents num fs = Some [] \<Longrightarrow> read_contents num (map (\<lambda>c. (num, content_bytes c)) cs @ fs)
     = (if \<forall>c\<in>set cs. utf8_content c then Some cs else None)"
  by (induction cs) auto

interpretation cfg: wire_format cfg_codec utf8_cfg
proof unfold_locales
  fix c :: TrackDiskCacheConfig
  have "strings_ok {1..6} (cfg_fields c) \<longleftrightarrow> utf8_cfg c" by (simp add: cfg_fields_def utf8_cfg_def)
  then show "decode cfg_codec (encode cfg_codec c) = (if utf8_cfg c then Some c else None)"
    by (auto simp: cfg_codec_def) (simp add: cfg_fields_def string_value_def string_field_def)
qed

interpretation msg: wire_format msg_codec utf8_msg
proof unfold_locales
  fix m :: TrackMsgCacheProto
  let ?fs = "map (\<lambda>c. (1, content_bytes c)) (log_contents m) @ map (\<lambda>c. (2, content_bytes c)) (log_commons m)"
  have "read_contents 1 (map (\<lambda>c. (2, content_bytes c)) (log_commons m)) = Some []"
    using read_contents_skip [of 2 1 "log_commons m" "[]"] by simp
  then have "read_contents 1 ?fs = (if \<forall>c\<in>set (log_contents m). utf8_content c then Some (log_contents m) else None)"
    by (rule read_contents_all)
  moreover have "read_contents 2 ?fs = (if \<forall>c\<in>set (log_commons m). utf8_content c then Some (log_commons m) else None)"
    using read_contents_skip [of 1 2 "log_contents m"] read_contents_all [of 2 "[]" "log_commons m"] by simp
  moreover have "utf8_msg m \<longleftrightarrow> (\<forall>c\<in>set (log_contents m). utf8_content c) \<and> (\<forall>c\<in>set (log_commons m). utf8_content c)"
    by (auto simp: utf8_msg_def utf8_content_def)
  ultimately show "decode msg_codec (encode msg_codec m) = (if utf8_msg m then Some m else None)"
    by (simp add: msg_codec_def)
qed

end
