(* ===== verification/Cache_Durability.thy ===== *)
theory Cache_Durability
  imports Disk_Cache Proto_Wire
begin

text \<open>
  What the cache of tracked messages guarantees (\<^verbatim>\<open>source/tracker/cache.cpp\<close>): messages survive a restart,
  the size limits, the safety of reading a damaged file, and the cases in which the code leaves its
  mapping or fails to delete the file.
\<close>

section \<open>Reading any file\<close>

text \<open>A message that \<^verbatim>\<open>Load\<close> returns was cut from the record area, with a matching checksum.\<close>

definition verified_body :: "cache_env \<Rightarrow> TrackerConfig option \<Rightarrow> u8 list \<Rightarrow> nat \<Rightarrow> track_msg \<Rightarrow> bool" where
  "verified_body env config mem rec_size msg \<longleftrightarrow>
     (\<exists>off len. off + 20 + len \<le> rec_size \<and> slice off 4 mem = record_magic
        \<and> CityHash64 (slice (off + 20) len mem) 0 len = Some (of_nat (le_value (slice (off + 4) 8 mem)))
        \<and> Deserialize (env_msg env) (slice (off + 20) len mem) (new_TrackMessageImpl (env_now env) config) = Some msg)"

lemma load_loop_sound:
  assumes "rec_size \<le> length mem" and "rec_size < 2 ^ 32" and "\<forall>m\<in>set acc. verified_body env config mem rec_size m"
  shows "case load_loop env config mem rec_size k off off acc of
      None \<Rightarrow> length mem < rec_size + 16
    | Some msgs \<Rightarrow> length msgs \<le> length acc + k \<and> (\<forall>m\<in>set msgs. verified_body env config mem rec_size m)"
  using assms(3)
proof (induction k arbitrary: off acc)
  case 0
  then show ?case by simp
next
  case (Suc k)
  define len where "len = le_value (slice (off + 12) 4 mem)"
  let ?body = "slice (off + 20) len mem" and ?next = "off + (20 + len)"
  show ?case
  proof (cases "off < rec_size \<and> off + 16 \<le> length mem \<and> off + 20 + len \<le> rec_size")
    case False
    then show ?thesis using Suc.prems by (auto simp: sizeof_RecordHeader_def len_def [symmetric] Let_def)
  next
    case True
    have "len < 2 ^ 64" "length ?body = len" using True assms(1,2) by simp_all
    then obtain h where h: "CityHash64 ?body 0 len = Some h" using hash_defined [of ?body] by auto
    have go: "case load_loop env config mem rec_size k ?next ?next acc' of
        None \<Rightarrow> length mem < rec_size + 16
      | Some msgs \<Rightarrow> length msgs \<le> length acc + Suc k \<and> (\<forall>m\<in>set msgs. verified_body env config mem rec_size m)"
      if "\<forall>m\<in>set acc'. verified_body env config mem rec_size m" "length acc' \<le> Suc (length acc)" for acc'
      using Suc.IH [OF that(1), of ?next] that(2) by (auto split: option.splits)
    show ?thesis
    proof (cases "slice off 4 mem = record_magic \<and> of_nat (le_value (slice (off + 4) 8 mem)) = h
        \<and> Deserialize (env_msg env) ?body (new_TrackMessageImpl (env_now env) config) \<noteq> None")
      case False
      then show ?thesis using go [of acc] Suc.prems True h
        by (auto simp: sizeof_RecordHeader_def len_def [symmetric] Let_def split: option.split)
    next
      case ok: True
      then obtain m where m: "Deserialize (env_msg env) ?body (new_TrackMessageImpl (env_now env) config) = Some m" by auto
      then have "verified_body env config mem rec_size m"
        using ok True h unfolding verified_body_def by blast
      then show ?thesis using go [of "acc @ [m]"] Suc.prems True h ok m
        by (auto simp: sizeof_RecordHeader_def len_def [symmetric] Let_def)
    qed
  qed
qed

section \<open>Properties\<close>

text \<open>
  C3: tracked messages survive. On a system whose calls succeed, a new cache file of a configuration with UTF-8 texts
  accepts every message of a list that fits in its megabyte (one message with its header at most 64 KB),
  gives back in order those whose strings are UTF-8, and a cache opened later on the same file, without a
  configuration, finds the configuration and the same messages. A message with other bytes is accepted
  and never given back. The creation times are not given back either: \<^verbatim>\<open>Load\<close> stamps the messages with
  the time of loading.
\<close>

theorem cache_durable:
  assumes "\<forall>n. env_os env n" and "wire_format (env_msg env) utf8_msg" and "wire_format (env_cfg env) utf8_cfg"
    and "config_ready env hash cfg0 cfg" and "utf8_config cfg"
    and "\<forall>m\<in>set msgs. msg_bytes env m \<le> cache_capability"
    and "used_size env cfg [] + (\<Sum>m\<leftarrow>msgs. msg_bytes env m) \<le> max_cache_size"
    and "back = map (\<lambda>m. (new_TrackMessageImpl (env_now env) (Some cfg))\<lparr>proto := proto m\<rparr>) (filter (\<lambda>m. utf8_msg (proto m)) msgs)"
  shows "\<exists>c1 c2 c3. Cache_Init env (new_DiskCache None parent n hash (Some cfg0)) = Ret () c1
    \<and> push_all env msgs c1 = Ret (replicate (length msgs) True) c2
    \<and> Cache_Load env c2 = Ret back c2
    \<and> Cache_Init env (new_DiskCache (df_data c2) parent' n' hash None) = Ret () c3
    \<and> dc_config c3 = Some cfg
    \<and> Cache_Load env c3 = Ret back c3"
proof -
  obtain c1 where c1: "Cache_Init env (new_DiskCache None parent n hash (Some cfg0)) = Ret () c1" "dc_hash c1 = hash"
      "cache_holds env cfg [] c1"
    using Init_creates [OF assms(1,4), of None] by auto
  obtain c2 where c2: "push_all env msgs c1 = Ret (replicate (length msgs) True) c2" "dc_hash c2 = hash"
      "cache_holds env cfg (map stored msgs) c2"
    using push_all_holds [OF assms(1) c1(3), of msgs] assms(6,7) c1(2) by auto
  then obtain d where d: "df_data c2 = Some d" "file_holds env hash cfg (map stored msgs) d"
    by (auto simp: cache_holds_def)
  obtain c3 where c3: "Cache_Init env (new_DiskCache (df_data c2) parent' n' hash None) = Ret () c3"
      "cache_holds env cfg (map stored msgs) c3"
    using Init_reopens [OF assms(1,3) d(2), of None] assms(4,5) d(1) by (auto simp: config_ready_def)
  have "map (loaded env (Some cfg)) (filter readable (map stored msgs)) = back"
    unfolding assms(8) by (induction msgs) (simp_all add: loaded_def stored_def readable_def)
  moreover have "dc_config c3 = Some cfg" using c3(2) by (simp add: cache_holds_def)
  ultimately show ?thesis
    using c1(1) c2(1) c3(1) Cache_Load_holds [OF assms(2) c2(3)] Cache_Load_holds [OF assms(2) c3(2)] by simp
qed

text \<open>An example: one configuration, one message, and one message that is not UTF-8, in the wire format of \<open>Proto_Wire\<close>.\<close>

definition demo_env :: cache_env where
  "demo_env = \<lparr>env_os = (\<lambda>_. True), env_now = 100, env_msg = msg_codec, env_cfg = cfg_codec,
     env_pointer = replicate 8 0, env_config_object = (\<lambda>_. [])\<rparr>"

definition demo_config :: TrackerConfig where
  "demo_config = \<lparr>topic = ''t'', endpoint = ''e'', access_keyid = [], access_key_secret = [], project = ''p'',
     log_store = [], cfg_hash = 0\<rparr>"

definition demo_hash :: u64 where
  "demo_hash = fst (the (Config_Hash demo_config))"

definition demo_msg :: track_msg where
  "demo_msg = (new_TrackMessageImpl 7 (Some demo_config))\<lparr>proto := \<lparr>log_contents = [(''k'', ''v'')], log_commons = []\<rparr>\<rparr>"

definition demo_bad_msg :: track_msg where
  "demo_bad_msg = (new_TrackMessageImpl 7 (Some demo_config))\<lparr>proto := \<lparr>log_contents = [(''k'', [CHR 0xFF])], log_commons = []\<rparr>\<rparr>"

lemma demo_utf8: "utf8_msg (proto demo_msg)" "\<not> utf8_msg (proto demo_bad_msg)" "utf8_config (demo_config\<lparr>cfg_hash := h\<rparr>)"
  by (simp_all add: utf8_msg_def utf8_config_def utf8_cfg_def utf8_text_def bytes_of_def demo_msg_def demo_bad_msg_def demo_config_def
      disk_config_of_def)

lemma demo_config_hash: "Config_Hash demo_config = Some (demo_hash, demo_config\<lparr>cfg_hash := demo_hash\<rparr>)"
proof -
  have "returns (Config_Hash demo_config)" by (rule Config_Hash_defined) (simp add: config_small_def demo_config_def)
  then obtain h c where "Config_Hash demo_config = Some (h, c)" by (auto simp: returns_def)
  moreover have "cfg_hash demo_config = 0" by (simp add: demo_config_def)
  ultimately show ?thesis by (auto simp: demo_hash_def Config_Hash_def bind_eq_Some_conv)
qed

lemma length_field: "num < 16 \<Longrightarrow> length p < 128 \<Longrightarrow> length (field_bytes num p) = 2 + length p"
  by (simp add: field_bytes_def varint.simps)

lemma demo_sizes:
  "length (config_bytes demo_env (demo_config\<lparr>cfg_hash := h\<rparr>)) = 9" "msg_bytes demo_env demo_msg = 28" "msg_bytes demo_env demo_bad_msg = 28"
  by (simp_all add: demo_bad_msg_def config_bytes_def demo_env_def demo_config_def disk_config_of_def cfg_codec_def cfg_fields_def string_field_def
      message_bytes_def length_field msg_bytes_def GetSerializeSize_def demo_msg_def msg_codec_def content_bytes_def)

lemma demo_ready: "config_ready demo_env demo_hash demo_config (demo_config\<lparr>cfg_hash := demo_hash\<rparr>)"
proof -
  have "demo_config\<lparr>cfg_hash := 0\<rparr> = demo_config" by (simp add: demo_config_def)
  then show ?thesis
    using demo_config_hash by (simp add: config_ready_def config_ok_def demo_sizes cache_capability_def)
qed

lemma demo_env_ok: "\<forall>n. env_os demo_env n" "wire_format (env_msg demo_env) utf8_msg" "wire_format (env_cfg demo_env) utf8_cfg"
  by (simp_all add: demo_env_def msg.wire_format_axioms cfg.wire_format_axioms)

theorem cache_durable_witness:
  "\<exists>c1 c2 c3. Cache_Init demo_env (new_DiskCache None False 0 demo_hash (Some demo_config)) = Ret () c1
    \<and> push_all demo_env [demo_msg, demo_bad_msg] c1 = Ret [True, True] c2
    \<and> Cache_Init demo_env (new_DiskCache (df_data c2) True 5 demo_hash None) = Ret () c3
    \<and> (\<exists>msgs. Cache_Load demo_env c3 = Ret msgs c3 \<and> map (log_contents \<circ> proto) msgs = [[(''k'', ''v'')]])"
proof -
  let ?msgs = "[demo_msg, demo_bad_msg]"
  have "\<forall>m\<in>set ?msgs. msg_bytes demo_env m \<le> cache_capability"
    "used_size demo_env (demo_config\<lparr>cfg_hash := demo_hash\<rparr>) [] + (\<Sum>m\<leftarrow>?msgs. msg_bytes demo_env m) \<le> max_cache_size"
    by (simp_all add: demo_sizes used_size_def cache_capability_def max_cache_size_def)
  note d = cache_durable [OF demo_env_ok demo_ready demo_utf8(3) this refl, of False 0 True 5]
  have "map (log_contents \<circ> proto) (map (\<lambda>m. (new_TrackMessageImpl (env_now demo_env) (Some (demo_config\<lparr>cfg_hash := demo_hash\<rparr>)))\<lparr>proto := proto m\<rparr>)
      (filter (\<lambda>m. utf8_msg (proto m)) ?msgs)) = [[(''k'', ''v'')]]"
    using demo_utf8(1,2) by simp (simp add: demo_msg_def)
  moreover have "replicate (length ?msgs) True = [True, True]" by simp
  ultimately show ?thesis using d by metis
qed

text \<open>
  A configuration with other bytes can be saved and never loaded: opening the file later without a
  configuration throws, so the messages in it are not found again by a new start of the process.
\<close>

theorem bad_config_not_loaded:
  assumes "wire_format (env_cfg env) utf8_cfg" and "cache_holds env cfg ms c" and "length (config_bytes env cfg) + 28 \<le> cache_capability"
    and "\<not> utf8_config cfg"
  shows "\<exists>e. LoadConfig env c = Throw e c"
proof -
  from assms(2) obtain rest where d: "df_data c = Some (header_bytes (holds_header env (dc_hash c) cfg ms) @ config_bytes env cfg @ records env ms @ rest)"
      and ch: "cache_header c = Mapped (28 + length (config_bytes env cfg) + length (records env ms) + length rest)"
      and used: "used_size env cfg ms \<le> max_cache_size"
    by (auto simp: cache_holds_def file_holds_def)
  have "mem_read 28 (length (config_bytes env cfg)) c = Ret (config_bytes env cfg) c"
    using mem_read_ok [OF ch d, of 28 "length (config_bytes env cfg)"] by (simp add: slice_append_right)
  moreover have "decode (env_cfg env) (config_bytes env cfg) = None"
    using wire_format.decode_encode [OF assms(1), of "disk_config_of cfg"] assms(3,4)
    by (simp add: config_bytes_def utf8_config_def cache_capability_def INT_MAX_def)
  ultimately show ?thesis
    using holds_get_header [OF assms(2)] holds_Size [OF assms(2)] used ch d
    by (simp add: LoadConfig_def io_bind_def io_seq_def io_assert_step io_get_def IsMapped_def config_offset_def
        sizeof_CacheHeader_def)
qed

text \<open>
  C15: the three outcomes of a push on a healthy system. A message that would take the file past one
  megabyte is refused and nothing changes. A message that fits in the file, or in the file grown by one
  step of 64 KB, is appended. A larger message is accepted as well, but the file grows by one step only,
  and the write leaves the mapping: undefined behaviour.
\<close>

theorem push_outcomes:
  assumes "\<forall>n. env_os env n" and "cache_holds env cfg ms c"
    and "need = used_size env cfg ms + msg_bytes env msg"
  shows "if max_cache_size < need then Cache_Push env msg c = Ret False c
    else if need \<le> length (the (df_data c)) + cache_capability
    then (\<exists>c'. Cache_Push env msg c = Ret True c' \<and> cache_holds env cfg (ms @ [stored msg]) c')
    else Cache_Push env msg c = Undef"
  using Cache_Push_holds [OF assms(1,2), of need msg] assms(3) by (auto simp: msg_bytes_def stored_def)

theorem push_outcomes_witness:
  "\<exists>c c'. Cache_Push demo_env demo_msg c = Ret True c'
     \<and> cache_holds demo_env (demo_config\<lparr>cfg_hash := demo_hash\<rparr>) [stored demo_msg] c'"
proof -
  obtain c where "cache_holds demo_env (demo_config\<lparr>cfg_hash := demo_hash\<rparr>) [] c"
    using Init_creates [OF demo_env_ok(1) demo_ready, of None] by auto
  from push_outcomes [OF demo_env_ok(1) this refl, of demo_msg] show ?thesis
    by (auto simp: demo_sizes used_size_def cache_capability_def max_cache_size_def)
qed

lemma read_old_header:
  assumes c: "cache_holds env cfg ms c" and d: "df_data c = Some d"
    and c': "df_data c' = Some (d @ ext)" "cache_header c' = cache_header c"
  shows "get_header c' = Ret (holds_header env (dc_hash c) cfg ms) c'"
proof -
  from c d obtain rest where "d = header_bytes (holds_header env (dc_hash c) cfg ms) @ rest" "cache_header c = Mapped (length d)"
    by (auto simp: cache_holds_def file_holds_def)
  then show ?thesis using c' by (intro get_header_mapped [where rest = "rest @ ext"]) auto
qed

text \<open>
  A push whose \<^verbatim>\<open>mmap\<close> fails reports False, but has already grown the file; a later push, even
  one whose system calls all succeed, finds room in the file and writes outside the old mapping.
\<close>

theorem push_after_failed_map:
  assumes "cache_holds env cfg ms c" and "env_os env (df_calls c)" and "\<not> env_os env (Suc (df_calls c))"
    and "need = used_size env cfg ms + msg_bytes env msg" and "need \<le> max_cache_size"
    and "length (the (df_data c)) < need" and "need \<le> length (the (df_data c)) + cache_capability"
  shows "\<exists>c'. Cache_Push env msg c = Ret False c' \<and> Cache_Push (env\<lparr>env_os := os\<rparr>) msg c' = Undef"
proof -
  from assms(1) obtain d where d: "df_data c = Some d" "cache_header c = Mapped (length d)" "cur_size c = length d"
      "df_file c = OpenStream" "df_mode c = ReadWrite" and used: "used_size env cfg ms \<le> max_cache_size"
    by (auto simp: cache_holds_def file_holds_def)
  let ?h = "holds_header env (dc_hash c) cfg ms" and ?k = "GetSerializeSize (env_msg env) msg"
  have n: "sizeof_CacheHeader + length (config_bytes env cfg) + length (records env ms) + sizeof_RecordHeader + ?k = need"
    "sizeof_CacheHeader + length (config_bytes env cfg) + length (records env ms) + sizeof_RecordHeader = used_size env cfg ms + 20"
    using assms(4) by (simp_all add: used_size_def sizeof_CacheHeader_def sizeof_RecordHeader_def msg_bytes_def)
  have big: "length d + cache_capability < 2 ^ 63" using assms(5,6) d(1) by (simp add: max_cache_size_def cache_capability_def)
  define c' where "c' = c\<lparr>df_data := Some (d @ replicate cache_capability 0), cur_size := length d + cache_capability,
     df_calls := Suc (Suc (df_calls c))\<rparr>"
  have "grow env c = Ret False c'"
    using holds_Size [OF assms(1)] d big assms(2,3)
    by (simp add: grow_def io_bind_def io_get_def io_ret_def IsMapped_def Resize_def Map_def syscall_def IsOpen_def c'_def)
  then have p1: "Cache_Push env msg c = Ret False c'"
    using holds_get_header [OF assms(1)] holds_Size [OF assms(1)] used n assms(5,6)
    by (simp add: Cache_Push_def io_bind_def io_ret_def Let_def)
  let ?env = "env\<lparr>env_os := os\<rparr>"
  have g: "get_header c' = Ret ?h c'"
    by (rule read_old_header [OF assms(1) d(1)]) (simp_all add: c'_def)
  have s: "Size c' = Ret (length d + cache_capability) c'" by (rule Size_cached) (simp_all add: c'_def cache_capability_def)
  have "mem_read (used_size env cfg ms + 20) ?k c' = Undef"
    using d assms(4,6) by (simp add: mem_read_def c'_def msg_bytes_def)
  then have "append_record ?env msg ?k c' = Undef"
    using g used n d by (simp add: append_record_def io_bind_def io_get_def IsMapped_def Let_def c'_def)
  then have "Cache_Push ?env msg c' = Undef"
    using g s used n assms(5,7) d(1) by (simp add: Cache_Push_def io_bind_def io_ret_def Let_def)
  with p1 show ?thesis by blast
qed

text \<open>An example where every message takes 64 KB, in a file that still has its first size.\<close>

definition wide_env :: cache_env where
  "wide_env = demo_env\<lparr>env_msg := \<lparr>encode = (\<lambda>_. replicate (cache_capability - 20) 0), decode = (\<lambda>_. None)\<rparr>\<rparr>"

definition wide_cache :: disk_cache where
  "wide_cache = \<lparr>df_data = Some (header_bytes (holds_header wide_env demo_hash (demo_config\<lparr>cfg_hash := demo_hash\<rparr>) [])
        @ config_bytes demo_env (demo_config\<lparr>cfg_hash := demo_hash\<rparr>) @ replicate (cache_capability - 37) 0),
     df_parent = True, df_file = OpenStream, df_mode = ReadWrite, cur_size = cache_capability, df_calls = 0,
     dc_hash = demo_hash, dc_config = Some (demo_config\<lparr>cfg_hash := demo_hash\<rparr>), header_buf = zero_header,
     cache_header = Mapped cache_capability\<rparr>"

theorem push_after_failed_map_witness:
  "\<exists>c'. Cache_Push (wide_env\<lparr>env_os := (\<lambda>k. k \<noteq> 1)\<rparr>) demo_msg wide_cache = Ret False c' \<and> Cache_Push wide_env demo_msg c' = Undef"
proof -
  let ?cfg = "demo_config\<lparr>cfg_hash := demo_hash\<rparr>" and ?env = "wide_env\<lparr>env_os := (\<lambda>k. k \<noteq> 1)\<rparr>"
  have cb: "config_bytes ?env ?cfg = config_bytes demo_env ?cfg" "config_bytes wide_env ?cfg = config_bytes demo_env ?cfg"
    by (simp_all add: config_bytes_def wide_env_def)
  have sz: "used_size ?env ?cfg [] = 37" "msg_bytes ?env demo_msg = cache_capability"
    "length (the (df_data wide_cache)) = cache_capability"
    using cb demo_sizes(1) [of demo_hash]
    by (simp_all add: used_size_def msg_bytes_def GetSerializeSize_def wide_env_def wide_cache_def cache_capability_def)
  have ok: "config_ok demo_hash ?cfg" using demo_ready by (simp add: config_ready_def)
  have h: "holds_header ?env demo_hash ?cfg [] = holds_header wide_env demo_hash ?cfg []"
    using cb by (simp add: holds_header_def)
  have "cache_holds ?env ?cfg [] wide_cache"
    using ok sz(1) demo_sizes(1) [of demo_hash] cb h
    by (simp add: cache_holds_def file_holds_def wide_cache_def cache_capability_def max_cache_size_def)
  from push_after_failed_map [OF this _ _ refl, of demo_msg "env_os wide_env"] sz
  show ?thesis by (simp add: wide_cache_def max_cache_size_def cache_capability_def)
qed

text \<open>
  C17: reading a damaged file. Whatever the bytes of a mapped file are, \<^verbatim>\<open>Load\<close> either returns, with at most as many
  messages as the header counts, each of which was cut from the record area with a matching checksum; or
  it reads outside the mapping, and then only because the record area the header describes ends less than
  16 bytes before the end of the file.
\<close>

theorem Load_safe:
  assumes "opened_with h c" and "df_data c = Some d"
  shows "(\<exists>msgs. Cache_Load env c = Ret msgs c \<and> length msgs \<le> unat (record_count h)
      \<and> (\<forall>m\<in>set msgs. verified_body env (dc_config c) (drop (28 + unat (config_size h)) d) (unat (record_size h)) m))
    \<or> (Cache_Load env c = Undef \<and> 28 + unat (config_size h) + unat (record_size h) \<le> length d
      \<and> length d < 28 + unat (config_size h) + unat (record_size h) + 16)"
proof -
  from assms have ch: "cache_header c = Mapped (length d)" by (auto simp: opened_with_def)
  let ?mem = "drop (28 + unat (config_size h)) d" and ?n = "unat (record_size h)"
  let ?loop = "load_loop env (dc_config c) ?mem ?n (unat (record_count h)) 0 0 []"
  have load: "Cache_Load env c = (if 28 + unat (config_size h) + ?n > length d then Ret [] c
      else case ?loop of None \<Rightarrow> Undef | Some msgs \<Rightarrow> Ret msgs c)"
    using opened_get_header [OF assms(1)] opened_Size [OF assms(1)] assms(2) ch
    by (simp add: Cache_Load_def io_bind_def io_get_def io_ret_def io_undef_def Let_def sizeof_CacheHeader_def split: option.split)
  show ?thesis
  proof (cases "28 + unat (config_size h) + ?n > length d")
    case False
    then have "?n \<le> length ?mem" by simp
    moreover have "?n < 2 ^ 32" using unsigned_less [of "record_size h"] by simp
    ultimately show ?thesis
      using load_loop_sound [of ?n ?mem "[]" env "dc_config c" "unat (record_count h)" 0] False load
      by (cases ?loop) auto
  qed (simp add: load)
qed

text \<open>A file of zeros.\<close>

theorem Load_safe_witness:
  "\<exists>msgs. Cache_Load demo_env (wide_cache\<lparr>df_data := Some (header_bytes zero_header @ replicate (cache_capability - 28) 0)\<rparr>)
    = Ret msgs (wide_cache\<lparr>df_data := Some (header_bytes zero_header @ replicate (cache_capability - 28) 0)\<rparr>) \<and> msgs = []"
proof -
  let ?c = "wide_cache\<lparr>df_data := Some (header_bytes zero_header @ replicate (cache_capability - 28) 0)\<rparr>"
  have "opened_with zero_header ?c"
    by (simp add: opened_with_def wide_cache_def zero_header_def cache_capability_def)
  from Load_safe [OF this, of _ demo_env] show ?thesis
    by (simp add: zero_header_def cache_capability_def)
qed

text \<open>
  The second case happens: with a header that passes every check of \<^verbatim>\<open>CheckValid\<close>, whose record area reaches the
  end of the file and has less than 16 bytes, \<^verbatim>\<open>Load\<close> reads the length of a record past the mapping.
\<close>

theorem Load_overruns:
  assumes "opened_with h c" and "df_data c = Some d" and "28 + unat (config_size h) + unat (record_size h) = length d"
    and "0 < record_count h" and "0 < unat (record_size h)" and "unat (record_size h) < 16"
  shows "Cache_Load env c = Undef"
proof -
  from assms have ch: "cache_header c = Mapped (length d)" by (auto simp: opened_with_def)
  obtain k where "unat (record_count h) = Suc k" using assms(4) by (metis not0_implies_Suc unat_eq_zero word_gt_0)
  moreover have "length d - (28 + unat (config_size h)) = unat (record_size h)" using assms(3) by simp
  ultimately have "load_loop env (dc_config c) (drop (28 + unat (config_size h)) d) (unat (record_size h)) (unat (record_count h)) 0 0 [] = None"
    using assms(5,6) by simp
  then show ?thesis
    using opened_get_header [OF assms(1)] opened_Size [OF assms(1)] assms(2,3) ch
    by (simp add: Cache_Load_def io_bind_def io_get_def io_ret_def io_undef_def Let_def sizeof_CacheHeader_def)
qed

text \<open>
  \<^verbatim>\<open>Destroy\<close> does not delete. For an open cache it returns False and leaves the file where it is
  whenever \<^verbatim>\<open>fclose\<close> succeeds, and in every case the stream is freed but still counts as open, so that
  the destructor closes it a second time, which is undefined behaviour.
\<close>

theorem Destroy_keeps_file:
  assumes "df_file c = OpenStream" and "df_data c = Some d"
  shows "(env_os env (df_calls c) \<longrightarrow>
      Cache_Destroy env c = Ret False (c\<lparr>cur_size := 0, df_calls := Suc (df_calls c), df_file := FreedStream\<rparr>))
    \<and> (\<forall>ok c'. Cache_Destroy env c = Ret ok c' \<longrightarrow> DiskCache_destructor env c' = Undef)"
proof (intro conjI impI allI)
  show "Cache_Destroy env c = Ret False (c\<lparr>cur_size := 0, df_calls := Suc (df_calls c), df_file := FreedStream\<rparr>)"
    if "env_os env (df_calls c)"
    using assms that by (simp add: Cache_Destroy_def Close_def IsOpen_def io_bind_def io_upd_def io_ret_def syscall_def)
  fix ok c' assume "Cache_Destroy env c = Ret ok c'"
  then have "df_file c' = FreedStream"
    using assms by (cases "env_os env (df_calls c)"; cases "env_os env (Suc (df_calls c))")
      (auto simp: Cache_Destroy_def Close_def File_Delete_def IsOpen_def io_bind_def io_upd_def io_ret_def io_throws_def syscall_def)
  then show "DiskCache_destructor env c' = Undef"
    by (auto simp: DiskCache_destructor_def io_seq_def io_bind_def io_upd_def io_ret_def IsMapped_def Size_def IsOpen_def Unmap_def
        syscall_def File_destructor_def Close_def split: option.split)
qed

theorem Destroy_keeps_file_witness:
  "\<exists>c'. Cache_Destroy demo_env wide_cache = Ret False c' \<and> df_data c' = df_data wide_cache \<and> DiskCache_destructor demo_env c' = Undef"
proof -
  have "df_file wide_cache = OpenStream" "\<exists>d. df_data wide_cache = Some d" by (simp_all add: wide_cache_def)
  then show ?thesis using Destroy_keeps_file [of wide_cache _ demo_env] demo_env_ok(1) by fastforce
qed

end
