(* ===== verification/Tracker_Flush.thy ===== *)
theory Tracker_Flush
  imports Tracker Cache_Durability
begin

text \<open>
  What flushing a message does (\<^verbatim>\<open>FlushTracker\<close> in \<^verbatim>\<open>source/tracker/tracker_impl.cpp\<close>), over the cache files
  of \<open>Disk_Cache\<close>: where the message goes, that nothing else changes, and the call sequences that leave
  the defined behaviour.
\<close>

section \<open>What the caches hold\<close>

definition holds_all :: "track_env \<Rightarrow> tracker \<Rightarrow> (nat \<Rightarrow> TrackerConfig \<times> (u32 \<times> TrackMsgCacheProto) list) \<Rightarrow> bool" where
  "holds_all env s f \<longleftrightarrow>
     (\<forall>h i k. (h, i, k) \<in> entries s \<longrightarrow>
        config_ok h (fst (f k)) \<and> cache_holds (te_cache env) (fst (f k)) (snd (f k)) (trk_objs s k))"

definition free_files :: "tracker \<Rightarrow> bool" where
  "free_files s \<longleftrightarrow> (\<forall>h. \<forall>i<MAX_CACHE_COUNT. \<not> tracker_cache_ids s h ! i \<longrightarrow> trk_files s (DiskCachePath h (of_nat i)) = None)"

text \<open>
  The library functions stay the same while the clock, the system calls and the uninitialised memory
  differ from one operation to the next. The request under way carries the readable messages of its cache.
\<close>

definition same_lib :: "track_env \<Rightarrow> track_env \<Rightarrow> bool" where
  "same_lib env env' \<longleftrightarrow> env_msg (te_cache env) = env_msg (te_cache env') \<and> env_cfg (te_cache env) = env_cfg (te_cache env')
     \<and> up_group (te_upload env) = up_group (te_upload env') \<and> up_lz4 (te_upload env) = up_lz4 (te_upload env')"

definition carries :: "track_env \<Rightarrow> TrackerConfig \<Rightarrow> (u32 \<times> TrackMsgCacheProto) list \<Rightarrow> string \<times> pairs \<times> u8 list \<Rightarrow> bool" where
  "carries env cfg ms rq \<longleftrightarrow> (\<exists>env'. same_lib env env'
     \<and> upload_request (te_upload env') cfg (map (loaded (te_cache env') (Some cfg)) ms) = Some (Inr rq))"

definition pending_ok :: "track_env \<Rightarrow> tracker \<Rightarrow> (nat \<Rightarrow> TrackerConfig \<times> (u32 \<times> TrackMsgCacheProto) list) \<Rightarrow> bool" where
  "pending_ok env s f \<longleftrightarrow> (\<forall>h i k rq. trk_pending s = Some (h, i, k, rq) \<longrightarrow>
     carries env (fst (f k)) (filter readable (snd (f k))) rq)"

definition trk_ok :: "track_env \<Rightarrow> (nat \<Rightarrow> TrackerConfig \<times> (u32 \<times> TrackMsgCacheProto) list) \<Rightarrow> (u64 \<times> u32 \<times> nat) set \<Rightarrow> tracker \<Rightarrow> bool" where
  "trk_ok env f E s \<longleftrightarrow> trk_inv s \<and> holds_all env s f \<and> pending_ok env s f \<and> free_files s \<and> entries s = E"

lemma carriesI:
  "upload_request (te_upload env) cfg (map (loaded (te_cache env) (Some cfg)) ms) = Some (Inr rq) \<Longrightarrow> carries env cfg ms rq"
  by (auto simp: carries_def same_lib_def)

lemma cache_holds_calls [simp]: "cache_holds env cfg ms (c\<lparr>df_calls := n\<rparr>) = cache_holds env cfg ms c"
  by (simp add: cache_holds_def)

lemma same_object: "(c\<lparr>df_calls := n\<rparr>)\<lparr>df_calls := m\<rparr> = c\<lparr>df_calls := m\<rparr>" for c :: disk_cache
  by simp

lemma on_cache_reads:
  assumes ok: "trk_ok env f E s" and k: "(h', i, k) \<in> E"
    and m: "\<And>c. cache_holds (te_cache env) (fst (f k)) (snd (f k)) c \<Longrightarrow> m c = Ret a c"
  shows "\<exists>s'. on_cache k m s = Ret a s' \<and> trk_ok env f E s' \<and> shape s' = shape s \<and> s' = s\<lparr>trk_objs := trk_objs s'\<rparr>"
proof -
  let ?c = "(trk_objs s k)\<lparr>df_calls := trk_calls s\<rparr>"
  let ?s' = "s\<lparr>trk_objs := (trk_objs s)(k := ?c)\<rparr>"
  have "cache_holds (te_cache env) (fst (f k)) (snd (f k)) (trk_objs s k)"
    using ok k by (auto simp: trk_ok_def holds_all_def)
  then have "on_cache k m s = Ret a ?s'" using m [of ?c] by (simp add: on_cache_def)
  moreover have sh: "shape ?s' = shape s" by (simp add: shape_def)
  moreover have "entries ?s' = entries s" by (simp add: entries_def)
  then have "trk_ok env f E ?s'"
    using ok trk_inv_shape [OF sh] by (auto simp: trk_ok_def holds_all_def pending_ok_def free_files_def)
  ultimately show ?thesis by auto
qed

lemma GetCount_holds:
  "cache_holds env cfg ms c \<Longrightarrow> GetCount c = Ret (of_nat (length ms)) c"
  using holds_get_header [of env cfg ms c] by (simp add: GetCount_def io_bind_def io_ret_def holds_header_def)

lemma Upload_ok:
  assumes wf: "wire_format (env_msg (te_cache env)) utf8_msg"
  shows "io_keeps (trk_ok env f E) (UploadTrackerCacheAsync env h' i)"
proof (rule io_specI)
  fix s assume ok: "trk_ok env f E s"
  have inv: "trk_inv s" using ok by (simp add: trk_ok_def)
  show "trk_ok env f E s'" if r: "UploadTrackerCacheAsync env h' i s = Ret u s'" for u s'
    using r
  proof (cases rule: UploadTrackerCacheAsync_cases)
    case (3 k s1 rq)
    let ?s0 = "s\<lparr>trackers_cache := (trackers_cache s)(h' := map_erase i (trackers_cache s h')), uploading := True\<rparr>"
    have k: "(h', i, k) \<in> E" using 3(3) ok map_of_SomeD by (fastforce simp: trk_ok_def entries_def)
    have c: "cache_holds (te_cache env) (fst (f k)) (snd (f k)) (trk_objs s k)"
      using ok k by (auto simp: trk_ok_def holds_all_def)
    have "start_upload env h' i k ?s0 = Ret u s'" using r 3(2,3) by (simp add: UploadTrackerCacheAsync_def)
    moreover have "on_cache k (Cache_Load (te_cache env)) ?s0
        = Ret (map (loaded (te_cache env) (Some (fst (f k)))) (filter readable (snd (f k)))) (?s0\<lparr>trk_objs := (trk_objs s)(k := (trk_objs s k)\<lparr>df_calls := trk_calls s\<rparr>)\<rparr>)"
      using Cache_Load_holds [OF wf] c by (simp add: on_cache_def)
    moreover have "dc_config (trk_objs s k) = Some (fst (f k))" using c by (simp add: cache_holds_def)
    ultimately have "trk_objs s' = (trk_objs s)(k := (trk_objs s k)\<lparr>df_calls := trk_calls s\<rparr>) \<and> trk_files s' = trk_files s
        \<and> pending_ok env s' f"
      by (auto simp: start_upload_def io_bind_def io_get_def io_upd_def io_undef_def pending_ok_def carriesI split: option.splits sum.splits)
    moreover have "trk_inv s'" "entries s' = entries s" using upload_inv [OF inv 3(2,3,4)] 3(1) by auto
    moreover have "tracker_cache_ids s' = tracker_cache_ids s" using 3(1,4) by (auto simp: shape_def)
    ultimately show ?thesis using ok by (auto simp: trk_ok_def holds_all_def free_files_def)
  qed (use ok in auto)
  show "trk_ok env f E s'" if "UploadTrackerCacheAsync env h' i s = Throw e s'" for e s'
    using that by (cases rule: UploadTrackerCacheAsync_cases) auto
qed

text \<open>A cache in the map is not being uploaded.\<close>

lemma map_not_pending:
  assumes "trk_inv s" and "(i, k) \<in> set (trackers_cache s h)" and "trk_pending s = Some (h', i', k', rq)"
  shows "k' \<noteq> k"
proof
  assume "k' = k"
  moreover have "(h, i, k) \<in> entries s" "(h', i', k') \<in> entries s" using assms(2,3) by (cases rq, auto simp: entries_def)+
  ultimately have "h = h' \<and> i = i'" using trk_invD(4) [OF assms(1)] by blast
  then show False using assms(2) trk_invD(7) [OF assms(1,3)] by force
qed

definition trk_at :: "track_env \<Rightarrow> (nat \<Rightarrow> TrackerConfig \<times> (u32 \<times> TrackMsgCacheProto) list) \<Rightarrow> (u64 \<times> u32 \<times> nat) set
    \<Rightarrow> (u64 \<Rightarrow> (u32 \<times> nat) list) \<Rightarrow> tracker \<Rightarrow> bool" where
  "trk_at env f E M s \<longleftrightarrow> trk_ok env f E s \<and> trackers_cache s = M"

text \<open>A push on one of the caches.\<close>

lemma TrackerCache_Push_ok:
  assumes os: "\<forall>n. env_os (te_cache env) n" and k: "(i, k) \<in> set (M h)"
  shows "io_spec (trk_at env f E M) (TrackerCache_Push env msg k)
    (\<lambda>ok s. trk_at env (if ok then f(k := (fst (f k), snd (f k) @ [stored msg])) else f) E M s) (\<lambda>_. False)"
proof -
  let ?cf = "fst (f k)" and ?ms = "snd (f k)" and ?env = "te_cache env"
  let ?Q = "\<lambda>ok s. trk_at env (if ok then f(k := (?cf, ?ms @ [stored msg])) else f) E M s"
  have "io_spec (trk_at env f E M) (on_cache k (Cache_Push ?env msg)) ?Q (\<lambda>_. False)"
    unfolding io_spec_def
  proof (intro allI impI)
    fix s assume at: "trk_at env f E M s"
    then have ok: "trk_ok env f E s" and inm: "(i, k) \<in> set (trackers_cache s h)" using k by (simp_all add: trk_at_def)
    let ?c = "(trk_objs s k)\<lparr>df_calls := trk_calls s\<rparr>"
    have "(h, i, k) \<in> entries s" using inm by (simp add: entries_def)
    then have c: "cache_holds ?env ?cf ?ms ?c" using ok by (auto simp: trk_ok_def holds_all_def)
    have upd: "trk_at env g E M (s\<lparr>trk_objs := (trk_objs s)(k := c'), trk_calls := n\<rparr>)"
      if "cache_holds ?env (fst (g k)) (snd (g k)) c'" "\<And>k'. k' \<noteq> k \<Longrightarrow> g k' = f k'" "fst (g k) = fst (f k)" for g c' n
    proof -
      let ?s' = "s\<lparr>trk_objs := (trk_objs s)(k := c'), trk_calls := n\<rparr>"
      have "shape ?s' = shape s" "entries ?s' = entries s" by (simp_all add: shape_def entries_def)
      moreover have "pending_ok env ?s' g"
        using ok that(2) map_not_pending [OF _ inm] by (auto simp: pending_ok_def trk_ok_def)
      ultimately show ?thesis using ok at that trk_inv_shape [of ?s' s] by (auto simp: trk_at_def trk_ok_def holds_all_def free_files_def)
    qed
    show "case on_cache k (Cache_Push ?env msg) s of Ret ok s' \<Rightarrow> ?Q ok s' | Throw _ _ \<Rightarrow> False | Undef \<Rightarrow> True"
    proof (cases "Cache_Push ?env msg ?c")
      case (Ret ok c')
      have "if ok then cache_holds ?env ?cf (?ms @ [stored msg]) c' else cache_holds ?env ?cf ?ms c'"
        using Cache_Push_holds [OF os c refl, of msg] Ret c by (fastforce simp: stored_def not_less)
      then show ?thesis using Ret by (auto simp: on_cache_def intro!: upd)
    next
      case (Throw e c')
      then show ?thesis using Cache_Push_holds [OF os c refl, of msg] by (fastforce simp: not_less)
    qed (simp add: on_cache_def)
  qed
  then show ?thesis unfolding TrackerCache_Push_def by (rule io_spec_catch) (simp add: io_spec_def)
qed

text \<open>The message has been stored: one cache gained it, at the end, and every other cache is as before.\<close>

definition stored_once :: "track_env \<Rightarrow> u64 \<Rightarrow> track_msg \<Rightarrow> (nat \<Rightarrow> TrackerConfig \<times> (u32 \<times> TrackMsgCacheProto) list)
    \<Rightarrow> (u64 \<times> u32 \<times> nat) set \<Rightarrow> tracker \<Rightarrow> bool" where
  "stored_once env h msg f E s \<longleftrightarrow>
     (\<exists>i k old cfg. (entries s = E \<and> (h, i, k) \<in> E \<and> old = snd (f k)
          \<or> entries s = insert (h, i, k) E \<and> (\<forall>h' i'. (h', i', k) \<notin> E) \<and> old = [])
        \<and> trk_ok env (f(k := (cfg, old @ [stored msg]))) (entries s) s)"

lemma GetCount_ok:
  assumes "(h', i, k) \<in> E"
  shows "io_spec (trk_at env f E M) (on_cache k GetCount) (\<lambda>_. trk_at env f E M) (\<lambda>_. False)"
  unfolding io_spec_def
proof (intro allI impI)
  fix s assume at: "trk_at env f E M s"
  then have "trk_ok env f E s" by (simp add: trk_at_def)
  from on_cache_reads [OF this assms, of GetCount] GetCount_holds
  obtain n s' where "on_cache k GetCount s = Ret n s'" "trk_ok env f E s'" "shape s' = shape s" by blast
  with at show "case on_cache k GetCount s of Ret _ s' \<Rightarrow> trk_at env f E M s' | Throw _ _ \<Rightarrow> False | Undef \<Rightarrow> True"
    by (simp add: trk_at_def shape_def)
qed

lemma Upload_ok':
  assumes "wire_format (env_msg (te_cache env)) utf8_msg"
  shows "io_spec (trk_ok env f E) (UploadTrackerCacheAsync env h' i) (\<lambda>_. trk_ok env f E) (\<lambda>_. False)"
proof -
  have "UploadTrackerCacheAsync env h' i s \<noteq> Throw e s'" for s e s'
  proof
    assume "UploadTrackerCacheAsync env h' i s = Throw e s'"
    then show False by (cases rule: UploadTrackerCacheAsync_cases) auto
  qed
  then show ?thesis using io_specD(1) [OF Upload_ok [OF assms]] by (intro io_specI) auto
qed

lemma Upload_at:
  assumes "wire_format (env_msg (te_cache env)) utf8_msg"
  shows "io_spec (trk_at env f E M) (UploadTrackerCacheAsync env h i)
    (\<lambda>_ s. trk_ok env f E s \<and> (trackers_cache s = M \<or> (\<forall>k. (i, k) \<notin> set (trackers_cache s h)))) (\<lambda>_. False)"
proof (rule io_specI)
  fix s assume at: "trk_at env f E M s"
  then have ok: "trk_ok env f E s" by (simp add: trk_at_def)
  show False if "UploadTrackerCacheAsync env h i s = Throw e s'" for e s'
    using that by (cases rule: UploadTrackerCacheAsync_cases) auto
  show "trk_ok env f E s' \<and> (trackers_cache s' = M \<or> (\<forall>k. (i, k) \<notin> set (trackers_cache s' h)))"
    if r: "UploadTrackerCacheAsync env h i s = Ret a s'" for a s'
  proof -
    have "trackers_cache s' = M \<or> (\<forall>k. (i, k) \<notin> set (trackers_cache s' h))"
      using r
    proof (cases rule: UploadTrackerCacheAsync_cases)
      case 2
      then show ?thesis using at by (simp add: trk_at_def)
    next
      case (3 k s1 rq)
      then show ?thesis by (simp add: shape_def)
    qed auto
    then show ?thesis using io_specD(1) [OF Upload_ok' [OF assms] ok r] by simp
  qed
qed

lemma flush_loop_ok:
  assumes os: "\<forall>n. env_os (te_cache env) n" and wf: "wire_format (env_msg (te_cache env)) utf8_msg"
  shows "\<forall>(i, k)\<in>set xs. (i, k) \<in> set (M h) \<and> (h, i, k) \<in> E \<Longrightarrow>
    io_spec (trk_at env f E M) (flush_loop env h msg xs)
      (\<lambda>pushed s. if pushed then stored_once env h msg f E s else trk_ok env f E s) (\<lambda>_. False)"
proof (induction xs)
  case Nil
  show ?case unfolding flush_loop.simps by (rule io_spec_ret) (simp add: trk_at_def)
next
  case (Cons x xs)
  obtain i k where x: "x = (i, k)" by (cases x)
  let ?Q = "\<lambda>pushed s. if pushed then stored_once env h msg f E s else trk_ok env f E s"
  let ?f' = "f(k := (fst (f k), snd (f k) @ [stored msg]))"
  from Cons x have m: "(i, k) \<in> set (M h)" and k: "(h, i, k) \<in> E"
    and IH: "io_spec (trk_at env f E M) (flush_loop env h msg xs) ?Q (\<lambda>_. False)" by auto
  have fin: "stored_once env h msg f E s" if "trk_ok env ?f' E s" for s
  proof -
    have "entries s = E" using that by (simp add: trk_ok_def)
    then show ?thesis unfolding stored_once_def using that k by blast
  qed
  let ?R = "\<lambda>present s. trk_ok env f E s \<and> (trackers_cache s = M \<or> \<not> present)"
  have go_on: "io_spec (?R present) (if present then flush_loop env h msg xs else io_undef) ?Q (\<lambda>_. False)" for present
  proof (cases present)
    case True
    then show ?thesis unfolding if_P [OF True] by (intro io_spec_pre [OF IH]) (simp add: trk_at_def)
  qed (simp add: io_spec_undef)
  have full: "io_spec (trk_at env f E M) (io_seq (UploadTrackerCacheAsync env h i)
        (io_bind (io_get (\<lambda>s. (i, k) \<in> set (trackers_cache s h))) (\<lambda>present. if present then flush_loop env h msg xs else io_undef)))
      ?Q (\<lambda>_. False)"
    by (rule io_spec_seq [OF Upload_at [OF wf]], rule io_spec_bind [OF _ go_on], rule io_spec_get) blast
  have after: "io_spec (trk_at env ?f' E M) (io_bind (on_cache k GetCount) (\<lambda>n.
         io_seq (if n \<ge> UPLOAD_TRACKER_COUNT then UploadTrackerCacheAsync env h i else io_ret ()) (io_ret True))) ?Q (\<lambda>_. False)"
  proof (rule io_spec_bind [OF GetCount_ok [OF k]])
    fix n :: u32
    have "io_spec (trk_at env ?f' E M) (if n \<ge> UPLOAD_TRACKER_COUNT then UploadTrackerCacheAsync env h i else io_ret ())
        (\<lambda>_. trk_ok env ?f' E) (\<lambda>_. False)"
      by (rule io_spec_if, rule io_spec_pre [OF Upload_ok' [OF wf]], simp add: trk_at_def, rule io_spec_ret, simp add: trk_at_def)
    then show "io_spec (trk_at env ?f' E M)
        (io_seq (if n \<ge> UPLOAD_TRACKER_COUNT then UploadTrackerCacheAsync env h i else io_ret ()) (io_ret True)) ?Q (\<lambda>_. False)"
      by (rule io_spec_seq) (simp add: io_spec_ret fin)
  qed
  have push: "io_spec (trk_at env f E M) (io_bind (TrackerCache_Push env msg k) (\<lambda>pushed.
       if pushed then
         io_bind (on_cache k GetCount) (\<lambda>n.
         io_seq (if n \<ge> UPLOAD_TRACKER_COUNT then UploadTrackerCacheAsync env h i else io_ret ()) (io_ret True))
       else flush_loop env h msg xs)) ?Q (\<lambda>_. False)"
    by (rule io_spec_bind [OF TrackerCache_Push_ok [where M = M and h = h, OF os m]], rule io_spec_if) (simp_all add: after IH)
  show ?case
    unfolding x flush_loop.simps
  proof (rule io_spec_bind [OF GetCount_ok [OF k]])
    fix n :: u32
    show "io_spec (trk_at env f E M) (io_bind (io_get tracker_group_size) (\<lambda>group_size.
     if n \<ge> group_size then
       io_seq (UploadTrackerCacheAsync env h i)
      (io_bind (io_get (\<lambda>s. (i, k) \<in> set (trackers_cache s h))) (\<lambda>present.
       if present then flush_loop env h msg xs else io_undef))
     else
       io_bind (TrackerCache_Push env msg k) (\<lambda>pushed.
       if pushed then
         io_bind (on_cache k GetCount) (\<lambda>n.
         io_seq (if n \<ge> UPLOAD_TRACKER_COUNT then UploadTrackerCacheAsync env h i else io_ret ()) (io_ret True))
       else flush_loop env h msg xs))) ?Q (\<lambda>_. False)"
      by (rule io_spec_bind [where R = "\<lambda>_. trk_at env f E M"], simp add: io_spec_get, rule io_spec_if [OF full push])
  qed
qed

text \<open>Nothing was stored: every cache is as before, and a cache that is new is empty.\<close>

definition stored_none :: "track_env \<Rightarrow> u64 \<Rightarrow> (nat \<Rightarrow> TrackerConfig \<times> (u32 \<times> TrackMsgCacheProto) list)
    \<Rightarrow> (u64 \<times> u32 \<times> nat) set \<Rightarrow> tracker \<Rightarrow> bool" where
  "stored_none env h f E s \<longleftrightarrow>
     (\<exists>f'. trk_ok env f' (entries s) s \<and> E \<subseteq> entries s \<and> (\<forall>h' i' k. (h', i', k) \<in> E \<longrightarrow> f' k = f k)
        \<and> (\<forall>h' i' k. (h', i', k) \<in> entries s - E \<longrightarrow> snd (f' k) = []))"

lemma stored_none_same: "trk_ok env f E s \<Longrightarrow> stored_none env h f E s"
  unfolding stored_none_def trk_ok_def by (rule exI [of _ f]) simp

definition cache_added :: "track_env \<Rightarrow> u64 \<Rightarrow> TrackerConfig \<Rightarrow> (nat \<Rightarrow> TrackerConfig \<times> (u32 \<times> TrackMsgCacheProto) list)
    \<Rightarrow> (u64 \<times> u32 \<times> nat) set \<Rightarrow> u32 \<Rightarrow> nat \<Rightarrow> tracker \<Rightarrow> bool" where
  "cache_added env h cfg f E i k s \<longleftrightarrow> (\<forall>h' i'. (h', i', k) \<notin> E) \<and> (i, k) \<in> set (trackers_cache s h)
     \<and> trk_ok env (f(k := (cfg, []))) (insert (h, i, k) E) s"

lemma CreateCache_ok:
  assumes os: "\<forall>n. env_os (te_cache env) n" and cfg: "config_ready (te_cache env) h cfg0 cfg" and i: "i < MAX_CACHE_COUNT"
  shows "io_spec (\<lambda>s. trk_ok env f E s \<and> \<not> tracker_cache_ids s h ! i) (CreateCache env h (of_nat i) (Some cfg0))
    (\<lambda>r s. \<exists>k. r = Some k \<and> cache_added env h cfg f E (of_nat i) k s) (\<lambda>_. False)"
  unfolding io_spec_def
proof (intro allI impI)
  fix s assume s: "trk_ok env f E s \<and> \<not> tracker_cache_ids s h ! i"
  let ?i = "of_nat i :: u32" and ?k = "trk_next s"
  have u: "unat ?i = i" using i by (simp add: MAX_CACHE_COUNT_def unat_of_nat take_bit_eq_mod)
  have inv: "trk_inv s" and E: "entries s = E" using s by (simp_all add: trk_ok_def)
  have "trk_files s (DiskCachePath h ?i) = None" using s i by (simp add: trk_ok_def free_files_def)
  then obtain c where c: "Cache_Init (te_cache env) (new_DiskCache (trk_files s (DiskCachePath h ?i)) (trk_dir s) (trk_calls s) h (Some cfg0)) = Ret () c"
      "cache_holds (te_cache env) cfg [] c"
    using Init_creates [OF os cfg, of "trk_files s (DiskCachePath h ?i)"] by auto
  define s1 where "s1 = s\<lparr>trk_objs := (trk_objs s)(?k := c), trk_next := Suc ?k, trk_dir := df_parent c, trk_calls := df_calls c\<rparr>"
  have n: "new_TrackerCache env (DiskCachePath h ?i) h (Some cfg0) s = Ret ?k s1"
    using c(1) by (simp add: new_TrackerCache_def s1_def)
  obtain s2 where s2: "io_seq (set_id h ?i True) (io_seq (emplace_cache env (DiskCachePath h ?i) h ?i ?k) (io_ret (Some ?k))) s1 = Ret (Some ?k) s2"
      "trk_inv s2" "entries s2 = insert (h, ?i, ?k) E"
      "s2 = s1\<lparr>tracker_cache_ids := tracker_cache_ids s2, trackers_cache := trackers_cache s2\<rparr>"
    using create_at_free(1) [OF inv _ _ n, of ?i] s u i E by auto
  have ids: "tracker_cache_ids s2 = (tracker_cache_ids s)(h := (tracker_cache_ids s h)[i := True])"
    using s2(1) u i by (auto simp: io_seq_def io_bind_def set_id_def emplace_cache_def io_ret_def s1_def release_def on_cache_def io_upd_def
        split: if_splits outcome.splits)
  have t: "trk_objs s2 = (trk_objs s)(?k := c)" "trk_files s2 = trk_files s" "trk_pending s2 = trk_pending s"
    by (subst s2(4), simp add: s1_def)+
  have fresh: "(h', i', ?k) \<notin> E" for h' i' using trk_invD(5) [OF inv, of h' i' ?k] E by auto
  have "free_files s2"
    using s i trk_invD(1) [OF inv, of h] by (auto simp: free_files_def trk_ok_def t ids nth_list_update split: if_splits)
  moreover have "holds_all env s2 (f(?k := (cfg, [])))"
    using s c(2) fresh E cfg by (auto simp: holds_all_def s2(3) t trk_ok_def config_ready_def)
  moreover have old: "k' \<noteq> ?k" if "trk_pending s = Some (h', i', k', rq)" for h' i' k' rq
    using that fresh [of h' i'] E by (cases rq) (auto simp: entries_def)
  then have "pending_ok env s2 (f(?k := (cfg, [])))" using s by (auto simp: pending_ok_def t trk_ok_def)
  ultimately have "trk_ok env (f(?k := (cfg, []))) (insert (h, ?i, ?k) E) s2" using s2 by (simp add: trk_ok_def)
  moreover have "(h, ?i, ?k) \<in> entries s2" using s2(3) by simp
  then have "(?i, ?k) \<in> set (trackers_cache s2 h)" using old t(3) by (auto simp: entries_def)
  ultimately have "cache_added env h cfg f E ?i ?k s2" using fresh by (simp add: cache_added_def)
  moreover have "CreateCache env h ?i (Some cfg0) s = Ret (Some ?k) s2"
    using n s2(1) by (simp add: CreateCache_def io_catch_def io_bind_def)
  ultimately show "case CreateCache env h ?i (Some cfg0) s of Ret r s' \<Rightarrow> \<exists>k. r = Some k \<and> cache_added env h cfg f E ?i k s'
      | Throw _ _ \<Rightarrow> False | Undef \<Rightarrow> True" by auto
qed

lemma push_new_ok:
  assumes os: "\<forall>n. env_os (te_cache env) n"
  shows "io_spec (cache_added env h cfg f E i k) (TrackerCache_Push env msg k)
    (\<lambda>pushed s. if pushed then stored_once env h msg f E s else stored_none env h f E s) (\<lambda>_. False)"
proof (rule io_specI)
  let ?f = "f(k := (cfg, []))" and ?E = "insert (h, i, k) E"
  fix s assume s: "cache_added env h cfg f E i k s"
  let ?M = "trackers_cache s"
  have ok: "trk_at env ?f ?E ?M s" and fresh: "\<forall>h' i'. (h', i', k) \<notin> E" and m: "(i, k) \<in> set (?M h)"
    using s by (simp_all add: cache_added_def trk_at_def)
  have push: "io_spec (trk_at env ?f ?E ?M) (TrackerCache_Push env msg k)
    (\<lambda>ok s. trk_at env (if ok then ?f(k := (cfg, [stored msg])) else ?f) ?E ?M s) (\<lambda>_. False)"
    using TrackerCache_Push_ok [where M = ?M and h = h and f = ?f and E = ?E and msg = msg, OF os m]
    unfolding fun_upd_same fst_conv snd_conv append_Nil by blast
  show "False" if "TrackerCache_Push env msg k s = Throw e s'" for e s' using io_specD(2) [OF push ok that] .
  fix pushed s' assume r: "TrackerCache_Push env msg k s = Ret pushed s'"
  have q: "trk_ok env (if pushed then ?f(k := (cfg, [stored msg])) else ?f) ?E s'"
    using io_specD(1) [OF push ok r] by (simp add: trk_at_def)
  have E: "entries s' = ?E" using q by (simp add: trk_ok_def)
  show "if pushed then stored_once env h msg f E s' else stored_none env h f E s'"
  proof (cases pushed)
    case True
    then have "trk_ok env (f(k := (cfg, [] @ [stored msg]))) (entries s') s'" using q E by simp
    then have "stored_once env h msg f E s'"
      unfolding stored_once_def using fresh E by (intro exI [of _ i] exI [of _ k] exI [of _ "[]"]) auto
    then show ?thesis using True by simp
  next
    case False
    then have "trk_ok env ?f (entries s') s'" using q E by simp
    then have "stored_none env h f E s'"
      unfolding stored_none_def using fresh E by (intro exI [of _ ?f]) auto
    then show ?thesis using False by simp
  qed
qed

lemma create_loop_ok:
  assumes os: "\<forall>n. env_os (te_cache env) n" and cfg: "config_ready (te_cache env) h cfg0 cfg"
  shows "\<forall>i\<in>set is. i < MAX_CACHE_COUNT \<Longrightarrow>
    io_spec (trk_ok env f E) (create_loop env h msg (Some cfg0) is)
      (\<lambda>pushed s. if pushed then stored_once env h msg f E s else stored_none env h f E s) (\<lambda>_. False)"
proof (induction "is")
  case Nil
  then show ?case by (simp add: io_spec_ret stored_none_same)
next
  case (Cons i "is")
  let ?Q = "\<lambda>pushed s. if pushed then stored_once env h msg f E s else stored_none env h f E s"
  from Cons have IH: "io_spec (trk_ok env f E) (create_loop env h msg (Some cfg0) is) ?Q (\<lambda>_. False)" and i: "i < MAX_CACHE_COUNT" by auto
  have new: "io_spec (\<lambda>s. \<exists>k. r = Some k \<and> cache_added env h cfg f E (of_nat i) k s)
      (case r of Some k \<Rightarrow> TrackerCache_Push env msg k | None \<Rightarrow> create_loop env h msg (Some cfg0) is) ?Q (\<lambda>_. False)" for r
    using push_new_ok [OF os, of h cfg f E "of_nat i" _ msg] by (cases r) (simp_all add: io_spec_def)
  show ?case
    unfolding create_loop.simps
  proof (rule io_spec_bind)
    show "io_spec (trk_ok env f E) (io_get (\<lambda>s. tracker_cache_ids s h ! i))
        (\<lambda>taken s. trk_ok env f E s \<and> taken = tracker_cache_ids s h ! i) (\<lambda>_. False)"
      by (simp add: io_spec_get)
    show "io_spec (\<lambda>s. trk_ok env f E s \<and> taken = tracker_cache_ids s h ! i)
        (if taken then create_loop env h msg (Some cfg0) is
         else io_bind (CreateCache env h (of_nat i) (Some cfg0))
           (\<lambda>r. case r of Some k \<Rightarrow> TrackerCache_Push env msg k | None \<Rightarrow> create_loop env h msg (Some cfg0) is)) ?Q (\<lambda>_. False)" for taken
    proof (rule io_spec_if)
      show "io_spec (\<lambda>s. trk_ok env f E s \<and> taken = tracker_cache_ids s h ! i) (create_loop env h msg (Some cfg0) is) ?Q (\<lambda>_. False)"
        by (rule io_spec_pre [OF IH]) simp
      assume "\<not> taken"
      then show "io_spec (\<lambda>s. trk_ok env f E s \<and> taken = tracker_cache_ids s h ! i) (io_bind (CreateCache env h (of_nat i) (Some cfg0))
           (\<lambda>r. case r of Some k \<Rightarrow> TrackerCache_Push env msg k | None \<Rightarrow> create_loop env h msg (Some cfg0) is)) ?Q (\<lambda>_. False)"
        by (intro io_spec_bind [OF io_spec_pre [OF CreateCache_ok [OF os cfg i]] new]) auto
    qed
  qed
qed

lemma stored_Flushed [simp]: "stored (Flushed (msg\<lparr>tm_config := c\<rparr>)) = stored msg"
  by (simp add: stored_def Flushed_def)

lemma stored_once_Flushed [simp]:
  "stored_once env h (Flushed (msg\<lparr>tm_config := c\<rparr>)) f E s = stored_once env h msg f E s"
  by (simp add: stored_once_def)

lemma config_ready_again: "config_ready env h cfg0 cfg \<Longrightarrow> config_ready env h cfg cfg"
  by (simp add: config_ready_def config_ok_Hash)

lemma flush_first:
  assumes os: "\<forall>n. env_os (te_cache env) n" and cfg: "config_ready (te_cache env) h cfg0 cfg" "tm_config msg = Some cfg0"
    and s: "trk_ok env f E s" "trk_inited s" "trackers_cache s h = []" "\<not> tracker_cache_ids s h ! 0"
    and msg: "\<not> flushed msg" "used_size (te_cache env) cfg [] + msg_bytes (te_cache env) msg \<le> cache_capability"
  shows "\<exists>msg' s' c'. FlushTracker env (Some msg) s = Ret (True, msg') s' \<and> trackers_cache s' h = [(0, trk_next s)]
    \<and> trk_inited s' \<and> tracker_group_size s' = tracker_group_size s \<and> uploading s' = uploading s
    \<and> trk_objs s' (trk_next s) = c' \<and> cache_holds (te_cache env) cfg [stored msg] c'"
proof -
  let ?msg = "Flushed (msg\<lparr>tm_config := Some cfg\<rparr>)"
  have "Config_Hash cfg0 = Some (h, cfg)" using cfg(1) by (simp add: config_ready_def)
  moreover have "trk_files s (DiskCachePath h 0) = None" using s(1,4) by (force simp: trk_ok_def free_files_def MAX_CACHE_COUNT_def)
  then obtain c where c: "Cache_Init (te_cache env) (new_DiskCache (trk_files s (DiskCachePath h 0)) (trk_dir s) (trk_calls s) h (Some cfg)) = Ret () c"
      "cache_holds (te_cache env) cfg [] c"
    using Init_creates [OF os config_ready_again [OF cfg(1)], of "trk_files s (DiskCachePath h 0)"] by auto
  let ?k = "trk_next s"
  define s2 where "s2 = s\<lparr>trk_objs := (trk_objs s)(?k := c), trk_next := Suc ?k, trk_dir := df_parent c, trk_calls := df_calls c,
     tracker_cache_ids := (tracker_cache_ids s)(h := (tracker_cache_ids s h)[0 := True]), trackers_cache := (trackers_cache s)(h := [(0, ?k)])\<rparr>"
  have create: "CreateCache env h 0 (Some cfg) s = Ret (Some ?k) s2"
    using c(1) s(3) by (simp add: CreateCache_def io_catch_def io_bind_def io_seq_def io_ret_def new_TrackerCache_def set_id_def emplace_cache_def
        MAX_CACHE_COUNT_def s2_def)
  have mb: "msg_bytes (te_cache env) ?msg = msg_bytes (te_cache env) msg"
    by (simp add: msg_bytes_def GetSerializeSize_def Flushed_def)
  have "cache_capability \<le> length (the (df_data c))" using c(2) by (auto simp: cache_holds_def file_holds_def)
  then obtain c' where push: "Cache_Push (te_cache env) ?msg c = Ret True c'" "cache_holds (te_cache env) cfg [stored msg] c'"
    using Cache_Push_holds(2) [OF os c(2) refl, of ?msg] msg(2) mb stored_Flushed [where msg = msg and c = "Some cfg"]
    by (auto simp: msg_bytes_def max_cache_size_def cache_capability_def stored_def)
  have "(c\<lparr>df_calls := df_calls c\<rparr>) = c" by simp
  then have pushed: "TrackerCache_Push env ?msg ?k s2 = Ret True (s2\<lparr>trk_objs := (trk_objs s)(?k := c'), trk_calls := df_calls c'\<rparr>)"
    using push(1) by (auto simp: TrackerCache_Push_def io_catch_def on_cache_def s2_def)
  have up: "[0..<MAX_CACHE_COUNT] = 0 # [Suc 0..<MAX_CACHE_COUNT]" by (simp add: MAX_CACHE_COUNT_def upt_conv_Cons)
  show ?thesis
    using calculation cfg(2) s(2,3,4) msg(1) create pushed push(2)
    by (simp add: FlushTracker_def Let_def IsFlushed_def io_bind_def io_ret_def up io_get_def) (simp add: s2_def)
qed

section \<open>Properties\<close>

text \<open>
  C4: the cache files of a configuration. In every state the tracker can reach, under any interleaving of
  flushes, timer checks and ends of uploads and any failures of the system, a configuration has at most
  16 caches in the map, with different indexes below 16; at most one upload runs, exactly while
  \<^verbatim>\<open>uploading\<close> is set; the cache it uploads is out of the map but keeps its index, so that no other
  cache opens the same file.
\<close>

theorem tracker_caches:
  assumes "trk_reachable env s"
  shows "length (trackers_cache s h) \<le> 16 \<and> distinct (map fst (trackers_cache s h))
    \<and> (\<forall>(i, k) \<in> set (trackers_cache s h). unat i < 16 \<and> tracker_cache_ids s h ! unat i)
    \<and> (uploading s \<longleftrightarrow> trk_pending s \<noteq> None)
    \<and> (\<forall>i k rq. trk_pending s = Some (h, i, k, rq) \<longrightarrow>
         i \<notin> fst ` set (trackers_cache s h) \<and> unat i < 16 \<and> tracker_cache_ids s h ! unat i)"
proof -
  have inv: "trk_inv s" using assms by (rule trk_reachable_inv)
  note D = trk_invD [OF inv]
  have used: "unat i < 16 \<and> tracker_cache_ids s h ! unat i" if "(h, i, k) \<in> entries s" for i k
    using entry_id [OF inv that] by (simp add: MAX_CACHE_COUNT_def)
  have mp: "\<forall>(i, k) \<in> set (trackers_cache s h). unat i < 16 \<and> tracker_cache_ids s h ! unat i"
    using used map_entry by fastforce
  have "inj_on (unat :: u32 \<Rightarrow> nat) A" for A by (auto intro: inj_onI simp: word_unat_eq_iff)
  then have "distinct (map unat (map fst (trackers_cache s h)))"
    using D(2) [of h] distinct_map [of unat "map fst (trackers_cache s h)"] by blast
  moreover have "set (map unat (map fst (trackers_cache s h))) \<subseteq> {..<16}" using mp by auto
  ultimately have "length (trackers_cache s h) \<le> 16"
    by (metis card_lessThan card_mono distinct_card finite_lessThan length_map)
  moreover have "i \<notin> fst ` set (trackers_cache s h) \<and> unat i < 16 \<and> tracker_cache_ids s h ! unat i"
    if "trk_pending s = Some (h, i, k, rq)" for i k rq
    using D(7) [OF that] used [of i k] that by (cases rq) (auto simp: entries_def)
  ultimately show ?thesis using D(2,6) mp by blast
qed

definition demo_track_env :: track_env where
  "demo_track_env = \<lparr>te_cache = demo_env, te_upload = \<lparr>up_group = (\<lambda>_. [1]), up_lz4 = id, up_time = 5, up_sha_buffers = (\<lambda>_. []),
     up_sha_words = (\<lambda>_. []), up_md5_buffer = replicate 64 0, up_md5_digest = []\<rparr>\<rparr>"

definition demo_tracker :: tracker where
  "demo_tracker = (tracker_start (\<lambda>_. None) True (\<lambda>_. new_DiskCache None True 0 0 None))\<lparr>tracker_group_size := 2000, check_posts := [0], trk_inited := True\<rparr>"

lemma demo_tracker_start:
  "Tracker_Init demo_track_env 0 True None (tracker_start (\<lambda>_. None) True (\<lambda>_. new_DiskCache None True 0 0 None)) = Ret () demo_tracker"
  by (simp add: Tracker_Init_def SyncLoadTrackersCache_def io_seq_def io_bind_def io_upd_def io_ret_def io_assert_step demo_tracker_def tracker_start_def)

lemma demo_tracker_ok:
  "trk_ok demo_track_env (\<lambda>_. (demo_config, [])) {} demo_tracker" "trk_inited demo_tracker" "trackers_cache demo_tracker h = []"
  "\<not> tracker_cache_ids demo_tracker h ! 0"
proof -
  have "trk_inv demo_tracker" by (rule trk_reachable_inv [OF trk_reachable.init [OF demo_tracker_start]])
  then show "trk_ok demo_track_env (\<lambda>_. (demo_config, [])) {} demo_tracker"
    by (simp add: trk_ok_def holds_all_def pending_ok_def free_files_def entries_def demo_tracker_def tracker_start_def)
  show "trk_inited demo_tracker" "trackers_cache demo_tracker h = []" "\<not> tracker_cache_ids demo_tracker h ! 0"
    by (simp_all add: demo_tracker_def tracker_start_def MAX_CACHE_COUNT_def)
qed

theorem tracker_caches_witness:
  "\<exists>msg' s'. FlushTracker demo_track_env (Some demo_msg) demo_tracker = Ret (True, msg') s'
     \<and> length (trackers_cache s' demo_hash) \<le> 16 \<and> (uploading s' \<longleftrightarrow> trk_pending s' \<noteq> None)"
proof -
  have env: "te_cache demo_track_env = demo_env" by (simp add: demo_track_env_def)
  have "tm_config demo_msg = Some demo_config" "\<not> flushed demo_msg"
    by (simp_all add: demo_msg_def new_TrackMessageImpl_def)
  moreover have "used_size demo_env (demo_config\<lparr>cfg_hash := demo_hash\<rparr>) [] + msg_bytes demo_env demo_msg \<le> cache_capability"
    by (simp add: demo_sizes used_size_def cache_capability_def)
  ultimately obtain msg' s' where r: "FlushTracker demo_track_env (Some demo_msg) demo_tracker = Ret (True, msg') s'"
    using flush_first [OF _ _ _ demo_tracker_ok] demo_env_ok(1) demo_ready unfolding env by blast
  have "trk_reachable demo_track_env s'"
    by (rule trk_reachable.step [OF trk_reachable.init [OF demo_tracker_start] trk_step.flush [OF r]])
  from tracker_caches [OF this, of demo_hash] r show ?thesis by blast
qed

lemma flush_outcome:
  assumes "\<forall>n. env_os (te_cache env) n" and "wire_format (env_msg (te_cache env)) utf8_msg"
    and "config_ready (te_cache env) h cfg0 cfg" and "tm_config msg = Some cfg0"
    and "trk_ok env f E s"
    and "FlushTracker env (Some msg) s = Ret (pushed, msg') s'"
  shows "if pushed then stored_once env h msg f E s' else stored_none env h f E s'"
proof -
  let ?m = "Flushed (msg\<lparr>tm_config := Some cfg\<rparr>)"
  let ?Q = "\<lambda>pushed s. if pushed then stored_once env h msg f E s else stored_none env h f E s"
  have hash: "Config_Hash cfg0 = Some (h, cfg)" using assms(3) by (simp add: config_ready_def)
  show ?thesis
  proof (cases "trk_inited s \<and> \<not> flushed msg")
    case False
    then have "pushed = False \<and> s' = s" using assms(4,6) hash by (auto simp: FlushTracker_def Let_def IsFlushed_def split: if_splits)
    then show ?thesis using assms(5) stored_none_same by simp
  next
    case True
    have E: "\<forall>(i, k)\<in>set (trackers_cache s h). (i, k) \<in> set (trackers_cache s h) \<and> (h, i, k) \<in> E"
      using assms(5) by (auto simp: trk_ok_def entries_def)
    have at: "trk_at env f E (trackers_cache s) s" using assms(5) by (simp add: trk_at_def)
    have rest: "io_spec (\<lambda>s. if p then stored_once env h ?m f E s else trk_ok env f E s)
        (if \<not> p then create_loop env h ?m (Some cfg) [0..<MAX_CACHE_COUNT] else io_ret True)
        (\<lambda>p s. if p then stored_once env h ?m f E s else stored_none env h f E s) (\<lambda>_. False)" for p
      using create_loop_ok [OF assms(1) config_ready_again [OF assms(3)], of "[0..<MAX_CACHE_COUNT]" f E ?m]
      by (cases p) (simp_all add: io_spec_ret)
    have spec: "io_spec (trk_at env f E (trackers_cache s)) (io_bind (flush_loop env h ?m (trackers_cache s h)) (\<lambda>pushed.
                        io_bind (if \<not> pushed then create_loop env h ?m (Some cfg) [0..<MAX_CACHE_COUNT] else io_ret True) (\<lambda>pushed.
                        io_ret (pushed, Some ?m)))) (\<lambda>(p, _). ?Q p) (\<lambda>_. False)"
      by (rule io_spec_bind [OF flush_loop_ok [where M = "trackers_cache s", OF assms(1,2) E]], rule io_spec_bind [OF rest]) (simp add: io_spec_ret)
    have run: "io_bind (flush_loop env h ?m (trackers_cache s h)) (\<lambda>pushed.
                        io_bind (if \<not> pushed then create_loop env h ?m (Some cfg) [0..<MAX_CACHE_COUNT] else io_ret True) (\<lambda>pushed.
                        io_ret (pushed, Some ?m))) s = Ret (pushed, msg') s'"
      using assms(4,6) hash True by (simp add: FlushTracker_def Let_def IsFlushed_def)
    from io_specD(1) [OF spec at run] show ?thesis by simp
  qed
qed

text \<open>
  C9: where a flushed message goes. On a system whose calls succeed, a flush that returns True has put the
  message at the end of exactly one cache of its configuration, possibly a new one, and every other cache
  holds what it held; a flush that returns False has changed no cache. Uploads that the flush starts keep
  what is stored.
\<close>

theorem flush_stores:
  assumes "\<forall>n. env_os (te_cache env) n" and "wire_format (env_msg (te_cache env)) utf8_msg"
    and "config_ready (te_cache env) h cfg0 cfg" and "tm_config msg = Some cfg0"
    and "trk_ok env f E s"
    and "FlushTracker env (Some msg) s = Ret (pushed, msg') s'"
  shows "if pushed then stored_once env h msg f E s' else stored_none env h f E s'"
  using assms by (rule flush_outcome)

theorem flush_stores_witness:
  "\<exists>msg' s'. FlushTracker demo_track_env (Some demo_msg) demo_tracker = Ret (True, msg') s'
     \<and> stored_once demo_track_env demo_hash demo_msg (\<lambda>_. (demo_config, [])) {} s'"
proof -
  have env: "te_cache demo_track_env = demo_env" by (simp add: demo_track_env_def)
  have m: "tm_config demo_msg = Some demo_config" "\<not> flushed demo_msg"
    by (simp_all add: demo_msg_def new_TrackMessageImpl_def)
  moreover have "used_size demo_env (demo_config\<lparr>cfg_hash := demo_hash\<rparr>) [] + msg_bytes demo_env demo_msg \<le> cache_capability"
    by (simp add: demo_sizes used_size_def cache_capability_def)
  ultimately obtain msg' s' where r: "FlushTracker demo_track_env (Some demo_msg) demo_tracker = Ret (True, msg') s'"
    using flush_first [OF _ _ _ demo_tracker_ok] demo_env_ok(1) demo_ready unfolding env by blast
  from flush_stores [OF _ _ _ m(1) demo_tracker_ok(1) r, where cfg = "demo_config\<lparr>cfg_hash := demo_hash\<rparr>"] demo_env_ok demo_ready r
  show ?thesis unfolding env by auto
qed

lemma flush_loop_full:
  assumes "on_cache k GetCount s = Ret n s1" and "n \<ge> tracker_group_size s" and "\<not> uploading s"
    and "(i, k) \<in> set (trackers_cache s h)"
  shows "flush_loop env h msg ((i, k) # rest) s = Undef"
proof -
  have sh: "shape s1 = shape s" using io_specD(1) [OF on_cache_shape refl assms(1)] .
  have g: "tracker_group_size s1 = tracker_group_size s" using assms(1) by (auto simp: on_cache_def split: outcome.splits)
  let ?rest = "io_bind (io_get (\<lambda>s. (i, k) \<in> set (trackers_cache s h))) (\<lambda>present. if present then flush_loop env h msg rest else io_undef)"
  have "flush_loop env h msg ((i, k) # rest) s = io_seq (UploadTrackerCacheAsync env h i) ?rest s1"
    using assms(1,2) g by (simp add: io_bind_def io_get_def)
  also have "\<dots> = Undef"
  proof (cases rule: UploadTrackerCacheAsync_cases [OF refl, of env h i s1])
    case 1
    then show ?thesis by (simp add: io_seq_def io_bind_def)
  next
    case 2
    then show ?thesis using assms(3,4) sh by (force simp: shape_def)
  next
    case (3 k' s' rq)
    have "(i, k) \<notin> set (trackers_cache s' h)" using 3(4) by (simp add: shape_def)
    then show ?thesis using 3(1) by (simp add: io_seq_def io_bind_def io_get_def io_undef_def)
  qed
  finally show ?thesis .
qed

text \<open>
  C38: a full cache breaks the next flush. When the first cache of the configuration holds
  \<^verbatim>\<open>tracker_group_size\<close> messages or more and no upload is running, \<^verbatim>\<open>FlushTracker\<close> hands that cache to
  the upload, which erases the map entry the loop is at; the loop then goes on from the erased entry:
  undefined behaviour, whatever the network and the system do.
\<close>

theorem flush_full_cache:
  assumes "trk_inited s" and "tm_config msg = Some cfg0" and "Config_Hash cfg0 = Some (h, cfg)" and "\<not> flushed msg"
    and "trackers_cache s h = (i, k) # rest" and "\<not> uploading s"
    and "on_cache k GetCount s = Ret n s1" and "n \<ge> tracker_group_size s"
  shows "FlushTracker env (Some msg) s = Undef"
  using assms flush_loop_full [OF assms(7,8,6), of i h env _ rest]
  by (simp add: FlushTracker_def Let_def IsFlushed_def io_bind_def)

theorem flush_full_cache_witness:
  "\<exists>msg' s'. FlushTracker demo_track_env (Some demo_msg) (demo_tracker\<lparr>tracker_group_size := 1\<rparr>) = Ret (True, msg') s'
     \<and> FlushTracker demo_track_env (Some demo_msg) s' = Undef"
proof -
  let ?cfg = "demo_config\<lparr>cfg_hash := demo_hash\<rparr>" and ?s = "demo_tracker\<lparr>tracker_group_size := 1\<rparr>"
  have env: "te_cache demo_track_env = demo_env" by (simp add: demo_track_env_def)
  have m: "tm_config demo_msg = Some demo_config" "\<not> flushed demo_msg"
    by (simp_all add: demo_msg_def new_TrackMessageImpl_def)
  have size: "used_size demo_env ?cfg [] + msg_bytes demo_env demo_msg \<le> cache_capability"
    by (simp add: demo_sizes used_size_def cache_capability_def)
  have "shape ?s = shape demo_tracker" by (simp add: shape_def)
  then have "trk_ok demo_track_env (\<lambda>_. (demo_config, [])) {} ?s"
    using demo_tracker_ok(1) trk_inv_shape [of ?s demo_tracker]
    by (simp add: trk_ok_def holds_all_def pending_ok_def free_files_def entries_def)
  then obtain msg' s' c' where r: "FlushTracker demo_track_env (Some demo_msg) ?s = Ret (True, msg') s'"
      "trackers_cache s' demo_hash = [(0, trk_next ?s)]" "trk_inited s'" "tracker_group_size s' = 1" "\<not> uploading s'"
      "cache_holds demo_env ?cfg [stored demo_msg] (trk_objs s' (trk_next ?s))"
    using flush_first [of demo_track_env demo_hash demo_config ?cfg demo_msg "\<lambda>_. (demo_config, [])" "{}" ?s]
      demo_tracker_ok(2) demo_tracker_ok(3,4) [of demo_hash] demo_env_ok(1) demo_ready m size unfolding env
    by (auto simp: demo_tracker_def tracker_start_def)
  have "GetCount ((trk_objs s' (trk_next ?s))\<lparr>df_calls := trk_calls s'\<rparr>) = Ret 1 ((trk_objs s' (trk_next ?s))\<lparr>df_calls := trk_calls s'\<rparr>)"
    using GetCount_holds [of demo_env ?cfg "[stored demo_msg]"] r(6) by simp
  then obtain s1 where "on_cache (trk_next ?s) GetCount s' = Ret 1 s1" by (simp add: on_cache_def)
  from flush_full_cache [OF r(3) m(1) demo_config_hash m(2) r(2,5) this] r show ?thesis by fastforce
qed

lemma flush_loops_keep_msg:
  "io_bind m (\<lambda>p. io_bind (k p) (\<lambda>q. io_ret (q, Some msg))) s = Ret r s' \<Longrightarrow> snd r = Some msg"
  by (auto simp: io_bind_def io_ret_def split: outcome.splits)

text \<open>
  C39: a message is flushed at most once. After a flush by an initialised tracker, whatever it returned,
  the message is marked, takes no more content, and flushing it again returns False and changes nothing;
  a message whose flush failed is therefore lost.
\<close>

theorem flush_once:
  assumes "trk_inited s" and "FlushTracker env (Some msg) s = Ret r s'"
  shows "\<exists>msg'. snd r = Some msg' \<and> (\<forall>env2 s2. FlushTracker env2 (Some msg') s2 = Ret (False, Some msg') s2)
    \<and> (\<forall>k v. AddContent k v msg' = Inl (LogicError ''!flushed''))"
proof -
  obtain cfg0 h cfg where c: "tm_config msg = Some cfg0" "Config_Hash cfg0 = Some (h, cfg)"
    using assms by (auto simp: FlushTracker_def bind_eq_Some_conv split: option.splits)
  let ?msg = "msg\<lparr>tm_config := Some cfg\<rparr>"
  have "snd r = Some (if flushed msg then ?msg else Flushed ?msg)"
    using assms c by (auto simp: FlushTracker_def Let_def IsFlushed_def dest: flush_loops_keep_msg split: if_splits)
  moreover have "FlushTracker env2 (Some m) s2 = Ret (False, Some m) s2"
    if "flushed m" "tm_config m = Some cfg" for m env2 s2
    using that Config_Hash_idem [OF c(2)] by (simp add: FlushTracker_def Let_def IsFlushed_def)
  ultimately show ?thesis
    by (auto simp: AddContent_def Flushed_def)
qed

theorem flush_once_witness:
  "\<exists>msg' s'. FlushTracker demo_track_env (Some demo_msg) demo_tracker = Ret (True, Some msg') s'
     \<and> FlushTracker demo_track_env (Some msg') s' = Ret (False, Some msg') s'"
proof -
  have env: "te_cache demo_track_env = demo_env" by (simp add: demo_track_env_def)
  have m: "tm_config demo_msg = Some demo_config" "\<not> flushed demo_msg"
    by (simp_all add: demo_msg_def new_TrackMessageImpl_def)
  moreover have "used_size demo_env (demo_config\<lparr>cfg_hash := demo_hash\<rparr>) [] + msg_bytes demo_env demo_msg \<le> cache_capability"
    by (simp add: demo_sizes used_size_def cache_capability_def)
  ultimately obtain msg' s' where r: "FlushTracker demo_track_env (Some demo_msg) demo_tracker = Ret (True, msg') s'"
    using flush_first [OF _ _ _ demo_tracker_ok] demo_env_ok(1) demo_ready unfolding env by blast
  from flush_once [OF demo_tracker_ok(2) r] r show ?thesis by fastforce
qed

end
