(* ===== verification/Sdk_Calls.thy ===== *)
theory Sdk_Calls
  imports Sdk_Api Report_Post Tracker_Flush
begin

text \<open>
  The properties of the C interface: its protocol, the well-formedness of the SDK's state under any
  calls, the absence of undefined behaviour of its own, and its composition with the duration component
  and the tracker.
\<close>

section \<open>Reachable states\<close>

definition Config_default :: Config where
  "Config_default = \<lparr>enable_duration_statistics = False, enable_tap_login = False, enable_tap_tracker = False, process_name = '''',
     cfg_region = CN, cfg_sdk_version = '''', cfg_group_size = 0\<rparr>"

definition sdk_start :: "tracker \<Rightarrow> ('e, 's, 'c) sdk" where
  "sdk_start t = \<lparr>sdk_inited = False, inited = False, sdk_config = Config_default, current_device = None, current_game = None,
     current_user = None, event_bus = False, timer_started = False, duration_statistics = None, login_client = None,
     sdk_tracker = t, tracker_configs = Map.empty, api_msgs = Map.empty, api_next = 0\<rparr>"

text \<open>
  The caller may go on after an exception. Between the calls the timer, the report thread and the uploads
  change the duration component and the tracker in any way.
\<close>

inductive api_reachable :: "('e, 's, 'c) sdk \<Rightarrow> bool" where
  start: "api_reachable (sdk_start t)"
| ret: "api_reachable s \<Longrightarrow> do_api env mem call s = Ret r s' \<Longrightarrow> api_reachable s'"
| throw: "api_reachable s \<Longrightarrow> do_api env mem call s = Throw e s' \<Longrightarrow> api_reachable s'"
| background: "api_reachable s \<Longrightarrow> (d = None \<longleftrightarrow> duration_statistics s = None) \<Longrightarrow>
    api_reachable (s\<lparr>duration_statistics := d, sdk_tracker := t\<rparr>)"

lemma api_reachable_wf: "api_reachable s \<Longrightarrow> sdk_wf s"
proof (induction rule: api_reachable.induct)
  case (ret s env mem call r s')
  then show ?case using io_specD(1) [OF do_api_wf] by blast
next
  case (throw s env mem call e s')
  then show ?case using io_specD(2) [OF do_api_wf] by blast
qed (simp_all add: sdk_start_def sdk_wf_def configs_ok_def msgs_ok_def)

section \<open>Undefined behaviour\<close>

definition config_texts :: "tapsdk_tracker_config \<Rightarrow> cstr list" where
  "config_texts c = [ct_topic c, ct_endpoint c, ct_access_keyid c, ct_access_key_secret c, ct_project c, ct_log_store c]"

text \<open>
  What the caller owes: user pointers and handles are valid and texts are shorter than the address space.
\<close>

fun call_valid :: "('e, 's, 'c) sdk_env \<Rightarrow> user_mem \<Rightarrow> api_call \<Rightarrow> ('e, 's, 'c) sdk \<Rightarrow> bool" where
  "call_valid env mem (ApiUser (Some p)) s \<longleftrightarrow> mem p \<noteq> None"
| "call_valid env mem (ApiCreate (Some c) has_message) s \<longleftrightarrow> list_all (\<lambda>t. length (ToString t) < 2 ^ 64) (config_texts c)"
| "call_valid env mem (ApiParam (Some k) key value) s \<longleftrightarrow> api_msgs s k \<noteq> None"
| "call_valid env mem (ApiContent (Some k) key value) s \<longleftrightarrow> api_msgs s k \<noteq> None"
| "call_valid env mem (ApiFlush (Some k)) s \<longleftrightarrow> api_msgs s k \<noteq> None"
| "call_valid env mem call s \<longleftrightarrow> True"

text \<open>
  The parts of the tracker that work on its cache files: loading them at the start, and storing a message
  that is not flushed yet in one of them. They read and write mapped files, so they alone may be undefined.
\<close>

definition load_undefined :: "('e, 's, 'c) sdk_env \<Rightarrow> api_call \<Rightarrow> ('e, 's, 'c) sdk \<Rightarrow> bool" where
  "load_undefined env call s \<longleftrightarrow> (\<exists>c. call = ApiInit (Some c) \<and> cc_tracker c \<and>
     Tracker_Init (se_track env) (cc_group_size c) True (se_listing env) (sdk_tracker s) = Undef)"

definition store_undefined :: "('e, 's, 'c) sdk_env \<Rightarrow> api_call \<Rightarrow> ('e, 's, 'c) sdk \<Rightarrow> bool" where
  "store_undefined env call s \<longleftrightarrow> (\<exists>k msg cfg. call = ApiFlush (Some k) \<and> api_msgs s k = Some msg \<and>
     tm_config msg = Some cfg \<and> trk_inited (sdk_tracker s) \<and> \<not> IsFlushed msg \<and>
     io_bind (flush_loop (se_track env) (cfg_hash cfg) (Flushed msg) (trackers_cache (sdk_tracker s) (cfg_hash cfg))) (\<lambda>pushed.
       if pushed then io_ret True
       else create_loop (se_track env) (cfg_hash cfg) (Flushed msg) (Some cfg) [0..<MAX_CACHE_COUNT]) (sdk_tracker s) = Undef)"

lemma FlushTracker_Undef:
  assumes "msg_hashed msg" and "FlushTracker env (Some msg) t = Undef"
  shows "trk_inited t \<and> \<not> IsFlushed msg \<and> (\<exists>cfg. tm_config msg = Some cfg \<and>
     io_bind (flush_loop env (cfg_hash cfg) (Flushed msg) (trackers_cache t (cfg_hash cfg))) (\<lambda>pushed.
       if pushed then io_ret True
       else create_loop env (cfg_hash cfg) (Flushed msg) (Some cfg) [0..<MAX_CACHE_COUNT]) t = Undef)"
proof -
  obtain cfg where cfg: "tm_config msg = Some cfg" "Config_Hash cfg = Some (cfg_hash cfg, cfg)"
    using assms(1) by (auto simp: msg_hashed_def)
  have same: "msg\<lparr>tm_config := Some cfg\<rparr> = msg" using cfg(1) by (cases msg) simp
  show ?thesis
    using assms(2) cfg
    by (auto simp: FlushTracker_def same Let_def io_bind_def io_prim split: if_splits Disk_File.outcome.splits)
qed

definition io_defined :: "('a, 's) io \<Rightarrow> 's \<Rightarrow> bool" where
  "io_defined m s \<longleftrightarrow> m s \<noteq> Undef"

named_theorems defined_rules "programs without undefined behaviour"

lemma io_defined_bind [defined_rules]:
  "io_defined m s \<Longrightarrow> (\<And>a s'. m s = Ret a s' \<Longrightarrow> io_defined (f a) s') \<Longrightarrow> io_defined (io_bind m f) s"
  by (auto simp: io_defined_def io_bind_def split: Disk_File.outcome.split)

lemma io_defined_seq [defined_rules]:
  "io_defined m s \<Longrightarrow> (\<And>a s'. m s = Ret a s' \<Longrightarrow> io_defined k s') \<Longrightarrow> io_defined (io_seq m k) s"
  unfolding io_seq_def by (rule io_defined_bind)

lemma io_throws_defined [simp]: "io_throws m s \<noteq> Undef"
  by (simp add: io_throws_def split: sum.split)

lemma io_defined_prim [defined_rules]: "io_defined (io_ret a) s" "io_defined (io_upd u) s" "io_defined (io_get g) s"
    "io_defined (io_throws m) s"
  by (simp_all add: io_defined_def io_prim)

lemma io_defined_when_inited [defined_rules]: "(sdk_inited s \<Longrightarrow> io_defined m s) \<Longrightarrow> io_defined (when_inited m) s"
  by (simp add: io_defined_def when_inited_def R_UNLESS_def io_bind_def io_prim)

lemma io_defined_unless [defined_rules]: "io_defined m s \<Longrightarrow> io_defined (R_UNLESS c r m) s"
  by (simp add: R_UNLESS_def io_defined_prim)

lemma notifyNow_defined [defined_rules]: "event_bus s \<Longrightarrow> io_defined (notifyNow env ev) s"
  by (auto simp: io_defined_def notifyNow_def split: option.split sum.split)

lemma on_tracker_defined: "m (sdk_tracker s) \<noteq> Undef \<Longrightarrow> io_defined (on_tracker m) s"
  by (auto simp: io_defined_def on_tracker_def split: Disk_File.outcome.split)

lemma wf_event_bus: "sdk_wf s \<Longrightarrow> sdk_inited s \<Longrightarrow> event_bus s" "sdk_wf s \<Longrightarrow> sdk_inited s \<Longrightarrow> current_device s \<noteq> None"
  by (auto simp: sdk_wf_def)

lemma CreateConfig_defined:
  "list_all (\<lambda>t. length (ToString t) < 2 ^ 64) (config_texts c) \<Longrightarrow> CreateConfig c \<noteq> None"
proof -
  assume "list_all (\<lambda>t. length (ToString t) < 2 ^ 64) (config_texts c)"
  then have "returns (Config_Hash \<lparr>topic = ToString (ct_topic c), endpoint = ToString (ct_endpoint c),
          access_keyid = ToString (ct_access_keyid c), access_key_secret = ToString (ct_access_key_secret c),
          project = ToString (ct_project c), log_store = ToString (ct_log_store c), cfg_hash = 0\<rparr>)"
    by (intro Config_Hash_defined) (simp add: config_small_def config_texts_def)
  then show ?thesis by (auto simp: CreateConfig_def returns_def)
qed

lemma pick_config_defined:
  "list_all (\<lambda>t. length (ToString t) < 2 ^ 64) (config_texts c) \<Longrightarrow> pick_config c configs \<noteq> None"
  using CreateConfig_defined [of c] by (auto simp: pick_config_def Let_def split: option.split)

lemma create_message_defined: "current_device s \<noteq> None \<Longrightarrow> io_defined (create_message env cfg) s"
  by (auto simp: io_defined_def create_message_def commons_of_def)

lemma SetCurrent_defined:
  "event_bus s \<Longrightarrow> io_defined (Game_SetCurrent env game) s"
  "event_bus s \<Longrightarrow> (\<forall>p. user = Some p \<longrightarrow> mem p \<noteq> None) \<Longrightarrow> io_defined (User_SetCurrent env mem user) s"
proof -
  show "event_bus s \<Longrightarrow> io_defined (Game_SetCurrent env game) s"
    unfolding Game_SetCurrent_def by (intro defined_rules) (auto simp: io_prim)
  assume bus: "event_bus s" and mem: "\<forall>p. user = Some p \<longrightarrow> mem p \<noteq> None"
  obtain u where "read_user mem user = Some u"
    using mem by (cases user) (auto simp: read_user_def GetUserId_def ContainTapInfo_def)
  then show "io_defined (User_SetCurrent env mem user) s"
    unfolding User_SetCurrent_def using bus by (auto intro!: defined_rules simp: io_prim)
qed

lemma start_duration_defined: "io_defined (start_duration env dev config) s"
  by (simp add: io_defined_def start_duration_def split: sum.split)

lemma start_duration_tracker: "start_duration env dev config s = Ret u s' \<Longrightarrow> sdk_tracker s' = sdk_tracker s"
  by (auto simp: start_duration_def split: sum.splits)

lemma on_message_defined:
  "api_msgs s k \<noteq> None \<Longrightarrow> (\<And>msg. api_msgs s k = Some msg \<Longrightarrow> io_defined (f msg) s) \<Longrightarrow> io_defined (on_message k f) s"
  by (auto simp: io_defined_def on_message_def)

lemma flush_message_defined:
  "FlushTracker (se_track env) (Some msg) (sdk_tracker s) \<noteq> Undef \<Longrightarrow> io_defined (flush_message env k msg) s"
  by (auto simp: io_defined_def flush_message_def on_tracker_def split: Disk_File.outcome.splits)

lemma tracker_create_defined:
  assumes "sdk_wf s" and "\<And>c. config = Some c \<Longrightarrow> pick_config c (tracker_configs s) \<noteq> None"
  shows "io_defined (tapsdk_tracker_create env config has_message) s"
proof (cases "sdk_inited s \<and> config \<noteq> None \<and> has_message")
  case True
  then obtain c where c: "config = Some c" by blast
  obtain cfg c' configs where p: "pick_config c (tracker_configs s) = Some (cfg, c', configs)"
    using assms(2) [OF c] by auto
  have "io_defined (create_message env cfg) (s\<lparr>tracker_configs := configs\<rparr>)"
    using True wf_event_bus(2) [OF assms(1)] by (intro create_message_defined) simp
  then have "io_defined (io_bind (create_message env cfg) (\<lambda>msg.
      case msg of
        Some m \<Rightarrow>
          io_bind (io_get api_next) (\<lambda>k.
          io_seq (io_upd (\<lambda>s. s\<lparr>api_msgs := (api_msgs s)(k \<mapsto> m), api_next := Suc k\<rparr>))
                 (io_ret (TAPSDK_SUCCESS, Some c', Some k)))
      | None \<Rightarrow> io_ret (TAPSDK_ERROR, Some c', None))) (s\<lparr>tracker_configs := configs\<rparr>)"
    by (auto intro!: defined_rules split: option.split)
  then show ?thesis using True c p by (simp add: io_defined_def tapsdk_tracker_create_def)
qed (auto simp: io_defined_def tapsdk_tracker_create_def split: option.splits)

lemma Init_defined:
  assumes "enable_tap_tracker config \<longrightarrow>
      Tracker_Init (se_track env) (cfg_group_size config) True (se_listing env) (sdk_tracker s) \<noteq> Undef"
  shows "io_defined (Init env config) s"
proof -
  have "io_defined (Init_modules env dev config) s'" if "sdk_tracker s' = sdk_tracker s" for dev s'
    unfolding Init_modules_def using assms that
    by (auto intro!: defined_rules on_tracker_defined start_duration_defined simp: io_prim dest!: start_duration_tracker)
  then have "Init_modules env dev config (Runtime_Init (s\<lparr>sdk_config := config, inited := True\<rparr>)) \<noteq> Undef" for dev
    by (simp add: io_defined_def Runtime_Init_def)
  then show ?thesis
    by (auto simp: io_defined_def Init_cases Let_def split: option.split Disk_File.outcome.splits)
qed

lemma do_api_defined:
  assumes "sdk_wf s" and "call_valid env mem call s" and "\<not> load_undefined env call s" and "\<not> store_undefined env call s"
  shows "io_defined (do_api env mem call) s"
proof (cases call)
  case (ApiInit c)
  then show ?thesis
    using assms(3) Init_defined [of "Config_of_api (the c)" env]
    by (auto simp: load_undefined_def tapsdk_init_def Device_SetCurrent_def Config_of_api_def io_prim intro!: defined_rules split: option.split)
next
  case (ApiUser user)
  then show ?thesis
    using assms(2) wf_event_bus [OF assms(1)]
    by (cases user) (auto simp: tapsdk_user_set_def intro!: defined_rules SetCurrent_defined split: option.split)
next
  case (ApiCreate c has_message)
  have "pick_config c' configs \<noteq> None" if "c = Some c'" for c' configs
    using that assms(2) ApiCreate pick_config_defined by simp
  then show ?thesis
    using ApiCreate assms(1) by (auto intro!: defined_rules tracker_create_defined split: prod.split)
next
  case (ApiFlush message)
  have "FlushTracker (se_track env) (Some msg) (sdk_tracker s) \<noteq> Undef" if "message = Some k" "api_msgs s k = Some msg" for k msg
  proof -
    have "msg_hashed msg" using assms(1) that(2) by (auto simp: sdk_wf_def msgs_ok_def)
    from FlushTracker_Undef [OF this, of "se_track env" "sdk_tracker s"] show ?thesis
      using assms(4) ApiFlush that by (auto simp: store_undefined_def)
  qed
  then show ?thesis
    using assms(2) ApiFlush
    by (cases message) (auto simp: tapsdk_tracker_flush_def intro!: defined_rules on_message_defined flush_message_defined
        split: option.splits)
qed (use assms wf_event_bus [OF assms(1)] in
  \<open>auto simp: tapsdk_game_set_def tapsdk_window_on_foreground_def tapsdk_window_on_background_def Window_OnForeground_def
     Window_OnBackground_def tapsdk_tracker_msg_add_param_def tapsdk_tracker_msg_add_content_def add_to_message_def
     intro!: defined_rules SetCurrent_defined on_message_defined split: option.split\<close>)

section \<open>The initialisation protocol\<close>

definition init_input_ok :: "tapsdk_config \<Rightarrow> bool" where
  "init_input_ok c \<longleftrightarrow> (case cc_device c of None \<Rightarrow> False | Some d \<Rightarrow> 0 \<le> cc_region c \<and> cc_region c \<le> 2 \<and> 0 \<le> cv_type d \<and> cv_type d \<le> 2)"

lemmas tds_consts = TDS_REGION_CN_def TDS_REGION_GLOBAL_def TDS_REGION_RND_def TDS_DEV_TYPE_LOCAL_def TDS_DEV_TYPE_SANDBOX_def
  TDS_DEV_TYPE_CLOUD_def

lemma tapsdk_init_cases:
  "tapsdk_init env (Some c) s =
     (if init_input_ok c
      then (case Init env (Config_of_api c) (s\<lparr>current_device := Some (api_Device (the (cc_device c)))\<rparr>) of
              Ret ok s' \<Rightarrow> if ok then Ret TAPSDK_SUCCESS (s'\<lparr>sdk_inited := True\<rparr>) else Ret TAPSDK_ERROR s'
            | Throw e s' \<Rightarrow> Throw e s'
            | Undef \<Rightarrow> Undef)
      else Ret TAPSDK_INVALID_INPUT s)"
  by (auto simp: tapsdk_init_def init_input_ok_def R_UNLESS_def tds_consts Device_SetCurrent_def io_seq_def io_bind_def io_prim
      split: option.split Disk_File.outcome.split)

lemma needs_init:
  "\<not> sdk_inited s \<Longrightarrow> (\<forall>c. call \<noteq> ApiInit c) \<Longrightarrow> do_api env mem call s = Ret TAPSDK_NO_INIT s"
  by (cases call)
    (auto simp: tapsdk_game_set_def tapsdk_user_set_def tapsdk_window_on_foreground_def tapsdk_window_on_background_def
      tapsdk_tracker_create_def tapsdk_tracker_msg_add_param_def tapsdk_tracker_msg_add_content_def add_to_message_def
      tapsdk_tracker_flush_def when_inited_def R_UNLESS_def io_bind_def io_prim)

lemma init_attempt:
  assumes "sdk_wf s" and "init_input_ok c" and "tapsdk_init env (Some c) s = Ret r s'"
  shows "inited s' \<and> r \<in> {TAPSDK_SUCCESS, TAPSDK_ERROR} \<and> (r = TAPSDK_SUCCESS \<longrightarrow> \<not> inited s \<and> sdk_inited s')"
proof -
  let ?s = "s\<lparr>current_device := Some (api_Device (the (cc_device c)))\<rparr>"
  have "sdk_wf ?s" using assms(1) by (auto simp: sdk_wf_def)
  from Init_wf [OF this, of env "Config_of_api c"] assms(2,3) show ?thesis
    by (auto simp: tapsdk_init_cases split: Disk_File.outcome.splits if_splits)
qed

section \<open>Events reach the duration component\<close>

text \<open>The handler calls an API call amounts to.\<close>

fun dur_calls :: "user_mem \<Rightarrow> api_call \<Rightarrow> dur_call list" where
  "dur_calls mem (ApiGame (Some g)) =
     (if cg_client_id g \<noteq> None \<and> cg_identify g \<noteq> None then [CallGameStart (ToString (cg_client_id g)) (ToString (cg_identify g))] else [])"
| "dur_calls mem (ApiUser None) = [CallUser None]"
| "dur_calls mem (ApiUser (Some p)) =
     (case mem p of
        Some u \<Rightarrow> if cu_user_id u \<noteq> None then [CallUser (Some (ToString (cu_user_id u), cu_contain_tap_info u))] else []
      | None \<Rightarrow> [])"
| "dur_calls mem ApiForeground = [CallForeground]"
| "dur_calls mem ApiBackground = [CallBackground]"
| "dur_calls mem call = []"

definition after :: "('a, 's) Disk_File.outcome \<Rightarrow> 's option" where
  "after r = (case r of Ret a s' \<Rightarrow> Some s' | Throw e s' \<Rightarrow> Some s' | Undef \<Rightarrow> None)"

text \<open>A run: the caller catches exceptions and goes on; None when some call is undefined.\<close>

fun run_api :: "(('e, 's, 'c) sdk_env \<times> user_mem \<times> api_call) list \<Rightarrow> ('e, 's, 'c) sdk \<Rightarrow> ('e, 's, 'c) sdk option" where
  "run_api [] s = Some s"
| "run_api ((env, mem, call) # calls) s = Option.bind (after (do_api env mem call s)) (run_api calls)"

lemma notify_dur:
  assumes "event_bus s" and "duration_statistics s = Some d"
  shows "after (notifyNow env ev s) = Some (s\<lparr>duration_statistics := Some (case listeners env ev d of Inl _ \<Rightarrow> d | Inr d' \<Rightarrow> d')\<rparr>)"
  using assms by (auto simp: notifyNow_def after_def split: sum.split)

lemma dur_frame:
  "io_keeps (\<lambda>s. duration_statistics s = x \<and> sdk_inited s) (tapsdk_tracker_create env config has_message)"
  "io_keeps (\<lambda>s. duration_statistics s = x \<and> sdk_inited s) (add_to_message add message key value)"
  "io_keeps (\<lambda>s. duration_statistics s = x \<and> sdk_inited s) (tapsdk_tracker_flush env message)"
proof -
  let ?P = "\<lambda>s. duration_statistics s = x \<and> sdk_inited s"
  have t: "io_keeps ?P (on_tracker m)" for m
    by (auto simp: io_spec_def on_tracker_def split: Disk_File.outcome.split)
  show "io_keeps ?P (tapsdk_tracker_create env config has_message)"
    by (auto simp: io_spec_def tapsdk_tracker_create_def create_message_def io_bind_def io_seq_def io_prim io_throws_def
        split: option.split sum.split)
  have m: "io_keeps ?P (on_message k f)" if "\<And>msg. io_keeps ?P (f msg)" for k f
    using that by (auto simp: io_spec_def on_message_def split: option.split)
  have w: "io_keeps ?P (when_inited m)" if "io_keeps ?P m" for m
    using that unfolding when_inited_def R_UNLESS_def by (auto intro!: io_keeps_rules)
  have th: "io_keeps ?P (io_throws r)" for r
    by (auto simp: io_spec_def io_throws_def split: sum.split)
  show "io_keeps ?P (add_to_message add message key value)"
    unfolding add_to_message_def by (auto intro!: io_keeps_rules w m th split: option.split)
  have f: "io_keeps ?P (flush_message env k msg)" for k msg
    by (auto simp: io_spec_def flush_message_def on_tracker_def split: Disk_File.outcome.split)
  show "io_keeps ?P (tapsdk_tracker_flush env message)"
    unfolding tapsdk_tracker_flush_def by (cases message) (auto intro!: io_keeps_rules w m f)
qed

lemma after_keeps: "io_keeps P m \<Longrightarrow> P s \<Longrightarrow> after (m s) = Some s' \<Longrightarrow> P s'"
  by (cases "m s") (auto simp: after_def dest: io_specD)

lemma after_seq_ret: "after (io_seq m (io_ret a) s) = after (m s)"
  by (auto simp: after_def io_seq_def io_bind_def io_prim split: Disk_File.outcome.split)

lemma after_seq_upd: "after (io_seq (io_upd u) m s) = after (m (u s))"
  by (simp add: after_def io_seq_def io_bind_def io_prim)

lemma do_api_dur:
  assumes "sdk_wf s" and "sdk_inited s" and "duration_statistics s = Some d" and "after (do_api env mem call s) = Some s'"
  shows "sdk_inited s' \<and>
    duration_statistics s' = Some (foldl (dur_handle (se_ops env)) d (map (Pair (se_now env)) (dur_calls mem call)))"
proof -
  have bus: "event_bus s" "inited s" using assms(1,2) by (auto simp: sdk_wf_def)
  have w: "when_inited m s = m s" for m :: "(tapsdk_result, 'a, 'b, 'c) sdk_io"
    using assms(2) by (simp add: when_inited_def R_UNLESS_def io_bind_def io_prim)
  have note_: "after (notifyNow env ev t) = Some (t\<lparr>duration_statistics := Some (case listeners env ev d of Inl _ \<Rightarrow> d | Inr d' \<Rightarrow> d')\<rparr>)"
    if "event_bus t" "duration_statistics t = Some d" for ev t
    using notify_dur [OF that] .
  have frame: "sdk_inited s' \<and> duration_statistics s' = Some d"
    if "io_keeps (\<lambda>s. duration_statistics s = Some d \<and> sdk_inited s) m" "after (m s) = Some s'" for m :: "('x, 'a, 'b, 'c) sdk_io"
    using after_keeps [OF that(1) _ that(2)] assms(2,3) by simp
  show ?thesis
  proof (cases call)
    case (ApiInit c)
    then show ?thesis
      using assms bus
      by (cases c) (auto simp: tapsdk_init_def [of _ None] io_prim tapsdk_init_cases Init_cases Let_def after_def split: if_splits)
  next
    case (ApiGame g)
    then show ?thesis
      using assms bus
      by (cases g) (auto simp: tapsdk_game_set_def w Game_SetCurrent_def R_UNLESS_def after_seq_ret after_seq_upd note_ listeners_def
          api_Game_def io_prim after_def [of "Ret _ _"] split: if_splits)
  next
    case (ApiUser u)
    then show ?thesis
      using assms bus
      by (cases u) (auto simp: tapsdk_user_set_def w User_SetCurrent_def R_UNLESS_def after_seq_ret after_seq_upd note_ listeners_def
          read_user_def GetUserId_def ContainTapInfo_def io_prim after_def [of "Ret _ _"] after_def [of Undef] split: if_splits option.splits)
  next
    case (ApiCreate config has_message)
    have "io_keeps (\<lambda>s. duration_statistics s = Some d \<and> sdk_inited s) (do_api env mem call)"
      unfolding ApiCreate by (auto intro!: io_keeps_rules dur_frame split: prod.split)
    from frame [OF this assms(4)] ApiCreate show ?thesis by simp
  qed (use assms bus in
      \<open>auto dest!: frame [OF dur_frame(2)] frame [OF dur_frame(3)] simp: tapsdk_window_on_foreground_def tapsdk_window_on_background_def Window_OnForeground_def Window_OnBackground_def w
        after_seq_ret note_ listeners_def tapsdk_tracker_msg_add_param_def tapsdk_tracker_msg_add_content_def\<close>)
qed

lemma run_api_dur:
  assumes "sdk_wf s" and "sdk_inited s" and "duration_statistics s = Some d" and "\<forall>(env, mem, call) \<in> set calls. se_ops env = P"
    and "run_api calls s = Some s'"
  shows "duration_statistics s' =
    Some (foldl (dur_handle P) d (concat (map (\<lambda>(env, mem, call). map (Pair (se_now env)) (dur_calls mem call)) calls)))"
  using assms
proof (induction calls arbitrary: s d)
  case (Cons c calls)
  obtain env mem call where c: "c = (env, mem, call)" by (cases c)
  from Cons.prems(5) obtain s1 where s1: "after (do_api env mem call s) = Some s1" "run_api calls s1 = Some s'"
    by (auto simp: c bind_eq_Some_conv)
  have wf: "sdk_wf s1" using after_keeps [OF do_api_wf Cons.prems(1) s1(1)] .
  have "sdk_inited s1" and d1: "duration_statistics s1 = Some (foldl (dur_handle P) d (map (Pair (se_now env)) (dur_calls mem call)))"
    using do_api_dur [OF Cons.prems(1-3) s1(1)] Cons.prems(4) by (auto simp: c)
  from Cons.IH [OF wf this _ s1(2)] Cons.prems(4) show ?case by (simp add: c)
qed simp

section \<open>Configurations of the tracker\<close>

lemma FillCommons_returns: "\<not> flushed msg \<Longrightarrow> \<exists>m. FillCommons tc msg = Inr m"
proof -
  have add: "\<exists>m'. add_params ps m = Inr m' \<and> \<not> flushed m'" if "\<not> flushed m" for ps m
    using that by (induction ps m rule: add_params.induct) (simp_all add: AddParam_def)
  assume "\<not> flushed msg"
  from add [OF this] obtain m1 where m1: "add_params [(''sdk_version'', tc_sdk_version tc), (''device_id'', tc_device_id tc),
        (''t_log_id'', tc_uuid tc), (''version'', TAP_TRACKER_VERSION)] msg = Inr m1" "\<not> flushed m1" by blast
  obtain m2 where m2: "(case tc_device tc of
        None \<Rightarrow> Inr m1
      | Some d \<Rightarrow> add_params [(''dv'', dev_version d), (''md'', dev_model d), (''cpu'', dev_cpu_info d), (''ram'', dev_ram_size d),
          (''rom'', dev_rom_size d), (''network_type'', dev_network_type d), (''mobile_type'', dev_mobile_type d), (''os'', dev_platform d),
          (''sv'', dev_os_version d)] m1) = Inr m2" "\<not> flushed m2"
    using add [OF m1(2)] m1(2) by (cases "tc_device tc") (auto simp del: add_params.simps)
  show ?thesis
    unfolding FillCommons_def m1(1) throws_bind_simps m2(1) using add [OF m2(2)]
    by (cases "tc_game tc") (auto simp del: add_params.simps split: prod.split)
qed

lemma create_message_eq:
  assumes "trk_inited (sdk_tracker s)" and "current_device s \<noteq> None"
  shows "\<exists>m. create_message env cfg s = Ret (Some m) s \<and> tm_config m = Some cfg"
proof -
  obtain tc where tc: "commons_of env s = Some tc" using assms(2) by (auto simp: commons_of_def)
  have "\<not> flushed (new_TrackMessageImpl (se_time env) (Some cfg))" by (simp add: new_TrackMessageImpl_def)
  then obtain m where m: "FillCommons tc (new_TrackMessageImpl (se_time env) (Some cfg)) = Inr m"
    using FillCommons_returns by blast
  then have "CreateTracker tc (se_time env) (Some cfg) (sdk_tracker s) = Inr (Some m)"
    using assms(1) by (simp add: CreateTracker_def)
  moreover have "tm_config m = Some cfg" using FillCommons_config [OF m] by (simp add: new_TrackMessageImpl_def)
  ultimately show ?thesis using assms(1) tc by (simp add: create_message_def io_throws_def)
qed

text \<open>A successful call, in terms of the configuration it picked.\<close>

lemma tracker_create_eq:
  assumes "sdk_wf s" and "sdk_inited s" and "trk_inited (sdk_tracker s)" and "pick_config c (tracker_configs s) = Some (cfg, c', configs)"
  shows "\<exists>m. tapsdk_tracker_create env (Some c) True s = Ret (TAPSDK_SUCCESS, Some c', Some (api_next s))
      (s\<lparr>tracker_configs := configs, api_msgs := (api_msgs s)(api_next s \<mapsto> m), api_next := Suc (api_next s)\<rparr>)
    \<and> tm_config m = Some cfg"
proof -
  let ?s = "s\<lparr>tracker_configs := configs\<rparr>"
  have "trk_inited (sdk_tracker ?s)" "current_device ?s \<noteq> None" using assms(3) wf_event_bus(2) [OF assms(1,2)] by simp_all
  from create_message_eq [OF this, of env cfg] obtain m where "create_message env cfg ?s = Ret (Some m) ?s" "tm_config m = Some cfg"
    by blast
  then show ?thesis
    using assms(2,4) by (auto simp: tapsdk_tracker_create_def io_bind_def io_seq_def io_prim)
qed

lemma pick_config_new:
  "ct_hash c = 0 \<Longrightarrow> pick_config c configs = Some (cfg, c', configs') \<Longrightarrow>
   configs' (ct_hash c') = Some (Some cfg) \<and> topic cfg = ToString (ct_topic c) \<and> log_store cfg = ToString (ct_log_store c)"
  by (auto simp: pick_config_def CreateConfig_def Config_Hash_def bind_eq_Some_conv)

lemma pick_config_known:
  "ct_hash c \<noteq> 0 \<Longrightarrow> configs (ct_hash c) = Some (Some cfg) \<Longrightarrow> pick_config c configs = Some (cfg, c, configs)"
  by (simp add: pick_config_def)

section \<open>An example\<close>

definition demo_api_config :: tapsdk_config where
  "demo_api_config = \<lparr>cc_login = True, cc_duration = True, cc_tracker = True, cc_region = 0, cc_process_name = Some ''p'',
     cc_sdk_version = Some ''1'', cc_group_size = 0,
     cc_device = Some \<lparr>cv_type = 1, cv_device_id = Some ''dev'', cv_cache_dir = Some ''dir'', cv_info = None\<rparr>\<rparr>"

type_synonym 'r mem = "nat \<times> (nat \<times> 'r) list"

definition demo_sdk_env :: "u64 \<Rightarrow> (DurEvent mem, GameSession mem, ReportConfig mem) sdk_env" where
  "demo_sdk_env now = \<lparr>se_ops = example_ops, se_open = (\<lambda>_. Inr ((1, []), (1, []), (1, []))), se_track = demo_track_env,
     se_listing = None, se_now = now, se_time = 5, se_uuid = ''u''\<rparr>"

definition demo_sdk_start :: "(DurEvent mem, GameSession mem, ReportConfig mem) sdk" where
  "demo_sdk_start = sdk_start (tracker_start (\<lambda>_. None) True (\<lambda>_. new_DiskCache None True 0 0 None))"

definition demo_sdk :: "(DurEvent mem, GameSession mem, ReportConfig mem) sdk" where
  "demo_sdk = (case tapsdk_init (demo_sdk_env 1000) (Some demo_api_config) demo_sdk_start of Ret r s \<Rightarrow> s | _ \<Rightarrow> demo_sdk_start)"

text \<open>A first start, with empty tables: nothing is queued yet.\<close>

lemma Init_dur_empty:
  assumes "GetLatestSession (gs_ops P) (gs_db d) = None" and "GetLatestConfig (rc_ops P) (rc_db d) = None"
    and "GetEvents (ev_ops P) (ev_db d) = []"
  shows "\<exists>d'. Init_dur P (Some dev) version uuid now d = Inr d' \<and> queued d' = queued d \<and> room d' = room d \<and> game_id d' = game_id d"
proof -
  obtain did dtype info where dev: "dev = (did, dtype, info)" by (cases dev)
  define d1 where "d1 = d\<lparr>device_id := did, dev_type := dtype, device_info := info, sdk_version := version\<rparr>"
  define d2 where "d2 = InitHeatBeats (NewGameSession P uuid d1)"
  have f1: "gs_db d1 = gs_db d" "rc_db d1 = rc_db d" "ev_db d1 = ev_db d" "report_queue d1 = report_queue d" "game_id d1 = game_id d"
    by (simp_all add: d1_def)
  have f2: "rc_db d2 = rc_db d" "ev_db d2 = ev_db d" "report_queue d2 = report_queue d" "game_id d2 = game_id d"
    using f1 assms(1) by (simp_all add: d2_def NewGameSession_def InitHeatBeats_def post_event_def update_session_def split_beta)
  have "InitHistory P now d2 = d2" using f2 assms(2,3) by (simp add: InitHistory_def)
  then have "Init_dur P (Some dev) version uuid now d = Inr (InitRequest (InitReportThread d2))"
    by (simp add: Init_dur_def dev Let_def d1_def [symmetric] d2_def [symmetric])
  moreover have "queued (InitRequest (InitReportThread d2)) = queued d" "room (InitRequest (InitReportThread d2)) = room d"
      "game_id (InitRequest (InitReportThread d2)) = game_id d"
    using f2 by (simp_all add: InitRequest_def InitReportThread_def queued_def room_def)
  ultimately show ?thesis by blast
qed

lemma demo_init:
  "\<exists>d. tapsdk_init (demo_sdk_env 1000) (Some demo_api_config) demo_sdk_start =
     Ret TAPSDK_SUCCESS (demo_sdk_start\<lparr>current_device := Some (api_Device (the (cc_device demo_api_config))), sdk_config := Config_of_api demo_api_config,
       inited := True, timer_started := True, event_bus := True, duration_statistics := Some d, login_client := Some Login_Init,
       sdk_tracker := demo_tracker, sdk_inited := True\<rparr>) \<and> queued d = [] \<and> room d = 2 ^ 32 - 1 \<and> game_id d = ''''"
proof -
  have ok: "init_input_ok demo_api_config" by (simp add: init_input_ok_def demo_api_config_def)
  have "\<exists>d. Init_dur example_ops (Some (''dev'', Sandbox, Some empty_DeviceInfo)) ''1'' ''u'' 1000 (new_dur ((1, []), (1, []), (1, []))) = Inr d
     \<and> queued d = [] \<and> room d = 2 ^ 32 - 1 \<and> game_id d = ''''"
    using Init_dur_empty [of example_ops "new_dur ((1, []), (1, []), (1, []))"]
    by (simp add: GetLatestSession_def GetLatestConfig_def GetEvents_def example_ops_def mem_table_def new_dur_def
        queued_def room_def bq_new_def)
  then show ?thesis
    unfolding tapsdk_init_cases using ok demo_tracker_start
    by (auto simp: Init_cases Let_def demo_sdk_start_def sdk_start_def demo_api_config_def demo_sdk_env_def Init_modules_def
        start_duration_def GetDeviceType_def api_Device_def tds_consts Config_of_api_def Runtime_Init_def io_seq_def io_bind_def io_prim
        on_tracker_def ToString_def)
qed

text \<open>The hash of a configuration without any text, step by step.\<close>

lemma digits_zero: "le_digits n 0 = replicate n 0"
  by (induction n) simp_all

lemma value_zero: "le_value (replicate n 0) = 0"
  by (induction n) simp_all

lemma concat_zeros: "concat (map (\<lambda>w. le_digits 8 (unat w)) [0::u64, 0, 0, 0, 0, 0]) = replicate 48 0"
  by (simp add: digits_zero replicate_add [symmetric])

lemma fetch_zeros: "0 \<le> p \<Longrightarrow> p \<le> 40 \<Longrightarrow> Fetch64 (replicate 48 0) p = Some 0"
  by (simp add: Fetch64_def value_zero min_def)

lemma empty_swaps: "swap64 11160318154034397359 = 12628251887681593754" "swap64 3598261098927028469 = 17724099618688986929" "swap64 5847117651594756735 = 9205982536862410065"
  by (simp_all add: swap64_def)

lemma empty_mults: "(1 + 12628251887681593754) * 11160318154034397359 = (3598261098927028469 :: u64)" "17724099618688986929 * 11160318154034397359 = (5847117651594756735 :: u64)" "9205982536862410065 * 11160318154034397359 = (4195456095302173279 :: u64)" "4195456095302170157 * 11160318154034397359 = (4280929829096573123 :: u64)"
   "k2 + 96 = 11160318154034397359"
  by (simp_all add: k2_def)

lemma empty_mix: "ShiftMix 4195456095302173279 = 4195456095302170157"
  by (simp add: ShiftMix_def)

lemma empty_hash: "HashLen33to64 (replicate 48 0) 0 48 = Some 4280929829096573123"
proof -
  have "Rotate 0 n = 0" for n by (simp add: Rotate_def)
  then have "HashLen33to64 (replicate 48 0) 0 48 =
      (let mul = k2 + 96 in Some (ShiftMix (swap64 (swap64 ((1 + swap64 mul) * mul) * mul) * mul) * mul))"
    unfolding HashLen33to64_def by (simp add: fetch_zeros)
  then show ?thesis by (simp only: Let_def empty_mults empty_swaps empty_mix)
qed

definition demo_tracker_config :: tapsdk_tracker_config where
  "demo_tracker_config = \<lparr>ct_topic = None, ct_endpoint = None, ct_access_keyid = None, ct_access_key_secret = None, ct_project = None,
     ct_log_store = None, ct_hash = 0\<rparr>"

lemma demo_CreateConfig:
  "\<exists>cfg. CreateConfig demo_tracker_config = Some (cfg, demo_tracker_config\<lparr>ct_hash := 4280929829096573123\<rparr>)"
proof -
  have "CityHash64 (concat (map (\<lambda>w. le_digits 8 (unat w)) [0 :: u64, 0, 0, 0, 0, 0])) 0 48 = Some 4280929829096573123"
    unfolding concat_zeros by (simp add: CityHash64_def empty_hash)
  then show ?thesis
    by (simp add: CreateConfig_def Config_Hash_def demo_tracker_config_def ToString_def city_string_def CityHash64_def [of _ _ 0])
qed

lemma run_api_returns:
  "sdk_wf s \<Longrightarrow> \<forall>(env, mem, call) \<in> set calls. \<forall>s. call_valid env mem call s \<and> \<not> load_undefined env call s \<and> \<not> store_undefined env call s \<Longrightarrow>
   \<exists>s'. run_api calls s = Some s'"
proof (induction calls arbitrary: s)
  case (Cons c calls)
  obtain env mem call where c: "c = (env, mem, call)" by (cases c)
  have "do_api env mem call s \<noteq> Undef"
    using do_api_defined [OF Cons.prems(1)] Cons.prems(2) by (simp add: c io_defined_def)
  then obtain s1 where s1: "after (do_api env mem call s) = Some s1"
    by (cases "do_api env mem call s") (auto simp: after_def)
  have "sdk_wf s1" using after_keeps [OF do_api_wf Cons.prems(1) s1] .
  from Cons.IH [OF this] Cons.prems(2) s1 show ?case by (simp add: c)
qed simp

lemma create_success:
  assumes "tapsdk_tracker_create env (Some c) True s = Ret (TAPSDK_SUCCESS, r) s1"
  shows "sdk_inited s" "trk_inited (sdk_tracker s)" "\<exists>cfg c' configs. pick_config c (tracker_configs s) = Some (cfg, c', configs)"
  using assms
  by (auto simp: tapsdk_tracker_create_def create_message_def io_bind_def io_prim split: if_splits option.splits)

text \<open>The state after the first call.\<close>

lemma demo_started:
  "\<exists>s d. tapsdk_init (demo_sdk_env 1000) (Some demo_api_config) demo_sdk_start = Ret TAPSDK_SUCCESS s \<and> api_reachable s \<and> sdk_inited s
     \<and> inited s \<and> duration_statistics s = Some d \<and> queued d = [] \<and> room d = 2 ^ 32 - 1 \<and> game_id d = '''' \<and> trk_inited (sdk_tracker s)
     \<and> tracker_configs s = Map.empty"
proof -
  obtain s d where "tapsdk_init (demo_sdk_env 1000) (Some demo_api_config) demo_sdk_start = Ret TAPSDK_SUCCESS s"
    and "sdk_inited s" "inited s" "duration_statistics s = Some d" "queued d = []" "room d = 2 ^ 32 - 1" "game_id d = ''''"
      "sdk_tracker s = demo_tracker" "tracker_configs s = Map.empty"
    using demo_init by (auto simp: demo_sdk_start_def sdk_start_def)
  moreover have "api_reachable demo_sdk_start" unfolding demo_sdk_start_def by (rule api_reachable.start)
  ultimately show ?thesis
    using api_reachable.ret [of demo_sdk_start "demo_sdk_env 1000" "\<lambda>_. None" "ApiInit (Some demo_api_config)"] demo_tracker_ok(2) by auto
qed

section \<open>Properties\<close>

text \<open>
  C19: the state of the SDK stays well formed. Under any sequence of API calls, whatever they return or
  throw and whatever the background threads do in between, an initialised SDK has its event bus, its timer
  and a device, every stored tracker configuration is stored under its own hash, and every live message
  handle is below the counter and belongs to a message with a configuration.
\<close>

theorem api_state_wf:
  assumes "api_reachable s"
  shows "sdk_wf s"
  using assms by (rule api_reachable_wf)

theorem api_state_wf_witness:
  "\<exists>s. tapsdk_init (demo_sdk_env 1000) (Some demo_api_config) demo_sdk_start = Ret TAPSDK_SUCCESS s \<and> sdk_wf s \<and> current_device s \<noteq> None"
proof -
  obtain s where s: "tapsdk_init (demo_sdk_env 1000) (Some demo_api_config) demo_sdk_start = Ret TAPSDK_SUCCESS s" "api_reachable s" "sdk_inited s"
    using demo_started by blast
  from api_state_wf [OF s(2)] s show ?thesis by (auto simp: sdk_wf_def)
qed

text \<open>
  C22: the C interface adds no undefined behaviour. In every reachable state, before and after
  initialisation, a call with valid pointers and live handles never dereferences a null event bus, device,
  message or configuration, nor reads out of bounds to hash a configuration: if a call is undefined, then it is an
  initialisation during which loading the cache files of the tracker is undefined, or the flush of a live message
  that was not flushed before, which has its configuration and hash, during which storing it in a cache file is.
\<close>

theorem api_calls_defined:
  assumes "api_reachable s" and "call_valid env mem call s"
  shows "do_api env mem call s \<noteq> Undef \<or> load_undefined env call s \<or> store_undefined env call s"
  using do_api_defined [OF api_reachable_wf [OF assms(1)] assms(2)] by (auto simp: io_defined_def)

theorem api_calls_defined_witness:
  "\<exists>s. tapsdk_init (demo_sdk_env 1000) (Some demo_api_config) demo_sdk_start = Ret TAPSDK_SUCCESS s \<and>
     do_api (demo_sdk_env 2000) (\<lambda>_. Some \<lparr>cu_contain_tap_info = True, cu_user_id = Some ''alice''\<rparr>) (ApiUser (Some 7)) s \<noteq> Undef \<and>
     do_api (demo_sdk_env 2000) (\<lambda>_. None) (ApiCreate (Some demo_tracker_config) True) s \<noteq> Undef"
proof -
  obtain s where s: "tapsdk_init (demo_sdk_env 1000) (Some demo_api_config) demo_sdk_start = Ret TAPSDK_SUCCESS s" "api_reachable s"
    using demo_started by blast
  have "call_valid (demo_sdk_env 2000) (\<lambda>_. Some \<lparr>cu_contain_tap_info = True, cu_user_id = Some ''alice''\<rparr>) (ApiUser (Some 7)) s"
    "call_valid (demo_sdk_env 2000) (\<lambda>_. None) (ApiCreate (Some demo_tracker_config) True) s"
    by (simp_all add: config_texts_def demo_tracker_config_def ToString_def)
  from this [THEN api_calls_defined [OF s(2)]] s(1) show ?thesis
    by (auto simp: load_undefined_def store_undefined_def)
qed

text \<open>
  C28: the initialisation protocol. Before a successful \<^verbatim>\<open>tapsdk_init\<close> every other call is refused with
  \<^verbatim>\<open>TAPSDK_NO_INIT\<close> and changes nothing. An attempt with invalid input changes nothing; an attempt with
  valid input, even a failing one, is the last that can succeed: from then on the SDK counts as
  initialised inside, and \<^verbatim>\<open>tapsdk_init\<close> never returns success again.
\<close>

theorem api_init_protocol:
  assumes "api_reachable s"
  shows "(\<not> sdk_inited s \<longrightarrow> (\<forall>c. call \<noteq> ApiInit c) \<longrightarrow> do_api env mem call s = Ret TAPSDK_NO_INIT s)
    \<and> (\<not> init_input_ok c \<longrightarrow> tapsdk_init env (Some c) s = Ret TAPSDK_INVALID_INPUT s)
    \<and> (init_input_ok c \<longrightarrow> tapsdk_init env (Some c) s = Ret r s' \<longrightarrow>
         inited s' \<and> r \<in> {TAPSDK_SUCCESS, TAPSDK_ERROR} \<and> (r = TAPSDK_SUCCESS \<longrightarrow> \<not> inited s \<and> sdk_inited s'))"
  using needs_init [of s call env mem] init_attempt [OF api_reachable_wf [OF assms], of c env r s'] tapsdk_init_cases [of env c s]
  by auto

theorem api_init_protocol_witness:
  "do_api (demo_sdk_env 0) (\<lambda>_. None) ApiForeground demo_sdk_start = Ret TAPSDK_NO_INIT demo_sdk_start
   \<and> (\<exists>s. tapsdk_init (demo_sdk_env 1000) (Some demo_api_config) demo_sdk_start = Ret TAPSDK_SUCCESS s \<and>
         (\<forall>r s'. tapsdk_init (demo_sdk_env 2000) (Some demo_api_config) s = Ret r s' \<longrightarrow> r = TAPSDK_ERROR))"
proof -
  have start: "api_reachable demo_sdk_start" unfolding demo_sdk_start_def by (rule api_reachable.start)
  have n: "\<not> sdk_inited demo_sdk_start" by (simp add: demo_sdk_start_def sdk_start_def)
  have ok: "init_input_ok demo_api_config" by (simp add: init_input_ok_def demo_api_config_def)
  obtain s where s: "tapsdk_init (demo_sdk_env 1000) (Some demo_api_config) demo_sdk_start = Ret TAPSDK_SUCCESS s" "api_reachable s" "inited s"
    using demo_started by blast
  have "r = TAPSDK_ERROR" if "tapsdk_init (demo_sdk_env 2000) (Some demo_api_config) s = Ret r s'" for r s'
    using api_init_protocol [OF s(2), of ApiForeground "demo_sdk_env 2000" "\<lambda>_. None" demo_api_config r s'] ok that s(3) by auto
  with s(1) api_init_protocol [OF start, of ApiForeground "demo_sdk_env 0" "\<lambda>_. None" demo_api_config TAPSDK_SUCCESS s] n show ?thesis
    by blast
qed

text \<open>
  C11: the interface refines the duration component. Once duration statistics run, any sequence of API
  calls (exceptions caught by the caller, invalid input and repeated initialisation included) drives the
  component exactly like the handler calls it stands for, at the clock of each call; so while the queue
  has room the events it reports tile the playing time.
\<close>

theorem api_refines_duration:
  assumes "api_reachable s" and "sdk_inited s" and "duration_statistics s = Some d"
    and "\<forall>(env, mem, call) \<in> set calls. se_ops env = P" and "run_api calls s = Some s'"
    and "handled = concat (map (\<lambda>(env, mem, call). map (Pair (se_now env)) (dur_calls mem call)) calls)"
  shows "\<exists>d'. duration_statistics s' = Some d' \<and> d' = foldl (dur_handle P) d handled \<and>
     (length handled \<le> room d \<longrightarrow> (\<exists>es. queued d' = queued d @ es \<and> chained (session_stamp d) es))"
  using run_api_dur [OF api_reachable_wf [OF assms(1)] assms(2-5)] dur_run_chain [of handled d P] assms(6) by auto

theorem api_refines_duration_witness:
  "\<exists>s d s' d'. tapsdk_init (demo_sdk_env 1000) (Some demo_api_config) demo_sdk_start = Ret TAPSDK_SUCCESS s \<and>
     duration_statistics s = Some d \<and> run_api [(demo_sdk_env 2000, \<lambda>_. None, ApiGame (Some \<lparr>cg_client_id = Some ''g'', cg_identify = Some ''p'', cg_app_version = None\<rparr>)),
              (demo_sdk_env 3000, \<lambda>_. None, ApiBackground)] s = Some s' \<and> duration_statistics s' = Some d' \<and> chained (session_stamp d) (queued d')"
proof -
  let ?calls = "[(demo_sdk_env 2000, \<lambda>_. None, ApiGame (Some \<lparr>cg_client_id = Some ''g'', cg_identify = Some ''p'', cg_app_version = None\<rparr>)),
      (demo_sdk_env 3000, \<lambda>_. None, ApiBackground)]"
  obtain s d where s: "tapsdk_init (demo_sdk_env 1000) (Some demo_api_config) demo_sdk_start = Ret TAPSDK_SUCCESS s" "api_reachable s"
      "sdk_inited s" "duration_statistics s = Some d" "queued d = []" "room d = 2 ^ 32 - 1"
    using demo_started by blast
  have "\<forall>(env, mem, call) \<in> set ?calls. \<forall>s. call_valid env mem call s \<and> \<not> load_undefined env call s \<and> \<not> store_undefined env call s"
    by (auto simp: load_undefined_def store_undefined_def)
  then obtain s' where s': "run_api ?calls s = Some s'"
    using run_api_returns [OF api_reachable_wf [OF s(2)]] by blast
  have "\<forall>(env, mem, call) \<in> set ?calls. se_ops env = example_ops" by (simp add: demo_sdk_env_def)
  from api_refines_duration [OF s(2-4) this s' refl] s s' show ?thesis by auto
qed

text \<open>
  A tracker configuration is kept for its hash. A successful \<^verbatim>\<open>tapsdk_tracker_create\<close> with hash 0 fills in
  the hash; a later call that passes this hash gets a message with the configuration of the first call,
  whatever else its struct holds, and leaves the first message alone.
\<close>

theorem tracker_config_kept:
  assumes "api_reachable s" and "ct_hash c = 0" and "tapsdk_tracker_create env (Some c) True s = Ret (TAPSDK_SUCCESS, Some c', Some k) s1"
    and "ct_hash c' \<noteq> 0" and "ct_hash c2 = ct_hash c'"
  shows "\<exists>m m2 s2 cfg. api_msgs s1 k = Some m \<and> tm_config m = Some cfg \<and> topic cfg = ToString (ct_topic c) \<and> log_store cfg = ToString (ct_log_store c)
     \<and> tapsdk_tracker_create env2 (Some c2) True s1 = Ret (TAPSDK_SUCCESS, Some c2, Some (Suc k)) s2
     \<and> api_msgs s2 (Suc k) = Some m2 \<and> tm_config m2 = Some cfg \<and> api_msgs s2 k = Some m"
proof -
  note pre = create_success [OF assms(3)]
  obtain cfg c1 configs where p: "pick_config c (tracker_configs s) = Some (cfg, c1, configs)" using pre(3) by blast
  from tracker_create_eq [OF api_reachable_wf [OF assms(1)] pre(1,2) p, of env] assms(3)
  obtain m where m: "tm_config m = Some cfg" and c': "c1 = c'" "k = api_next s"
    and s1: "s1 = s\<lparr>tracker_configs := configs, api_msgs := (api_msgs s)(k \<mapsto> m), api_next := Suc k\<rparr>" by auto
  note new = pick_config_new [OF assms(2) p, unfolded c']
  have "configs (ct_hash c2) = Some (Some cfg)" using new assms(5) by simp
  then have p2: "pick_config c2 (tracker_configs s1) = Some (cfg, c2, configs)"
    using assms(4,5) by (simp add: s1 pick_config_known)
  have "sdk_wf s1" using io_specD(1) [OF tracker_create_wf api_reachable_wf [OF assms(1)] assms(3)] .
  from tracker_create_eq [OF this _ _ p2, of env2] pre(1,2)
  obtain m2 where m2: "tapsdk_tracker_create env2 (Some c2) True s1 = Ret (TAPSDK_SUCCESS, Some c2, Some (Suc k))
      (s1\<lparr>tracker_configs := configs, api_msgs := (api_msgs s1)(Suc k \<mapsto> m2), api_next := Suc (Suc k)\<rparr>)" "tm_config m2 = Some cfg"
    by (auto simp: s1)
  have "api_msgs s1 k = Some m" by (simp add: s1)
  then show ?thesis using m m2 new by (intro exI [of _ m] exI [of _ m2] exI [of _ cfg]) auto
qed

theorem tracker_config_kept_witness:
  "\<exists>s c' s1. tapsdk_init (demo_sdk_env 1000) (Some demo_api_config) demo_sdk_start = Ret TAPSDK_SUCCESS s \<and>
     tapsdk_tracker_create (demo_sdk_env 2000) (Some demo_tracker_config) True s = Ret (TAPSDK_SUCCESS, Some c', Some (api_next s)) s1 \<and>
     (\<exists>s2 m2. tapsdk_tracker_create (demo_sdk_env 3000) (Some (c'\<lparr>ct_topic := Some ''other''\<rparr>)) True s1
         = Ret (TAPSDK_SUCCESS, Some (c'\<lparr>ct_topic := Some ''other''\<rparr>), Some (Suc (api_next s))) s2
       \<and> api_msgs s2 (Suc (api_next s)) = Some m2 \<and> map_option topic (tm_config m2) = Some '''')"
proof -
  obtain s where s: "tapsdk_init (demo_sdk_env 1000) (Some demo_api_config) demo_sdk_start = Ret TAPSDK_SUCCESS s" "api_reachable s"
      "sdk_inited s" "trk_inited (sdk_tracker s)"
    using demo_started by blast
  obtain cfg h where cfg: "CreateConfig demo_tracker_config = Some (cfg, demo_tracker_config\<lparr>ct_hash := h\<rparr>)" and h: "h \<noteq> 0"
    using demo_CreateConfig by auto
  have "\<exists>configs. pick_config demo_tracker_config (tracker_configs s) = Some (cfg, demo_tracker_config\<lparr>ct_hash := h\<rparr>, configs)"
    using cfg by (simp add: pick_config_def demo_tracker_config_def)
  then obtain s1 where s1: "tapsdk_tracker_create (demo_sdk_env 2000) (Some demo_tracker_config) True s =
      Ret (TAPSDK_SUCCESS, Some (demo_tracker_config\<lparr>ct_hash := h\<rparr>), Some (api_next s)) s1"
    using tracker_create_eq [OF api_reachable_wf [OF s(2)] s(3,4)] by blast
  have z: "ct_hash demo_tracker_config = 0" "ToString (ct_topic demo_tracker_config) = ''''"
    by (simp_all add: demo_tracker_config_def ToString_def)
  from tracker_config_kept [OF s(2) z(1) s1, of "demo_tracker_config\<lparr>ct_hash := h, ct_topic := Some ''other''\<rparr>" "demo_sdk_env 3000"] h z s(1) s1
  show ?thesis by (intro exI [of _ s] exI [of _ "demo_tracker_config\<lparr>ct_hash := h\<rparr>"] exI [of _ s1]) auto
qed

end
