(* ===== verification/Sdk_Flush.thy ===== *)
theory Sdk_Flush
  imports Sdk_Calls
begin

text \<open>
  The way of a tracked message through the C interface: \<^verbatim>\<open>tapsdk_tracker_create\<close>, any number of
  \<^verbatim>\<open>tapsdk_tracker_msg_add_param\<close> and \<^verbatim>\<open>tapsdk_tracker_msg_add_content\<close>, \<^verbatim>\<open>tapsdk_tracker_flush\<close>, down to the cache file
  that holds it.
\<close>

section \<open>Filling a message\<close>

text \<open>Additions to a message: whether it is a parameter, the key and the value.\<close>

type_synonym addition = "bool \<times> string \<times> string"

fun add_call :: "nat \<Rightarrow> addition \<Rightarrow> api_call" where
  "add_call k (param, key, value) = (if param then ApiParam (Some k) (Some key) (Some value) else ApiContent (Some k) (Some key) (Some value))"

definition added :: "addition list \<Rightarrow> track_msg \<Rightarrow> track_msg" where
  "added adds msg = msg\<lparr>proto := \<lparr>log_contents = log_contents (proto msg) @ map snd (filter (\<lambda>a. \<not> fst a) adds),
      log_commons = log_commons (proto msg) @ map snd (filter fst adds)\<rparr>, dirty := dirty msg \<or> adds \<noteq> []\<rparr>"

lemma added_Cons: "added adds (added [a] msg) = added (a # adds) msg"
  by (cases a) (simp add: added_def)

lemma add_call_step:
  assumes "sdk_inited s" and "api_msgs s k = Some msg" and "\<not> flushed msg"
  shows "do_api env mem (add_call k a) s = Ret TAPSDK_SUCCESS (s\<lparr>api_msgs := (api_msgs s)(k \<mapsto> added [a] msg)\<rparr>)"
proof (cases a)
  case (fields param key v)
  have "added [a] msg = msg\<lparr>proto := (proto msg)\<lparr>log_contents := log_contents (proto msg) @ [(key, v)]\<rparr>, dirty := True\<rparr>" if "\<not> param"
    using that fields by (cases "proto msg") (simp add: added_def)
  moreover have "added [a] msg = msg\<lparr>proto := (proto msg)\<lparr>log_commons := log_commons (proto msg) @ [(key, v)]\<rparr>, dirty := True\<rparr>" if "param"
    using that fields by (cases "proto msg") (simp add: added_def)
  ultimately show ?thesis
    using assms fields
    by (simp add: tapsdk_tracker_msg_add_param_def tapsdk_tracker_msg_add_content_def add_to_message_def when_inited_def R_UNLESS_def
        on_message_def AddParam_def AddContent_def io_bind_def io_seq_def io_throws_def io_prim)
qed

lemma add_calls_run:
  assumes "sdk_inited s" and "api_msgs s k = Some msg" and "\<not> flushed msg"
  shows "\<exists>msgs. run_api (map (\<lambda>a. (env, mem, add_call k a)) adds) s = Some (s\<lparr>api_msgs := msgs\<rparr>) \<and> msgs k = Some (added adds msg)
     \<and> (\<forall>j. j \<noteq> k \<longrightarrow> msgs j = api_msgs s j)"
  using assms
proof (induction adds arbitrary: s msg)
  case Nil
  then show ?case by (intro exI [of _ "api_msgs s"]) (simp add: added_def)
next
  case (Cons a adds)
  let ?s = "s\<lparr>api_msgs := (api_msgs s)(k \<mapsto> added [a] msg)\<rparr>"
  have "after (do_api env mem (add_call k a) s) = Some ?s" using add_call_step [OF Cons.prems] by (simp add: after_def)
  moreover have "sdk_inited ?s" "api_msgs ?s k = Some (added [a] msg)" "\<not> flushed (added [a] msg)"
    using Cons.prems by (simp_all add: added_def)
  from Cons.IH [OF this] obtain msgs where "run_api (map (\<lambda>a. (env, mem, add_call k a)) adds) ?s = Some (?s\<lparr>api_msgs := msgs\<rparr>)"
      "msgs k = Some (added adds (added [a] msg))" "\<forall>j. j \<noteq> k \<longrightarrow> msgs j = api_msgs ?s j" by blast
  ultimately show ?case by (intro exI [of _ msgs]) (simp add: added_Cons)
qed

section \<open>Flushing it\<close>

lemma flush_success:
  assumes "tapsdk_tracker_flush env (Some k) s = Ret TAPSDK_SUCCESS s'" and "sdk_inited s" and "api_msgs s k = Some msg"
  shows "\<exists>m t. FlushTracker (se_track env) (Some msg) (sdk_tracker s) = Ret (True, m) t \<and> sdk_tracker s' = t \<and> api_msgs s' k = None"
  using assms
  by (auto simp: tapsdk_tracker_flush_def when_inited_def R_UNLESS_def on_message_def flush_message_def on_tracker_def io_bind_def io_seq_def
      io_prim split: Disk_File.outcome.splits if_splits)

lemma flush_returns:
  assumes "FlushTracker (se_track env) (Some msg) (sdk_tracker s) = Ret (True, m) t" and "sdk_inited s" and "api_msgs s k = Some msg"
  shows "tapsdk_tracker_flush env (Some k) s = Ret TAPSDK_SUCCESS (s\<lparr>sdk_tracker := t, api_msgs := (api_msgs s)(k := None)\<rparr>)"
  using assms
  by (simp add: tapsdk_tracker_flush_def when_inited_def R_UNLESS_def on_message_def flush_message_def on_tracker_def io_bind_def io_seq_def io_prim)

lemma FillCommons_keeps:
  assumes "\<And>ps m m'. P m \<Longrightarrow> add_params ps m = Inr m' \<Longrightarrow> P m'" and "P m" and "FillCommons tc m = Inr m'"
  shows "P m'"
  using assms(2,3) unfolding FillCommons_def throws_simps
  by (auto simp del: add_params.simps split: option.splits prod.splits) (blast intro: assms(1))+

lemma create_message_fresh:
  assumes "create_message env cfg s = Ret (Some m) s'"
  shows "\<not> flushed m \<and> log_contents (proto m) = [] \<and> create_time m = se_time env"
proof -
  let ?P = "\<lambda>m. \<not> flushed m \<and> log_contents (proto m) = [] \<and> create_time m = se_time env"
  have keep: "?P m'" if "?P m0" "add_params ps m0 = Inr m'" for ps m0 m'
    using that
  proof (induction ps arbitrary: m0)
    case (Cons p ps)
    obtain k v where p: "p = (k, v)" by (cases p)
    from Cons.prems(2) obtain m1 where m1: "AddParam k v m0 = Inr m1" "add_params ps m1 = Inr m'" by (auto simp: p throws_simps)
    have "?P m1" using m1(1) Cons.prems(1) by (auto simp: AddParam_def throws_simps)
    from Cons.IH [OF this m1(2)] show ?case .
  qed simp
  obtain tc where "CreateTracker tc (se_time env) (Some cfg) (sdk_tracker s) = Inr (Some m)"
    using assms by (auto simp: create_message_def io_throws_def split: if_splits option.splits sum.splits)
  then have "FillCommons tc (new_TrackMessageImpl (se_time env) (Some cfg)) = Inr m"
    by (cases "FillCommons tc (new_TrackMessageImpl (se_time env) (Some cfg))") (auto simp: CreateTracker_def split: if_splits)
  note fill = this
  have "?P (new_TrackMessageImpl (se_time env) (Some cfg))" by (simp add: new_TrackMessageImpl_def)
  from FillCommons_keeps [where P = ?P, OF keep this fill] show ?thesis .
qed

lemma create_success_message:
  assumes "sdk_wf s" and "tapsdk_tracker_create env (Some c) True s = Ret (TAPSDK_SUCCESS, Some c', Some k) s1"
  shows "\<exists>m0. api_msgs s1 k = Some m0 \<and> \<not> flushed m0 \<and> log_contents (proto m0) = [] \<and> create_time m0 = se_time env \<and> sdk_inited s1
     \<and> sdk_tracker s1 = sdk_tracker s"
proof -
  note pre = create_success [OF assms(2)]
  obtain cfg c1 configs where p: "pick_config c (tracker_configs s) = Some (cfg, c1, configs)" using pre(3) by blast
  obtain m where m: "create_message env cfg (s\<lparr>tracker_configs := configs\<rparr>) = Ret (Some m) (s\<lparr>tracker_configs := configs\<rparr>)"
    using create_message_eq [of "s\<lparr>tracker_configs := configs\<rparr>" env cfg] pre(2) wf_event_bus(2) [OF assms(1) pre(1)] by auto
  have "k = api_next s" "s1 = s\<lparr>tracker_configs := configs, api_msgs := (api_msgs s)(k \<mapsto> m), api_next := Suc k\<rparr>"
    using assms(2) pre(1) p m by (auto simp: tapsdk_tracker_create_def io_bind_def io_seq_def io_prim)
  then show ?thesis using create_message_fresh [OF m] pre(1) by simp
qed

section \<open>Properties\<close>

text \<open>
  C6: a tracked message reaches the disk as the application wrote it. After \<^verbatim>\<open>tapsdk_tracker_create\<close> every
  addition succeeds, in order, on this message alone; and when \<^verbatim>\<open>tapsdk_tracker_flush\<close> then reports success, on
  a system whose calls succeed, exactly one cache of the configuration has gained one record at its end:
  the creation time, the contents the application added and the common parameters followed by its own. The
  handle is gone.
\<close>

theorem api_message_stored:
  assumes "api_reachable s" and "tapsdk_tracker_create env (Some c) True s = Ret (TAPSDK_SUCCESS, Some c', Some k) s1"
    and "api_msgs s1 k = Some m0" and "tm_config m0 = Some cfg0" and "config_ready (te_cache (se_track env)) h cfg0 cfg"
    and "\<forall>n. env_os (te_cache (se_track env)) n" and "wire_format (env_msg (te_cache (se_track env))) utf8_msg"
    and "trk_ok (se_track env) f E (sdk_tracker s1)"
  shows "\<exists>s2 msg. run_api (map (\<lambda>a. (env, mem, add_call k a)) adds) s1 = Some s2 \<and> api_msgs s2 k = Some msg
     \<and> (\<forall>j. j \<noteq> k \<longrightarrow> api_msgs s2 j = api_msgs s1 j)
     \<and> stored msg = (se_time env, \<lparr>log_contents = map snd (filter (\<lambda>a. \<not> fst a) adds),
                                  log_commons = log_commons (proto m0) @ map snd (filter fst adds)\<rparr>)
     \<and> (\<forall>s3. tapsdk_tracker_flush env (Some k) s2 = Ret TAPSDK_SUCCESS s3 \<longrightarrow>
            api_msgs s3 k = None \<and> stored_once (se_track env) h msg f E (sdk_tracker s3))"
proof -
  have m0: "\<not> flushed m0" "log_contents (proto m0) = []" "create_time m0 = se_time env" "sdk_inited s1"
    using create_success_message [OF api_reachable_wf [OF assms(1)] assms(2)] assms(3) by auto
  let ?msg = "added adds m0"
  obtain msgs where run: "run_api (map (\<lambda>a. (env, mem, add_call k a)) adds) s1 = Some (s1\<lparr>api_msgs := msgs\<rparr>)"
    and k: "msgs k = Some ?msg" and others: "\<forall>j. j \<noteq> k \<longrightarrow> msgs j = api_msgs s1 j"
    using add_calls_run [OF m0(4) assms(3) m0(1)] by blast
  have cfg: "tm_config ?msg = Some cfg0" using assms(4) by (simp add: added_def)
  have "api_msgs s3 k = None \<and> stored_once (se_track env) h ?msg f E (sdk_tracker s3)"
    if flush: "tapsdk_tracker_flush env (Some k) (s1\<lparr>api_msgs := msgs\<rparr>) = Ret TAPSDK_SUCCESS s3" for s3
  proof -
    obtain m t where t: "FlushTracker (se_track env) (Some ?msg) (sdk_tracker s1) = Ret (True, m) t" "sdk_tracker s3 = t" "api_msgs s3 k = None"
      using flush_success [OF flush] m0(4) k by auto
    from flush_outcome [OF assms(6,7,5) cfg assms(8) t(1)] t(2,3) show ?thesis by simp
  qed
  moreover have "stored ?msg = (se_time env, \<lparr>log_contents = map snd (filter (\<lambda>a. \<not> fst a) adds),
      log_commons = log_commons (proto m0) @ map snd (filter fst adds)\<rparr>)"
    using m0(2,3) by (simp add: stored_def added_def)
  ultimately show ?thesis using run k others by (intro exI [of _ "s1\<lparr>api_msgs := msgs\<rparr>"] exI [of _ ?msg]) simp
qed

lemma demo_hash_config:
  "\<exists>cfg h. CreateConfig demo_tracker_config = Some (cfg, demo_tracker_config\<lparr>ct_hash := h\<rparr>) \<and> h \<noteq> 0 \<and> config_ready demo_env h cfg cfg
     \<and> length (config_bytes demo_env cfg) = 0"
proof -
  obtain cfg h where c: "CreateConfig demo_tracker_config = Some (cfg, demo_tracker_config\<lparr>ct_hash := h\<rparr>)" "h \<noteq> 0"
    using demo_CreateConfig by auto
  let ?c = "\<lparr>topic = [], endpoint = [], access_keyid = [], access_key_secret = [], project = [], log_store = [], cfg_hash = 0\<rparr>"
  have h: "Config_Hash ?c = Some (h, ?c\<lparr>cfg_hash := h\<rparr>)" "cfg = ?c\<lparr>cfg_hash := h\<rparr>"
    using c by (auto simp: CreateConfig_def demo_tracker_config_def ToString_def Config_Hash_def bind_eq_Some_conv)
  then have "Config_Hash cfg = Some (h, cfg)" using c(2) by (simp add: Config_Hash_def)
  moreover have "length (config_bytes demo_env cfg) = 0"
    by (simp add: h(2) config_bytes_def demo_env_def disk_config_of_def cfg_codec_def cfg_fields_def string_field_def message_bytes_def)
  moreover have "config_ok h cfg" using h by (simp add: config_ok_def)
  ultimately show ?thesis using c by (auto simp: config_ready_def cache_capability_def)
qed

definition demo_commons :: track_commons where
  "demo_commons = \<lparr>tc_sdk_version = ''1'', tc_device_id = ''dev'', tc_uuid = ''u'', tc_device = Some empty_DeviceInfo, tc_game = None\<rparr>"

lemma demo_fill:
  "\<exists>m. FillCommons demo_commons (new_TrackMessageImpl 5 (Some cfg)) = Inr m \<and> msg_bytes demo_env (added [(False, ''k'', ''v'')] m) \<le> 200"
  by (simp add: FillCommons_def demo_commons_def empty_DeviceInfo_def new_TrackMessageImpl_def AddParam_def TAP_TRACKER_VERSION_def added_def
      msg_bytes_def GetSerializeSize_def demo_env_def msg_codec_def content_bytes_def string_field_def length_field message_bytes_def)

lemma demo_create:
  "\<exists>s c' s1 m0 cfg h. tapsdk_init (demo_sdk_env 1000) (Some demo_api_config) demo_sdk_start = Ret TAPSDK_SUCCESS s \<and> api_reachable s
     \<and> tapsdk_tracker_create (demo_sdk_env 2000) (Some demo_tracker_config) True s = Ret (TAPSDK_SUCCESS, Some c', Some 0) s1
     \<and> api_msgs s1 0 = Some m0 \<and> sdk_inited s1 \<and> sdk_tracker s1 = demo_tracker \<and> \<not> flushed m0 \<and> tm_config m0 = Some cfg
     \<and> config_ready demo_env h cfg cfg \<and> length (config_bytes demo_env cfg) = 0
     \<and> msg_bytes demo_env (added [(False, ''k'', ''v'')] m0) \<le> 200"
proof -
  obtain d where i: "tapsdk_init (demo_sdk_env 1000) (Some demo_api_config) demo_sdk_start =
     Ret TAPSDK_SUCCESS (demo_sdk_start\<lparr>current_device := Some (api_Device (the (cc_device demo_api_config))), sdk_config := Config_of_api demo_api_config,
       inited := True, timer_started := True, event_bus := True, duration_statistics := Some d, login_client := Some Login_Init,
       sdk_tracker := demo_tracker, sdk_inited := True\<rparr>)" (is "_ = Ret _ ?s") using demo_init by blast
  have r: "api_reachable ?s"
    using api_reachable.ret [OF api_reachable.start, of "demo_sdk_env 1000" "\<lambda>_. None" "ApiInit (Some demo_api_config)"] i
    by (simp add: demo_sdk_start_def)
  have f: "sdk_inited ?s" "sdk_tracker ?s = demo_tracker" "tracker_configs ?s = Map.empty" "api_next ?s = 0" "api_msgs ?s = Map.empty"
    by (simp_all add: demo_sdk_start_def sdk_start_def)
  obtain cfg h where c: "CreateConfig demo_tracker_config = Some (cfg, demo_tracker_config\<lparr>ct_hash := h\<rparr>)" "config_ready demo_env h cfg cfg"
      "length (config_bytes demo_env cfg) = 0"
    using demo_hash_config by blast
  let ?s1 = "?s\<lparr>tracker_configs := [cfg_hash cfg \<mapsto> Some cfg]\<rparr>"
  have p: "pick_config demo_tracker_config (tracker_configs ?s) =
      Some (cfg, demo_tracker_config\<lparr>ct_hash := h\<rparr>, [cfg_hash cfg \<mapsto> Some cfg])"
    using c(1) f(3) by (simp add: pick_config_def demo_tracker_config_def)
  have tc: "commons_of (demo_sdk_env 2000) ?s1 = Some demo_commons"
    by (simp add: commons_of_def demo_commons_def demo_sdk_start_def sdk_start_def demo_sdk_env_def api_Device_def demo_api_config_def
        Config_of_api_def ToString_def)
  obtain m where m: "FillCommons demo_commons (new_TrackMessageImpl 5 (Some cfg)) = Inr m"
      "msg_bytes demo_env (added [(False, ''k'', ''v'')] m) \<le> 200" using demo_fill by blast
  have cm: "create_message (demo_sdk_env 2000) cfg ?s1 = Ret (Some m) ?s1"
    using tc m(1) demo_tracker_ok(2) by (simp add: create_message_def CreateTracker_def io_throws_def demo_sdk_env_def)
  have cr: "tapsdk_tracker_create (demo_sdk_env 2000) (Some demo_tracker_config) True ?s =
      Ret (TAPSDK_SUCCESS, Some (demo_tracker_config\<lparr>ct_hash := h\<rparr>), Some 0) (?s1\<lparr>api_msgs := [0 \<mapsto> m], api_next := 1\<rparr>)"
    using f p cm by (simp add: tapsdk_tracker_create_def io_bind_def io_seq_def io_prim)
  have "tm_config m = Some cfg" using FillCommons_config [OF m(1)] by (simp add: new_TrackMessageImpl_def)
  with create_message_fresh [OF cm] i r cr m(2) c(2,3) show ?thesis by force
qed

theorem api_message_stored_witness:
  "\<exists>s c' s1 s2 s3 h msg. tapsdk_init (demo_sdk_env 1000) (Some demo_api_config) demo_sdk_start = Ret TAPSDK_SUCCESS s
     \<and> tapsdk_tracker_create (demo_sdk_env 2000) (Some demo_tracker_config) True s = Ret (TAPSDK_SUCCESS, Some c', Some 0) s1
     \<and> run_api [(demo_sdk_env 2000, \<lambda>_. None, ApiContent (Some 0) (Some ''k'') (Some ''v''))] s1 = Some s2
     \<and> tapsdk_tracker_flush (demo_sdk_env 2000) (Some 0) s2 = Ret TAPSDK_SUCCESS s3 \<and> api_msgs s3 0 = None
     \<and> log_contents (snd (stored msg)) = [(''k'', ''v'')] \<and> stored_once demo_track_env h msg (\<lambda>_. (demo_config, [])) {} (sdk_tracker s3)"
proof -
  obtain s c' s1 m0 cfg h where i: "tapsdk_init (demo_sdk_env 1000) (Some demo_api_config) demo_sdk_start = Ret TAPSDK_SUCCESS s" "api_reachable s"
    and c: "tapsdk_tracker_create (demo_sdk_env 2000) (Some demo_tracker_config) True s = Ret (TAPSDK_SUCCESS, Some c', Some 0) s1"
    and m0: "api_msgs s1 0 = Some m0" "sdk_inited s1" "sdk_tracker s1 = demo_tracker" "\<not> flushed m0" "tm_config m0 = Some cfg"
    and cfg: "config_ready demo_env h cfg cfg" "length (config_bytes demo_env cfg) = 0"
    and size: "msg_bytes demo_env (added [(False, ''k'', ''v'')] m0) \<le> 200"
    using demo_create by blast
  let ?env = "demo_sdk_env 2000" and ?a = "(False, ''k'', ''v'')"
  have env: "te_cache (se_track ?env) = demo_env" "se_track ?env = demo_track_env" by (simp_all add: demo_sdk_env_def demo_track_env_def)
  obtain s2 msg where st: "run_api (map (\<lambda>a. (?env, \<lambda>_. None, add_call 0 a)) [?a]) s1 = Some s2" "api_msgs s2 0 = Some msg"
    "stored msg = (se_time ?env, \<lparr>log_contents = map snd (filter (\<lambda>a. \<not> fst a) [?a]), log_commons = log_commons (proto m0) @ map snd (filter fst [?a])\<rparr>)"
    "\<forall>s3. tapsdk_tracker_flush ?env (Some 0) s2 = Ret TAPSDK_SUCCESS s3 \<longrightarrow>
            api_msgs s3 0 = None \<and> stored_once demo_track_env h msg (\<lambda>_. (demo_config, [])) {} (sdk_tracker s3)"
    using api_message_stored [OF i(2) c m0(1,5), of h cfg "\<lambda>_. (demo_config, [])" "{}" "\<lambda>_. None" "[?a]"] env cfg demo_env_ok(1,2)
      demo_tracker_ok(1) m0(3) by auto
  have s2: "s2 = s1\<lparr>api_msgs := (api_msgs s1)(0 \<mapsto> added [?a] m0)\<rparr>" "msg = added [?a] m0"
    using st(1,2) add_call_step [OF m0(2,1,4), of ?env "\<lambda>_. None" ?a] by (auto simp: after_def)
  have "used_size demo_env cfg [] + msg_bytes demo_env (added [?a] m0) \<le> cache_capability"
    using size cfg by (simp add: used_size_def config_ready_def cache_capability_def)
  then obtain m t where t: "FlushTracker demo_track_env (Some (added [?a] m0)) demo_tracker = Ret (True, m) t"
    using flush_first [of demo_track_env h cfg cfg "added [?a] m0", OF _ _ _ demo_tracker_ok] cfg demo_env_ok(1) m0(4,5) env
    by (auto simp: added_def)
  let ?s3 = "s2\<lparr>sdk_tracker := t, api_msgs := (api_msgs s2)(0 := None)\<rparr>"
  have f: "tapsdk_tracker_flush ?env (Some 0) s2 = Ret TAPSDK_SUCCESS ?s3"
    using flush_returns [of ?env "added [?a] m0" s2 m t 0] t m0(2,3) env(2) s2 by simp
  have "api_msgs ?s3 0 = None \<and> stored_once demo_track_env h msg (\<lambda>_. (demo_config, [])) {} (sdk_tracker ?s3)"
    using st(4) f by blast
  moreover have "run_api [(?env, \<lambda>_. None, ApiContent (Some 0) (Some ''k'') (Some ''v''))] s1 = Some s2"
    using st(1) by simp
  moreover have "log_contents (snd (stored msg)) = [(''k'', ''v'')]" using st(3) by simp
  ultimately show ?thesis using i(1) c f by blast
qed

end
