(* ===== verification/Tracker_Delivery.thy ===== *)
theory Tracker_Delivery
  imports Tracker_Flush "HOL-Library.Multiset"
begin

text \<open>
  The way of the tracked messages through the tracker (\<^verbatim>\<open>source/tracker/tracker_impl.cpp\<close>): what the end of
  an upload, the timer check and a new start of the process do to the messages in the cache files, and
  the account of a whole run, from the flushes to the requests that the server accepted.
\<close>

section \<open>Emptying a cache\<close>

lemma holds_opened:
  assumes "cache_holds env cfg ms c"
  shows "opened_with (holds_header env (dc_hash c) cfg ms) c" and "dc_config c = Some cfg" and "config_ready env (dc_hash c) cfg cfg"
proof -
  have magic: "length (ch_magic (holds_header env (dc_hash c) cfg ms)) = 4" by (simp add: holds_header_def cache_magic_def)
  from assms obtain rest where d: "df_data c = Some (header_bytes (holds_header env (dc_hash c) cfg ms) @ rest)"
      "cache_header c = Mapped (length (the (df_data c)))" "cur_size c = length (the (df_data c))"
      "cache_capability \<le> length (the (df_data c))" "length (the (df_data c)) \<le> max_cache_size + cache_capability"
    by (auto simp: cache_holds_def file_holds_def)
  have "length (header_bytes (holds_header env (dc_hash c) cfg ms)) = 28" by simp
  then show "opened_with (holds_header env (dc_hash c) cfg ms) c"
    using assms magic d by (auto simp: opened_with_def cache_holds_def)
  show "dc_config c = Some cfg" "config_ready env (dc_hash c) cfg cfg"
    using assms config_ok_Hash by (auto simp: cache_holds_def config_ready_def)
qed

lemma Cache_Clear_holds:
  assumes "\<forall>n. env_os env n" and "cache_holds env cfg ms c"
  shows "\<exists>c'. Cache_Clear env c = Ret () c' \<and> cache_holds env cfg [] c'"
  using Cache_Reset_opened [OF assms(1) holds_opened [OF assms(2)]] by (auto simp: Cache_Clear_def)


section \<open>The end of an upload\<close>

lemma trk_ok_object:
  "trk_ok env f E s \<Longrightarrow> (h, i, k) \<in> E \<Longrightarrow> cache_holds (te_cache env) (fst (f k)) (snd (f k)) (trk_objs s k)"
  "trk_ok env f E s \<Longrightarrow> (h, i, k) \<in> E \<Longrightarrow> config_ok h (fst (f k))"
  by (auto simp: trk_ok_def holds_all_def)

lemma trk_ok_pending:
  assumes "trk_ok env f E s" and "trk_pending s = Some (h, i, k, rq)"
  shows "(h, i, k) \<in> E"
    and "carries env (fst (f k)) (filter readable (snd (f k))) rq"
proof -
  show "(h, i, k) \<in> E" using assms by (cases rq) (auto simp: trk_ok_def entries_def)
  show "carries env (fst (f k)) (filter readable (snd (f k))) rq"
    using assms by (cases rq) (auto simp: trk_ok_def pending_ok_def)
qed

text \<open>The cache of the upload is put back, with the object \<open>c\<close>.\<close>

lemma put_back_ok:
  assumes ok: "trk_ok env f E s" and p: "trk_pending s = Some (h, i, k, rq)"
    and c: "cache_holds (te_cache env) (fst (f k)) ms c"
  shows "trk_ok env (f(k := (fst (f k), ms))) E (s\<lparr>trk_pending := None, trk_objs := (trk_objs s)(k := c), trk_calls := n,
     trackers_cache := (trackers_cache s)(h := emplace i k (trackers_cache s h)), latest_upload_failed := l, uploading := False\<rparr>)"
    (is "trk_ok env ?f E ?s'")
proof -
  have inv: "trk_inv s" using ok by (simp add: trk_ok_def)
  have "shape ?s' = ((trackers_cache s)(h := emplace i k (trackers_cache s h)), tracker_cache_ids s, False, None, trk_next s)"
    by (simp add: shape_def)
  note b = pending_back [OF inv p this]
  have E: "entries s = E" using ok by (simp add: trk_ok_def)
  have "holds_all env ?s' ?f"
    unfolding holds_all_def b(2) E using trk_ok_object [OF ok] c by auto
  moreover have "pending_ok env ?s' ?f" by (simp add: pending_ok_def)
  moreover have "free_files ?s'" using ok by (simp add: trk_ok_def free_files_def)
  ultimately show ?thesis unfolding trk_ok_def using b E by blast
qed

lemma UploadFinished_ok:
  assumes os: "\<forall>n. env_os (te_cache env) n" and ok: "trk_ok env f E s" and p: "trk_pending s = Some (h, i, k, rq)"
  shows "\<exists>s'. UploadFinished env success s = Ret () s' \<and> trk_pending s' = None
     \<and> trk_ok env (if success then f(k := (fst (f k), [])) else f) E s'
     \<and> latest_upload_failed s' = (if success then latest_upload_failed s else Some k)"
proof -
  have inv: "trk_inv s" using ok by (simp add: trk_ok_def)
  have free: "i \<notin> fst ` set (trackers_cache s h)" using trk_invD(7) [OF inv p] .
  have c: "cache_holds (te_cache env) (fst (f k)) (snd (f k)) (trk_objs s k)" by (rule trk_ok_object(1) [OF ok trk_ok_pending(1) [OF ok p]])
  show ?thesis
  proof (cases success)
    case True
    obtain c' where c': "Cache_Clear (te_cache env) ((trk_objs s k)\<lparr>df_calls := trk_calls s\<rparr>) = Ret () c'"
        "cache_holds (te_cache env) (fst (f k)) [] c'"
      using Cache_Clear_holds [OF os, of "fst (f k)" "snd (f k)" "(trk_objs s k)\<lparr>df_calls := trk_calls s\<rparr>"] c by auto
    let ?s' = "s\<lparr>trk_pending := None, trk_objs := (trk_objs s)(k := c'), trk_calls := df_calls c',
        trackers_cache := (trackers_cache s)(h := emplace i k (trackers_cache s h)), latest_upload_failed := latest_upload_failed s, uploading := False\<rparr>"
    have "UploadFinished env success s = Ret () ?s'"
      using True p c'(1) free
      by (simp add: UploadFinished_def io_seq_def io_bind_def io_upd_def io_catch_def on_cache_def emplace_cache_def)
    moreover have "trk_ok env (f(k := (fst (f k), []))) E ?s'" by (rule put_back_ok [OF ok p c'(2)])
    ultimately show ?thesis using True by auto
  next
    case False
    let ?s' = "s\<lparr>trk_pending := None, trk_objs := (trk_objs s)(k := trk_objs s k), trk_calls := trk_calls s,
        trackers_cache := (trackers_cache s)(h := emplace i k (trackers_cache s h)), latest_upload_failed := Some k, uploading := False\<rparr>"
    have "UploadFinished env success s = Ret () ?s'"
      using False p free by (simp add: UploadFinished_def io_seq_def io_bind_def io_upd_def emplace_cache_def)
    moreover have "trk_ok env (f(k := (fst (f k), snd (f k)))) E ?s'" by (rule put_back_ok [OF ok p c])
    ultimately show ?thesis using False by auto
  qed
qed

section \<open>The timer check\<close>

lemma check_loop_ok:
  "\<forall>(h, i, k)\<in>set xs. (h, i, k) \<in> E \<Longrightarrow> io_spec (trk_ok env f E) (check_loop xs cur) (\<lambda>_. trk_ok env f E) (\<lambda>_. False)"
proof (induction xs arbitrary: cur)
  case Nil
  then show ?case by (simp add: io_spec_ret)
next
  case (Cons x xs)
  obtain h i k where x: "x = (h, i, k)" by (cases x)
  have IH: "io_spec (trk_ok env f E) (check_loop xs cur') (\<lambda>_. trk_ok env f E) (\<lambda>_. False)" for cur'
    using Cons by simp
  have "io_spec (trk_ok env f E) (on_cache k GetCount) (\<lambda>_. trk_ok env f E) (\<lambda>_. False)"
    unfolding io_spec_def
  proof (intro allI impI)
    fix s assume ok: "trk_ok env f E s"
    have "(h, i, k) \<in> E" using Cons.prems x by simp
    from on_cache_reads [OF ok this, of GetCount] GetCount_holds
    show "case on_cache k GetCount s of Ret _ s' \<Rightarrow> trk_ok env f E s' | Throw _ _ \<Rightarrow> False | Undef \<Rightarrow> True" by fastforce
  qed
  then show ?case
    unfolding x check_loop.simps
  proof (rule io_spec_bind, intro io_spec_if IH)
    show "io_spec (trk_ok env f E) (io_bind (io_get latest_upload_failed) (\<lambda>failed.
        if failed \<noteq> Some k then check_loop xs (h, i) else io_ret (h, i))) (\<lambda>_. trk_ok env f E) (\<lambda>_. False)"
      by (rule io_spec_bind [where R = "\<lambda>_. trk_ok env f E"]) (auto intro!: io_spec_get io_spec_ret IH)
  qed
qed

lemma check_upload_event_ok:
  assumes wf: "wire_format (env_msg (te_cache env)) utf8_msg"
  shows "io_spec (trk_ok env f E) (check_upload_event env order) (\<lambda>_. trk_ok env f E) (\<lambda>_. False)"
proof -
  have "io_spec (trk_ok env f E) (CheckAndUploadTrackers env order) (\<lambda>_. trk_ok env f E) (\<lambda>_. False)"
    unfolding io_spec_def
  proof (intro allI impI)
    fix s assume ok: "trk_ok env f E s"
    let ?xs = "concat (map (\<lambda>hash. map (\<lambda>(idx, k). (hash, idx, k)) (trackers_cache s hash)) order)"
    let ?up = "\<lambda>(hash, index). if hash \<noteq> 0 then UploadTrackerCacheAsync env hash index else io_ret ()"
    have "\<forall>(h, i, k)\<in>set ?xs. (h, i, k) \<in> E" using ok map_entry by (fastforce simp: trk_ok_def)
    moreover have "io_spec (trk_ok env f E) (?up p) (\<lambda>_. trk_ok env f E) (\<lambda>_. False)" for p
      using Upload_ok' [OF wf] by (cases p) (simp add: io_spec_ret)
    ultimately have "io_spec (trk_ok env f E) (io_bind (check_loop ?xs (0, 0)) ?up) (\<lambda>_. trk_ok env f E) (\<lambda>_. False)"
      by (intro io_spec_bind [OF check_loop_ok])
    then show "case CheckAndUploadTrackers env order s of Ret _ s' \<Rightarrow> trk_ok env f E s' | Throw _ _ \<Rightarrow> False | Undef \<Rightarrow> True"
      using ok by (simp add: CheckAndUploadTrackers_def io_spec_def)
  qed
  moreover have "trk_ok env f E (s\<lparr>check_posts := ps\<rparr>)" if "trk_ok env f E s" for s ps
  proof -
    have "entries (s\<lparr>check_posts := ps\<rparr>) = entries s" by (simp add: entries_def)
    then show ?thesis using that by (simp add: trk_ok_def holds_all_def pending_ok_def free_files_def)
  qed
  ultimately show ?thesis
    unfolding check_upload_event_def by (intro io_spec_seq io_spec_upd)
qed


section \<open>The start of an upload\<close>

text \<open>The readable messages of a cache can be made into a request.\<close>

definition uploadable :: "track_env \<Rightarrow> TrackerConfig \<times> (u32 \<times> TrackMsgCacheProto) list \<Rightarrow> bool" where
  "uploadable e = (\<lambda>(cfg, ms). ms \<noteq> [] \<longrightarrow>
     (let up = te_upload e; raw = SerializeToUpload up cfg (map (loaded (te_cache e) (Some cfg)) (filter readable ms))
      in raw \<noteq> [] \<and> up_lz4 up raw \<noteq> [] \<and> length (up_lz4 up raw) + 64 \<le> 2 ^ 32 \<and> length (up_md5_buffer up) = 64))"

lemma Upload_starts_with:
  assumes wf: "wire_format (env_msg (te_cache e)) utf8_msg" and ok: "trk_ok e f E s" and up: "\<not> uploading s"
    and k: "(i, k) \<in> set (trackers_cache s h)"
    and rq: "upload_request (te_upload e) (fst (f k)) (map (loaded (te_cache e) (Some (fst (f k)))) (filter readable (snd (f k)))) = Some (Inr rq)"
  shows "\<exists>s0. UploadTrackerCacheAsync e h i s = Ret () s0 \<and> trk_pending s0 = Some (h, i, k, rq) \<and> trk_ok e f E s0
     \<and> trackers_cache s0 = (trackers_cache s)(h := map_erase i (trackers_cache s h)) \<and> latest_upload_failed s0 = latest_upload_failed s"
proof -
  have inv: "trk_inv s" using ok by (simp add: trk_ok_def)
  have m: "map_of (trackers_cache s h) i = Some k" using k trk_invD(2) [OF inv] by simp
  have "(h, i, k) \<in> E" using k ok map_entry by (auto simp: trk_ok_def)
  then have c: "cache_holds (te_cache e) (fst (f k)) (snd (f k)) (trk_objs s k)" by (rule trk_ok_object(1) [OF ok])
  have load: "Cache_Load (te_cache e) ((trk_objs s k)\<lparr>df_calls := trk_calls s\<rparr>)
        = Ret (map (loaded (te_cache e) (Some (fst (f k)))) (filter readable (snd (f k)))) ((trk_objs s k)\<lparr>df_calls := trk_calls s\<rparr>)"
      and cfg: "dc_config (trk_objs s k) = Some (fst (f k))"
    using Cache_Load_holds [OF wf, of "fst (f k)" "snd (f k)"] c by (simp_all add: cache_holds_def)
  obtain s0 where s0: "UploadTrackerCacheAsync e h i s = Ret () s0" "trk_pending s0 = Some (h, i, k, rq)"
      "trackers_cache s0 = (trackers_cache s)(h := map_erase i (trackers_cache s h))" "latest_upload_failed s0 = latest_upload_failed s"
    using up m load cfg rq by (simp add: UploadTrackerCacheAsync_def start_upload_def io_bind_def io_get_def io_upd_def on_cache_def)
  then show ?thesis using io_specD(1) [OF Upload_ok' [OF wf] ok s0(1)] by blast
qed

lemma Upload_starts:
  assumes "wire_format (env_msg (te_cache e)) utf8_msg" and "trk_ok e f E s" and "\<not> uploading s"
    and "(i, k) \<in> set (trackers_cache s h)" and "uploadable e (f k)" "snd (f k) \<noteq> []"
  shows "\<exists>s0 rq. UploadTrackerCacheAsync e h i s = Ret () s0 \<and> trk_pending s0 = Some (h, i, k, rq) \<and> trk_ok e f E s0
     \<and> trackers_cache s0 = (trackers_cache s)(h := map_erase i (trackers_cache s h)) \<and> latest_upload_failed s0 = latest_upload_failed s"
proof -
  obtain rq where "upload_request (te_upload e) (fst (f k)) (map (loaded (te_cache e) (Some (fst (f k)))) (filter readable (snd (f k)))) = Some (Inr rq)"
    using upload_request_made [OF refl, of "te_upload e" "fst (f k)" "map (loaded (te_cache e) (Some (fst (f k)))) (filter readable (snd (f k)))"] assms(5,6)
    by (auto simp: uploadable_def split_def Let_def)
  with Upload_starts_with [OF assms(1-4)] show ?thesis by blast
qed


text \<open>
  A cache whose messages all have a string that is not UTF-8 stops the tracker. \<^verbatim>\<open>Load\<close> reads none of them, so the
  upload ends at once with an error, on the thread that started it; its callback locks the mutex this
  thread holds, which is undefined behaviour and in practice a deadlock.
\<close>

theorem unreadable_cache_locks:
  assumes "wire_format (env_msg (te_cache e)) utf8_msg" and ok: "trk_ok e f E s" and "\<not> uploading s"
    and k: "(i, k) \<in> set (trackers_cache s h)" and "\<forall>(time, m)\<in>set (snd (f k)). \<not> utf8_msg m"
  shows "UploadTrackerCacheAsync e h i s = Undef"
proof -
  have m: "map_of (trackers_cache s h) i = Some k" using k trk_invD(2) ok by (simp add: trk_ok_def)
  have "(h, i, k) \<in> E" using k ok map_entry by (auto simp: trk_ok_def)
  then have c: "cache_holds (te_cache e) (fst (f k)) (snd (f k)) (trk_objs s k)" by (rule trk_ok_object(1) [OF ok])
  have "filter readable (snd (f k)) = []" using assms(5) by (auto simp: filter_empty_conv readable_def)
  then have load: "Cache_Load (te_cache e) ((trk_objs s k)\<lparr>df_calls := trk_calls s\<rparr>) = Ret [] ((trk_objs s k)\<lparr>df_calls := trk_calls s\<rparr>)"
    using Cache_Load_holds [OF assms(1), of "fst (f k)" "snd (f k)"] c by simp
  have "dc_config (trk_objs s k) = Some (fst (f k))" using c by (simp add: cache_holds_def)
  then show ?thesis
    using m load assms(3) by (simp add: UploadTrackerCacheAsync_def start_upload_def io_bind_def io_get_def io_undef_def on_cache_def
        upload_request_def SerializeToUpload_def)
qed

section \<open>Changing the clock and the system\<close>

lemma cache_holds_env:
  assumes "env_msg env = env_msg env'" and "env_cfg env = env_cfg env'"
  shows "cache_holds env = cache_holds env'"
proof -
  have r: "records env = records env'" and c: "config_bytes env = config_bytes env'"
    using assms by (simp_all add: fun_eq_iff records_def record_bytes_def config_bytes_def)
  then have "file_holds env = file_holds env'"
    by (simp add: fun_eq_iff file_holds_def holds_header_def used_size_def)
  then show ?thesis using c by (simp add: fun_eq_iff cache_holds_def)
qed

lemma same_lib_carries: "same_lib env env' \<Longrightarrow> carries env = carries env'"
  by (simp add: fun_eq_iff carries_def same_lib_def)

lemma same_lib_ok:
  assumes "same_lib env env'"
  shows "trk_ok env = trk_ok env'"
proof -
  have "cache_holds (te_cache env) = cache_holds (te_cache env')"
    using assms by (intro cache_holds_env) (simp_all add: same_lib_def)
  then show ?thesis
    using same_lib_carries [OF assms] by (simp add: fun_eq_iff trk_ok_def holds_all_def pending_ok_def)
qed

section \<open>What is held\<close>

text \<open>The messages of the caches, each with the hash of its configuration.\<close>

definition held :: "(nat \<Rightarrow> TrackerConfig \<times> (u32 \<times> TrackMsgCacheProto) list) \<Rightarrow> (u64 \<times> u32 \<times> nat) set
    \<Rightarrow> (u64 \<times> u32 \<times> TrackMsgCacheProto) multiset" where
  "held f E = (\<Sum>(h, i, k)\<in>E. image_mset (Pair h) (mset (snd (f k))))"

lemma entry_unique:
  assumes "trk_inv s" and "(h, i, k) \<in> entries s" and "(h, i, k') \<in> entries s"
  shows "k = k'"
proof -
  have d: "distinct (map fst (trackers_cache s h))" by (rule trk_invD(2) [OF assms(1)])
  have p: "(i, l) \<notin> set (trackers_cache s h)" if "trk_pending s = Some (h, i, m, rq)" for l m rq
    using trk_invD(7) [OF assms(1) that] by force
  have e: "(i, l) \<in> set (trackers_cache s h) \<or> (\<exists>rq. trk_pending s = Some (h, i, l, rq))" if "(h, i, l) \<in> entries s" for l
    using that unfolding entries_def by blast
  show ?thesis
  proof (cases "\<exists>m rq. trk_pending s = Some (h, i, m, rq)")
    case True
    then obtain m rq where "trk_pending s = Some (h, i, m, rq)" by blast
    then show ?thesis using e [OF assms(2)] e [OF assms(3)] p by simp
  next
    case False
    then show ?thesis using e [OF assms(2)] e [OF assms(3)] eq_key_imp_eq_value [OF d] by blast
  qed
qed

lemma finite_entries:
  assumes "trk_inv s"
  shows "finite (entries s)"
proof -
  have "inj_on (snd \<circ> snd) (entries s)" using trk_invD(4) [OF assms] by (fastforce intro: inj_onI)
  moreover have "(snd \<circ> snd) ` entries s \<subseteq> {..<trk_next s}" using trk_invD(5) [OF assms] by fastforce
  ultimately show ?thesis using finite_subset finite_imageD finite_lessThan by metis
qed

lemma held_old:
  assumes "finite E" and "(h, i, k) \<in> E" and "\<And>h' i'. (h', i', k) \<in> E \<Longrightarrow> h' = h \<and> i' = i"
  shows "held (f(k := (c, ms))) E + image_mset (Pair h) (mset (snd (f k))) = held f E + image_mset (Pair h) (mset ms)"
proof -
  have "(\<Sum>(h, i, k')\<in>E - {(h, i, k)}. image_mset (Pair h) (mset (snd ((f(k := (c, ms))) k'))))
      = (\<Sum>(h, i, k')\<in>E - {(h, i, k)}. image_mset (Pair h) (mset (snd (f k'))))"
  proof (intro sum.cong refl)
    fix x assume "x \<in> E - {(h, i, k)}"
    then have "snd (snd x) \<noteq> k" using assms(3) [of "fst x" "fst (snd x)"] by auto
    then show "(case x of (h, i, k') \<Rightarrow> image_mset (Pair h) (mset (snd ((f(k := (c, ms))) k'))))
        = (case x of (h, i, k') \<Rightarrow> image_mset (Pair h) (mset (snd (f k'))))" by (auto simp: split_def)
  qed
  then show ?thesis
    unfolding held_def using assms(1,2) by (simp add: sum.remove [of E "(h, i, k)"] ac_simps)
qed

lemma held_new:
  assumes "finite E" and "\<And>h' i'. (h', i', k) \<notin> E"
  shows "held (f(k := (c, ms))) (insert (h, i, k) E) = held f E + image_mset (Pair h) (mset ms)"
proof -
  have "(\<Sum>(h, i, k')\<in>E. image_mset (Pair h) (mset (snd ((f(k := (c, ms))) k')))) = held f E"
    unfolding held_def using assms(2) by (intro sum.cong) auto
  then show ?thesis unfolding held_def using assms by (simp add: sum.insert ac_simps)
qed

lemma stored_once_held:
  assumes ok: "trk_ok env f E s" and st: "stored_once env h msg f E s'"
  shows "\<exists>f'. trk_ok env f' (entries s') s' \<and> held f' (entries s') = held f E + {#(h, stored msg)#}"
proof -
  have fin: "finite E" using ok finite_entries by (auto simp: trk_ok_def)
  from st obtain i k old cfg where k: "entries s' = E \<and> (h, i, k) \<in> E \<and> old = snd (f k)
      \<or> entries s' = insert (h, i, k) E \<and> (\<forall>h' i'. (h', i', k) \<notin> E) \<and> old = []"
      and ok': "trk_ok env (f(k := (cfg, old @ [stored msg]))) (entries s') s'" (is "trk_ok env ?f' _ _")
    unfolding stored_once_def by blast
  from k have "held ?f' (entries s') = held f E + {#(h, stored msg)#}"
  proof
    assume a: "entries s' = E \<and> (h, i, k) \<in> E \<and> old = snd (f k)"
    then have "h' = h \<and> i' = i" if "(h', i', k) \<in> E" for h' i' using trk_invD(4) [of s] ok that by (auto simp: trk_ok_def)
    from held_old [where k = k and f = f and c = cfg and ms = "old @ [stored msg]", OF fin _ this] a show ?thesis by (simp add: ac_simps)
  next
    assume "entries s' = insert (h, i, k) E \<and> (\<forall>h' i'. (h', i', k) \<notin> E) \<and> old = []"
    with held_new [OF fin, of k f cfg "[stored msg]" h i] show ?thesis by simp
  qed
  with ok' show ?thesis by blast
qed

lemma stored_none_held:
  assumes ok: "trk_ok env f E s" and st: "stored_none env h f E s'"
  shows "\<exists>f'. trk_ok env f' (entries s') s' \<and> held f' (entries s') = held f E"
proof -
  from st obtain f' where f': "trk_ok env f' (entries s') s'" "E \<subseteq> entries s'"
      "\<And>h' i' k. (h', i', k) \<in> E \<Longrightarrow> f' k = f k" "\<And>h' i' k. (h', i', k) \<in> entries s' - E \<Longrightarrow> snd (f' k) = []"
    unfolding stored_none_def by blast
  have "finite (entries s')" using f'(1) finite_entries by (simp add: trk_ok_def)
  then have "held f' (entries s') = held f' E"
    unfolding held_def by (intro sum.mono_neutral_right) (use f'(2,4) in auto)
  also have "\<dots> = held f E" unfolding held_def by (intro sum.cong) (use f'(3) in auto)
  finally show ?thesis using f'(1) by blast
qed


section \<open>A new start\<close>

text \<open>
  What is on the disk when the process ends between two operations: the file of a cache that is in
  memory, or that is being uploaded, has the bytes of its mapping.
\<close>

definition object_at :: "tracker \<Rightarrow> u64 \<Rightarrow> u32 \<Rightarrow> nat option" where
  "object_at s h i =
     (case map_of (trackers_cache s h) i of
        Some k \<Rightarrow> Some k
      | None \<Rightarrow> (case trk_pending s of
                  Some (h', i', k, _) \<Rightarrow> if h' = h \<and> i' = i then Some k else None
                | None \<Rightarrow> None))"

definition disk_of :: "tracker \<Rightarrow> string \<Rightarrow> u8 list option" where
  "disk_of s name =
     (case cache_file_name name of
        Some (Inr (h, i)) \<Rightarrow>
          if name = DiskCachePath h i
          then (case object_at s h i of Some k \<Rightarrow> df_data (trk_objs s k) | None \<Rightarrow> trk_files s name)
          else trk_files s name
      | _ \<Rightarrow> trk_files s name)"

text \<open>
  The directory: one file per cache, in any order. Other entries are directories, or their names are
  not those of cache files.
\<close>

definition listing_of :: "tracker \<Rightarrow> (string \<times> bool) list \<Rightarrow> bool" where
  "listing_of s fs \<longleftrightarrow> distinct fs
     \<and> (\<forall>h i. (DiskCachePath h i, False) \<in> set fs \<longleftrightarrow> object_at s h i \<noteq> None)
     \<and> (\<forall>name h i. (name, False) \<in> set fs \<longrightarrow> cache_file_name name = Some (Inr (h, i)) \<longrightarrow> name = DiskCachePath h i)"

lemma object_at_entry:
  assumes "trk_inv s"
  shows "object_at s h i = Some k \<longleftrightarrow> (h, i, k) \<in> entries s"
proof
  have d: "distinct (map fst (trackers_cache s h))" by (rule trk_invD(2) [OF assms])
  assume "object_at s h i = Some k"
  then show "(h, i, k) \<in> entries s"
    using map_of_SomeD [of "trackers_cache s h" i] by (auto simp: object_at_def entries_def split: option.splits if_splits)
next
  have d: "distinct (map fst (trackers_cache s h))" by (rule trk_invD(2) [OF assms])
  assume "(h, i, k) \<in> entries s"
  then consider "(i, k) \<in> set (trackers_cache s h)" | rq where "trk_pending s = Some (h, i, k, rq)"
    unfolding entries_def by blast
  then show "object_at s h i = Some k"
  proof cases
    case 1
    then show ?thesis using d by (simp add: object_at_def)
  next
    case 2
    then have "map_of (trackers_cache s h) i = None" using trk_invD(7) [OF assms 2] by (simp add: map_of_eq_None_iff)
    then show ?thesis using 2 by (cases rq) (simp add: object_at_def)
  qed
qed

lemma disk_of_cache:
  assumes "object_at s h i = Some k"
  shows "disk_of s (DiskCachePath h i) = df_data (trk_objs s k)"
  using assms by (simp add: disk_of_def cache_name_roundtrip)


text \<open>A file that \<^verbatim>\<open>SyncLoadTrackersCache\<close> can load, with what it holds.\<close>

definition loadable :: "track_env \<Rightarrow> (string \<Rightarrow> u8 list option) \<Rightarrow> (u64 \<Rightarrow> u32 \<Rightarrow> TrackerConfig \<times> (u32 \<times> TrackMsgCacheProto) list)
    \<Rightarrow> u64 \<Rightarrow> u32 \<Rightarrow> bool" where
  "loadable env files F h i \<longleftrightarrow> unat i < MAX_CACHE_COUNT \<and> config_ok h (fst (F h i)) \<and> utf8_config (fst (F h i))
     \<and> length (config_bytes (te_cache env) (fst (F h i))) + 28 \<le> cache_capability
     \<and> (\<exists>d. files (DiskCachePath h i) = Some d \<and> file_holds (te_cache env) h (fst (F h i)) (snd (F h i)) d)"

lemma load_file:
  assumes os: "\<forall>n. env_os (te_cache env) n" and wf: "wire_format (env_cfg (te_cache env)) utf8_cfg"
    and s: "trk_inv s" "holds_all env s g" "\<And>k. (h, i, k) \<notin> entries s" and l: "loadable env (trk_files s) F h i"
  shows "\<exists>s'. io_bind (new_TrackerCache env (DiskCachePath h i) h None) (\<lambda>k.
        io_seq (emplace_cache env (DiskCachePath h i) h i k) (set_id h i True)) s = Ret () s'
     \<and> trk_inv s' \<and> entries s' = insert (h, i, trk_next s) (entries s) \<and> holds_all env s' (g(trk_next s := F h i))
     \<and> trk_files s' = trk_files s \<and> trk_pending s' = trk_pending s"
proof -
  let ?name = "DiskCachePath h i" and ?k = "trk_next s"
  from l obtain d where d: "trk_files s ?name = Some d" "file_holds (te_cache env) h (fst (F h i)) (snd (F h i)) d"
    by (auto simp: loadable_def)
  obtain c where c: "Cache_Init (te_cache env) (new_DiskCache (trk_files s ?name) (trk_dir s) (trk_calls s) h None) = Ret () c"
      "cache_holds (te_cache env) (fst (F h i)) (snd (F h i)) c"
    using Init_reopens [OF os wf d(2), of None] l d(1) by (auto simp: loadable_def)
  define s1 where "s1 = s\<lparr>trk_objs := (trk_objs s)(?k := c), trk_next := Suc ?k, trk_dir := df_parent c, trk_calls := df_calls c\<rparr>"
  have n: "new_TrackerCache env ?name h None s = Ret ?k s1" using c(1) by (simp add: new_TrackerCache_def s1_def)
  have "unat i < MAX_CACHE_COUNT" "\<not> tracker_cache_ids s h ! unat i"
    using l s(3) trk_invD(3) [OF s(1)] by (auto simp: loadable_def)
  then obtain s2 where s2: "io_seq (emplace_cache env ?name h i ?k) (set_id h i True) s1 = Ret () s2" "trk_inv s2"
      "entries s2 = insert (h, i, ?k) (entries s)" "s2 = s1\<lparr>tracker_cache_ids := tracker_cache_ids s2, trackers_cache := trackers_cache s2\<rparr>"
    using create_at_free(2) [OF s(1) _ _ n] by blast
  have t: "trk_objs s2 = (trk_objs s)(?k := c)" "trk_files s2 = trk_files s" "trk_pending s2 = trk_pending s"
    by (subst s2(4), simp add: s1_def)+
  have "(h', i', ?k) \<notin> entries s" for h' i' using trk_invD(5) [OF s(1), of h' i' ?k] by auto
  then have "holds_all env s2 (g(?k := F h i))"
    using s(2) c(2) l by (auto simp: holds_all_def s2(3) t loadable_def)
  then show ?thesis using n s2 t by (simp add: io_bind_def)
qed

text \<open>The tracker while the files are loaded: the entries so far hold what their files hold.\<close>

definition loading :: "track_env \<Rightarrow> (string \<Rightarrow> u8 list option) \<Rightarrow> (u64 \<Rightarrow> u32 \<Rightarrow> TrackerConfig \<times> (u32 \<times> TrackMsgCacheProto) list)
    \<Rightarrow> (u64 \<times> u32) set \<Rightarrow> (nat \<Rightarrow> TrackerConfig \<times> (u32 \<times> TrackMsgCacheProto) list) \<Rightarrow> tracker \<Rightarrow> bool" where
  "loading env files F X g s \<longleftrightarrow> trk_inv s \<and> holds_all env s g \<and> trk_pending s = None \<and> trk_files s = files
     \<and> (\<forall>h i k. (h, i, k) \<in> entries s \<longrightarrow> g k = F h i) \<and> (\<forall>h i. (\<exists>k. (h, i, k) \<in> entries s) \<longleftrightarrow> (h, i) \<in> X)"

definition files_ok :: "track_env \<Rightarrow> (string \<Rightarrow> u8 list option) \<Rightarrow> (u64 \<Rightarrow> u32 \<Rightarrow> TrackerConfig \<times> (u32 \<times> TrackMsgCacheProto) list)
    \<Rightarrow> (u64 \<times> u32) set \<Rightarrow> (string \<times> bool) list \<Rightarrow> bool" where
  "files_ok env files F X fs \<longleftrightarrow> distinct fs \<and> (\<forall>name h i. (name, False) \<in> set fs \<longrightarrow> cache_file_name name = Some (Inr (h, i)) \<longrightarrow>
     name = DiskCachePath h i \<and> loadable env files F h i \<and> (h, i) \<notin> X)"

lemma DiskCachePath_inj [simp]: "DiskCachePath h' i' = DiskCachePath h i \<longleftrightarrow> h' = h \<and> i' = i"
  using cache_name_roundtrip by (metis option.inject prod.inject sum.inject(2))

lemma load_step:
  assumes os: "\<forall>n. env_os (te_cache env) n" and wf: "wire_format (env_cfg (te_cache env)) utf8_cfg"
    and s: "loading env files F X g s" and x: "files_ok env files F X ((DiskCachePath h i, False) # fs)"
  shows "\<exists>s1 g1. sync_load env ((DiskCachePath h i, False) # fs) s = sync_load env fs s1
     \<and> loading env files F (insert (h, i) X) g1 s1 \<and> files_ok env files F (insert (h, i) X) fs"
proof -
  let ?name = "DiskCachePath h i" and ?k = "trk_next s"
  have "loadable env files F h i \<and> (h, i) \<notin> X"
    using x cache_name_roundtrip [of h i] unfolding files_ok_def by (meson list.set_intros(1))
  then have l: "loadable env (trk_files s) F h i" and new: "(h, i, k) \<notin> entries s" for k
    using s unfolding loading_def by blast+
  have inv: "trk_inv s" and hold: "holds_all env s g" using s by (simp_all add: loading_def)
  obtain s1 where s1: "io_bind (new_TrackerCache env ?name h None) (\<lambda>k. io_seq (emplace_cache env ?name h i k) (set_id h i True)) s = Ret () s1"
      "trk_inv s1" "entries s1 = insert (h, i, ?k) (entries s)" "holds_all env s1 (g(?k := F h i))"
      "trk_files s1 = trk_files s" "trk_pending s1 = trk_pending s"
    using load_file [OF os wf inv hold new l] by blast
  have fresh: "(h', i', ?k) \<notin> entries s" for h' i' using trk_invD(5) [OF inv, of h' i' ?k] by auto
  have keys: "\<forall>h' i'. (\<exists>k. (h', i', k) \<in> entries s1) \<longleftrightarrow> (h', i') \<in> insert (h, i) X"
    and vals: "\<forall>h' i' k. (h', i', k) \<in> entries s1 \<longrightarrow> (g(?k := F h i)) k = F h' i'"
    using s s1(3) fresh unfolding loading_def by (blast, auto)
  then have "loading env files F (insert (h, i) X) (g(?k := F h i)) s1"
    using s s1(2,4,5,6) unfolding loading_def by simp
  moreover have "sync_load env ((?name, False) # fs) s = sync_load env fs s1"
    using s1(1) cache_name_roundtrip [of h i] by (simp add: io_seq_def io_bind_def io_catch_def)
  moreover have "files_ok env files F (insert (h, i) X) fs" using x by (auto simp: files_ok_def)
  ultimately show ?thesis by blast
qed

lemma sync_load_files:
  assumes os: "\<forall>n. env_os (te_cache env) n" and wf: "wire_format (env_cfg (te_cache env)) utf8_cfg"
  shows "loading env files F X g s \<Longrightarrow> files_ok env files F X fs \<Longrightarrow>
    \<exists>s' g'. sync_load env fs s = Ret () s' \<and> loading env files F (X \<union> {(h, i). (DiskCachePath h i, False) \<in> set fs}) g' s'"
proof (induction fs arbitrary: s g X)
  case Nil
  then show ?case by (auto simp: io_ret_def)
next
  case (Cons x fs)
  obtain name is_dir where x: "x = (name, is_dir)" by (cases x)
  show ?case
  proof (cases "\<not> is_dir \<and> (\<exists>h i. cache_file_name name = Some (Inr (h, i)))")
    case False
    then have "sync_load env (x # fs) s = sync_load env fs s" by (auto simp: x split: option.split sum.split)
    moreover have "{(h, i). (DiskCachePath h i, False) \<in> set (x # fs)} = {(h, i). (DiskCachePath h i, False) \<in> set fs}"
      using False cache_name_roundtrip by (auto simp: x)
    moreover have "files_ok env files F X fs" using Cons.prems(2) by (simp add: files_ok_def)
    ultimately show ?thesis using Cons.IH [OF Cons.prems(1)] by simp
  next
    case True
    then obtain h i where hi: "\<not> is_dir" "cache_file_name name = Some (Inr (h, i))" by blast
    then have x: "x = (DiskCachePath h i, False)" using Cons.prems(2) x by (auto simp: files_ok_def)
    obtain s1 g1 where s1: "sync_load env (x # fs) s = sync_load env fs s1" "loading env files F (insert (h, i) X) g1 s1"
        "files_ok env files F (insert (h, i) X) fs"
      using load_step [OF os wf Cons.prems(1) Cons.prems(2) [unfolded x]] unfolding x by blast
    have "X \<union> {(h, i). (DiskCachePath h i, False) \<in> set (x # fs)} = insert (h, i) X \<union> {(h, i). (DiskCachePath h i, False) \<in> set fs}"
      by (auto simp: x)
    then show ?thesis using Cons.IH [OF s1(2,3)] s1(1) by simp
  qed
qed

lemma sum_same_keys:
  assumes "inj_on p A" and "inj_on p B" and "p ` A = p ` B" and "\<And>x y. x \<in> A \<Longrightarrow> y \<in> B \<Longrightarrow> p x = p y \<Longrightarrow> g x = g' y"
  shows "sum g A = sum g' B"
proof -
  have "sum g A = (\<Sum>z\<in>p ` A. g (the_inv_into A p z))"
    using assms(1) by (simp add: sum.reindex the_inv_into_f_f)
  also have "\<dots> = (\<Sum>z\<in>p ` B. g' (the_inv_into B p z))"
  proof (rule sum.cong [OF assms(3)])
    fix z assume "z \<in> p ` B"
    then obtain x y where "x \<in> A" "y \<in> B" "p x = z" "p y = z" using assms(3) by (metis imageE)
    then show "g (the_inv_into A p z) = g' (the_inv_into B p z)"
      using assms(1,2,4) by (metis the_inv_into_f_f)
  qed
  also have "\<dots> = sum g' B" using assms(2) by (simp add: sum.reindex the_inv_into_f_f)
  finally show ?thesis .
qed

lemma held_same_keys:
  assumes "trk_inv s" and "trk_inv s'" and "\<And>h i. (\<exists>k. (h, i, k) \<in> entries s) \<longleftrightarrow> (\<exists>k. (h, i, k) \<in> entries s')"
    and "\<And>h i k k'. (h, i, k) \<in> entries s \<Longrightarrow> (h, i, k') \<in> entries s' \<Longrightarrow> f k = f' k'"
  shows "held f (entries s) = held f' (entries s')"
  unfolding held_def
proof (rule sum_same_keys [where p = "\<lambda>(h, i, k). (h, i)"])
  show "inj_on (\<lambda>(h, i, k). (h, i)) (entries s)" "inj_on (\<lambda>(h, i, k). (h, i)) (entries s')"
    using entry_unique [OF assms(1)] entry_unique [OF assms(2)] by (fastforce intro: inj_onI)+
  have "(h, i) \<in> (\<lambda>(h, i, k). (h, i)) ` entries s \<longleftrightarrow> (h, i) \<in> (\<lambda>(h, i, k). (h, i)) ` entries s'" for h i
    using assms(3) [of h i] by (force simp: image_iff)
  then show "(\<lambda>(h, i, k). (h, i)) ` entries s = (\<lambda>(h, i, k). (h, i)) ` entries s'" by (intro set_eqI) (simp add: split_paired_all)
qed (use assms(4) in fastforce)

text \<open>
  A new start finds every cache again, with its messages, if all configurations are UTF-8; an upload that was under
  way is forgotten.
\<close>

definition utf8_configs :: "tracker \<Rightarrow> bool" where
  "utf8_configs s \<longleftrightarrow> (\<forall>(h, i, k)\<in>entries s. \<forall>cfg. dc_config (trk_objs s k) = Some cfg \<longrightarrow> utf8_config cfg)"

lemma restart_ok:
  assumes os: "\<forall>n. env_os (te_cache env) n" and wf: "wire_format (env_cfg (te_cache env)) utf8_cfg"
    and ok: "trk_ok env f E s" and fs: "listing_of s fs" and utf8: "utf8_configs s"
  shows "\<exists>f' s'. Tracker_Init env gs True (Some fs) (tracker_start (disk_of s) dir objs) = Ret () s'
     \<and> trk_ok env f' (entries s') s' \<and> held f' (entries s') = held f E"
proof -
  have inv: "trk_inv s" and E: "entries s = E" using ok by (simp_all add: trk_ok_def)
  define F where "F h i = f (the (object_at s h i))" for h i
  let ?s0 = "(tracker_start (disk_of s) dir objs)\<lparr>tracker_group_size := (if gs \<noteq> 0 then gs else 2000)\<rparr>"
  have none: "entries ?s0 = {}" by (auto simp: entries_def tracker_start_def)
  have inv0: "trk_inv ?s0" by (simp add: trk_inv_def none) (simp add: tracker_start_def)
  have F: "F h i = f k" if "(h, i, k) \<in> E" for h i k using that object_at_entry [OF inv, of h i k] E by (simp add: F_def)
  have load: "loadable env (disk_of s) F h i" if k: "(h, i, k) \<in> E" for h i k
  proof -
    have c: "cache_holds (te_cache env) (fst (f k)) (snd (f k)) (trk_objs s k)" "config_ok h (fst (f k))"
      using trk_ok_object [OF ok k] by auto
    have "config_ok (dc_hash (trk_objs s k)) (fst (f k))" "dc_config (trk_objs s k) = Some (fst (f k))"
      using c(1) by (simp_all add: cache_holds_def)
    moreover have "utf8_config (fst (f k))" using calculation(2) utf8 k E by (force simp: utf8_configs_def)
    moreover have "dc_hash (trk_objs s k) = h" using c(2) calculation(1) by (simp add: config_ok_def)
    moreover have "object_at s h i = Some k" using object_at_entry [OF inv] k E by simp
    moreover have "unat i < MAX_CACHE_COUNT" using entry_id [OF inv] k E by blast
    ultimately show ?thesis using c F [OF k] by (auto simp: loadable_def disk_of_cache cache_holds_def)
  qed
  have files: "files_ok env (disk_of s) F {} fs"
    unfolding files_ok_def
  proof (intro conjI allI impI)
    show "distinct fs" using fs by (simp add: listing_of_def)
    fix name h i assume a: "(name, False) \<in> set fs" "cache_file_name name = Some (Inr (h, i))"
    then show n: "name = DiskCachePath h i" using fs by (auto simp: listing_of_def)
    then have "object_at s h i \<noteq> None" using fs a(1) by (simp add: listing_of_def)
    then obtain k where "(h, i, k) \<in> E" using object_at_entry [OF inv] E by auto
    then show "loadable env (disk_of s) F h i" by (rule load)
  qed simp
  have "loading env (disk_of s) F {} f ?s0"
    using inv0 none by (simp add: loading_def holds_all_def) (simp add: tracker_start_def)
  from sync_load_files [OF os wf this files]
  obtain s' g' where s': "sync_load env fs ?s0 = Ret () s'"
      "loading env (disk_of s) F ({} \<union> {(h, i). (DiskCachePath h i, False) \<in> set fs}) g' s'"
    by (elim exE conjE) (rule that)
  have inv': "trk_inv s'" "holds_all env s' g'" "trk_pending s' = None" "trk_files s' = disk_of s"
    "\<And>h i k. (h, i, k) \<in> entries s' \<Longrightarrow> g' k = F h i"
    and same: "(\<exists>k. (h, i, k) \<in> entries s') \<longleftrightarrow> (\<exists>k. (h, i, k) \<in> E)" for h i
    using s'(2) fs object_at_entry [OF inv] E by (auto simp: loading_def listing_of_def)
  define s'' where "s'' = s'\<lparr>check_posts := check_posts s' @ [0], trk_inited := True\<rparr>"
  have sh: "shape s'' = shape s'" and e: "entries s'' = entries s'" by (simp_all add: s''_def shape_def entries_def)
  have free: "free_files s''"
    unfolding free_files_def
  proof (intro allI impI)
    fix h i assume i: "i < MAX_CACHE_COUNT" "\<not> tracker_cache_ids s'' h ! i"
    let ?i = "of_nat i :: u32"
    have u: "unat ?i = i" using i(1) by (simp add: MAX_CACHE_COUNT_def unat_of_nat take_bit_eq_mod)
    have "\<not> (\<exists>k. (h, ?i, k) \<in> E)" using trk_invD(3) [OF inv'(1), of h ?i] i u same by (simp add: s''_def)
    then have "object_at s h ?i = None" "\<not> tracker_cache_ids s h ! i"
      using object_at_entry [OF inv, of h ?i] trk_invD(3) [OF inv, of h ?i] u i(1) E by auto
    then show "trk_files s'' (DiskCachePath h ?i) = None"
      using ok i(1) by (simp add: s''_def inv'(4) disk_of_def cache_name_roundtrip trk_ok_def free_files_def)
  qed
  have "Tracker_Init env gs True (Some fs) (tracker_start (disk_of s) dir objs) = Ret () s''"
    using s'(1) by (simp add: Tracker_Init_def SyncLoadTrackersCache_def io_seq_def io_bind_def io_upd_def io_assert_step s''_def)
  moreover have "trk_ok env g' (entries s'') s''"
    using inv'(1,2,3) free trk_inv_shape [OF sh] e by (simp add: trk_ok_def holds_all_def pending_ok_def) (simp add: s''_def)
  moreover have "held f (entries s) = held g' (entries s'')"
    using inv'(1,5) F same trk_inv_shape [OF sh] by (intro held_same_keys [OF inv]) (auto simp: e E)
  ultimately show ?thesis using E by auto
qed


section \<open>Runs\<close>

text \<open>
  Flushes, timer checks, ends of uploads, and the end of the process followed by a new start, in any order,
  on a system whose calls succeed; at a new start the configurations in the caches are UTF-8. Each operation has
  its own clock. The trace records the messages that a
  flush stored, with the hash of their configuration, and the requests the server accepted.
\<close>

definition healthy :: "track_env \<Rightarrow> track_env \<Rightarrow> bool" where
  "healthy env e \<longleftrightarrow> same_lib env e \<and> (\<forall>n. env_os (te_cache e) n)"

lemma healthyD:
  assumes "healthy env e"
  shows "\<forall>n. env_os (te_cache e) n" and "trk_ok env = trk_ok e"
    and "wire_format (env_msg (te_cache env)) utf8_msg \<Longrightarrow> wire_format (env_msg (te_cache e)) utf8_msg"
    and "wire_format (env_cfg (te_cache env)) utf8_cfg \<Longrightarrow> wire_format (env_cfg (te_cache e)) utf8_cfg"
  using assms same_lib_ok [of env e] by (simp_all add: healthy_def same_lib_def)

datatype trk_event = Stored u64 "u32 \<times> TrackMsgCacheProto" | Delivered "string \<times> pairs \<times> u8 list"

inductive trk_run :: "track_env \<Rightarrow> tracker \<Rightarrow> trk_event list \<Rightarrow> tracker \<Rightarrow> bool" for env s0 where
  start: "trk_run env s0 [] s0"
| flush: "trk_run env s0 t s \<Longrightarrow> healthy env e \<Longrightarrow> tm_config msg = Some cfg0 \<Longrightarrow> config_ready (te_cache e) h cfg0 cfg \<Longrightarrow>
    FlushTracker e (Some msg) s = Ret (pushed, msg') s' \<Longrightarrow> trk_run env s0 (t @ (if pushed then [Stored h (stored msg)] else [])) s'"
| check: "trk_run env s0 t s \<Longrightarrow> healthy env e \<Longrightarrow> check_upload_event e order s = Ret u s' \<Longrightarrow> trk_run env s0 t s'"
| uploaded: "trk_run env s0 t s \<Longrightarrow> healthy env e \<Longrightarrow> trk_pending s = Some (h, i, k, rq) \<Longrightarrow>
    UploadFinished e success s = Ret u s' \<Longrightarrow> trk_run env s0 (t @ (if success then [Delivered rq] else [])) s'"
| restart: "trk_run env s0 t s \<Longrightarrow> healthy env e \<Longrightarrow> listing_of s fs \<Longrightarrow> utf8_configs s \<Longrightarrow>
    Tracker_Init e group_size True (Some fs) (tracker_start (disk_of s) dir objs) = Ret u s' \<Longrightarrow> trk_run env s0 t s'"

fun accepted :: "trk_event list \<Rightarrow> (u64 \<times> u32 \<times> TrackMsgCacheProto) multiset" where
  "accepted [] = {#}"
| "accepted (Stored h m # t) = {#(h, m)#} + accepted t"
| "accepted (Delivered rq # t) = accepted t"

fun requests :: "trk_event list \<Rightarrow> (string \<times> pairs \<times> u8 list) list" where
  "requests [] = []"
| "requests (Stored h m # t) = requests t"
| "requests (Delivered rq # t) = rq # requests t"

text \<open>A request carries the messages of a batch, under a configuration with the hash of the batch.\<close>

definition sent :: "track_env \<Rightarrow> string \<times> pairs \<times> u8 list \<Rightarrow> u64 \<times> TrackerConfig \<times> (u32 \<times> TrackMsgCacheProto) list \<Rightarrow> bool" where
  "sent env rq = (\<lambda>(h, cfg, ms). config_ok h cfg \<and> carries env cfg ms rq)"

definition batch_messages :: "u64 \<times> TrackerConfig \<times> (u32 \<times> TrackMsgCacheProto) list \<Rightarrow> (u64 \<times> u32 \<times> TrackMsgCacheProto) multiset" where
  "batch_messages = (\<lambda>(h, cfg, ms). image_mset (Pair h) (mset ms))"

lemma sent_lib: "same_lib env e \<Longrightarrow> sent e = sent env"
  by (intro ext) (auto simp: sent_def carries_def same_lib_def)

lemma accepted_append [simp]: "accepted (t @ u) = accepted t + accepted u"
  by (induction t rule: accepted.induct) (simp_all add: ac_simps)

lemma requests_append [simp]: "requests (t @ u) = requests t @ requests u"
  by (induction t rule: requests.induct) simp_all

text \<open>
  The account of a run: what came in is held, or sent, or \<open>lost\<close>. Messages are lost when a cache that the server
  accepted is emptied, if \<^verbatim>\<open>Load\<close> could not read them for the request.
\<close>

definition unreadable :: "(u64 \<times> u32 \<times> TrackMsgCacheProto) multiset \<Rightarrow> bool" where
  "unreadable lost \<longleftrightarrow> (\<forall>(h, m)\<in>#lost. \<not> readable m)"

definition batch_parts :: "u64 \<Rightarrow> TrackerConfig \<Rightarrow> (u32 \<times> TrackMsgCacheProto) list
    \<Rightarrow> (u64 \<times> TrackerConfig \<times> (u32 \<times> TrackMsgCacheProto) list) \<times> (u64 \<times> u32 \<times> TrackMsgCacheProto) multiset" where
  "batch_parts h cfg ms = ((h, cfg, filter readable ms), image_mset (Pair h) (mset (filter (\<lambda>m. \<not> readable m) ms)))"

lemma batch_parts_sum:
  "image_mset (Pair h) (mset ms) = batch_messages (fst (batch_parts h cfg ms)) + snd (batch_parts h cfg ms)"
  "unreadable (snd (batch_parts h cfg ms))"
proof -
  have "mset ms = mset (filter readable ms) + mset (filter (\<lambda>m. \<not> readable m) ms)"
    by (induction ms) simp_all
  then show "image_mset (Pair h) (mset ms) = batch_messages (fst (batch_parts h cfg ms)) + snd (batch_parts h cfg ms)"
    by (simp add: batch_parts_def batch_messages_def flip: image_mset_union)
  show "unreadable (snd (batch_parts h cfg ms))" by (auto simp: batch_parts_def unreadable_def)
qed

lemma unreadable_none:
  assumes "unreadable lost" and "A + lost = B" and "\<forall>(h, m)\<in>#B. readable m"
  shows "lost = {#}"
proof (rule ccontr)
  assume "lost \<noteq> {#}"
  then obtain h m where "(h, m) \<in># lost" by (metis multiset_nonemptyE surj_pair)
  moreover from this have "(h, m) \<in># B" using assms(2) by auto
  ultimately show False using assms(1,3) unfolding unreadable_def by fastforce
qed

lemma unreadable_simps [simp]: "unreadable {#}" "unreadable (A + B) \<longleftrightarrow> unreadable A \<and> unreadable B"
  by (auto simp: unreadable_def)

definition balanced :: "track_env \<Rightarrow> (u64 \<times> u32 \<times> TrackMsgCacheProto) multiset \<Rightarrow> trk_event list \<Rightarrow> tracker \<Rightarrow> bool" where
  "balanced env M t s \<longleftrightarrow> (\<exists>f bs lost. trk_ok env f (entries s) s \<and> list_all2 (sent env) (requests t) bs \<and> unreadable lost
     \<and> M + accepted t = held f (entries s) + (\<Sum>b\<leftarrow>bs. batch_messages b) + lost)"

lemma balancedI:
  "trk_ok env f (entries s) s \<Longrightarrow> list_all2 (sent env) (requests t) bs \<Longrightarrow> unreadable lost \<Longrightarrow>
    M + accepted t = held f (entries s) + (\<Sum>b\<leftarrow>bs. batch_messages b) + lost \<Longrightarrow> balanced env M t s"
  unfolding balanced_def by blast

lemma balanced_same:
  assumes "balanced env M t s" and "\<And>f. trk_ok env f (entries s) s \<Longrightarrow>
      \<exists>f'. trk_ok env f' (entries s') s' \<and> held f' (entries s') = held f (entries s) + accepted u" and "requests u = []"
  shows "balanced env M (t @ u) s'"
proof -
  from assms(1) obtain f bs lost where b: "trk_ok env f (entries s) s" "list_all2 (sent env) (requests t) bs" "unreadable lost"
      "M + accepted t = held f (entries s) + (\<Sum>b\<leftarrow>bs. batch_messages b) + lost"
    by (auto simp: balanced_def)
  obtain f' where f': "trk_ok env f' (entries s') s'" "held f' (entries s') = held f (entries s) + accepted u"
    using assms(2) [OF b(1)] by blast
  have "M + accepted (t @ u) = held f' (entries s') + (\<Sum>b\<leftarrow>bs. batch_messages b) + lost"
    using b(4) f'(2) by (simp add: ac_simps)
  moreover have "list_all2 (sent env) (requests (t @ u)) bs" using b(2) assms(3) by simp
  ultimately show ?thesis using b(3) by (intro balancedI [OF f'(1)])
qed

text \<open>What an accepted upload takes out of a cache is what its request carried, and the unreadable rest.\<close>

lemma accepted_parts:
  assumes ok: "trk_ok env f E s" and p: "trk_pending s = Some (h, i, k, rq)"
  shows "sent env rq (fst (batch_parts h (fst (f k)) (snd (f k))))"
    and "held f E = held (f(k := (fst (f k), []))) E + batch_messages (fst (batch_parts h (fst (f k)) (snd (f k))))
       + snd (batch_parts h (fst (f k)) (snd (f k)))"
proof -
  have inv: "trk_inv s" "entries s = E" using ok by (simp_all add: trk_ok_def)
  note k = trk_ok_pending [OF ok p]
  show "sent env rq (fst (batch_parts h (fst (f k)) (snd (f k))))"
    using k(2) trk_ok_object(2) [OF ok k(1)] by (simp add: sent_def batch_parts_def)
  have "held (f(k := (fst (f k), []))) E + image_mset (Pair h) (mset (snd (f k))) = held f E"
    using held_old [OF finite_entries [OF inv(1), unfolded inv(2)] k(1), of f "fst (f k)" "[]"] trk_invD(4) [OF inv(1), unfolded inv(2), OF _ k(1)] by simp
  then show "held f E = held (f(k := (fst (f k), []))) E + batch_messages (fst (batch_parts h (fst (f k)) (snd (f k))))
       + snd (batch_parts h (fst (f k)) (snd (f k)))"
    using batch_parts_sum(1) [of h "snd (f k)" "fst (f k)"] by (simp add: ac_simps)
qed

lemma balanced_uploaded:
  assumes b: "balanced env M t s" and e: "healthy env e" and p: "trk_pending s = Some (h, i, k, rq)"
    and r: "UploadFinished e success s = Ret u s'"
  shows "balanced env M (t @ (if success then [Delivered rq] else [])) s'"
proof -
  note os = healthyD(1) [OF e] and same = healthyD(2) [OF e]
  from b obtain f bs lost where ok: "trk_ok env f (entries s) s" and b: "list_all2 (sent env) (requests t) bs" "unreadable lost"
      "M + accepted t = held f (entries s) + (\<Sum>b\<leftarrow>bs. batch_messages b) + lost"
    by (auto simp: balanced_def)
  have ok': "trk_ok env (if success then f(k := (fst (f k), [])) else f) (entries s) s'"
    using UploadFinished_ok [OF os _ p, of f "entries s" success] ok r unfolding same by auto
  then have es: "entries s' = entries s" by (simp add: trk_ok_def)
  show ?thesis
  proof (cases success)
    case False
    then show ?thesis using ok' b es by (auto intro: balancedI)
  next
    case True
    let ?p = "batch_parts h (fst (f k)) (snd (f k))"
    note a = accepted_parts [OF ok p]
    have "list_all2 (sent env) (requests (t @ [Delivered rq])) (bs @ [fst ?p])"
      using b(1) a(1) by (simp add: list_all2_appendI)
    moreover have "unreadable (lost + snd ?p)" using b(2) batch_parts_sum(2) by simp
    moreover have "M + accepted (t @ [Delivered rq])
        = held (f(k := (fst (f k), []))) (entries s) + (\<Sum>b\<leftarrow>bs @ [fst ?p]. batch_messages b) + (lost + snd ?p)"
      using b(3) a(2) by (simp add: ac_simps)
    ultimately show ?thesis using ok' True es by (simp add: balancedI del: requests_append accepted_append map_append unreadable_simps)
  qed
qed

lemma trk_run_balanced:
  assumes wf: "wire_format (env_msg (te_cache env)) utf8_msg" "wire_format (env_cfg (te_cache env)) utf8_cfg"
    and ok: "trk_ok env f0 E0 s0" and run: "trk_run env s0 t s"
  shows "balanced env (held f0 E0) t s"
  using run
proof induction
  case start
  have "entries s0 = E0" using ok by (simp add: trk_ok_def)
  then show ?case using ok by (intro balancedI [of _ f0 _ _ "[]" "{#}"]) simp_all
next
  case (flush t s e msg cfg0 h cfg pushed msg' s')
  have e: "\<forall>n. env_os (te_cache e) n" "trk_ok env = trk_ok e" "wire_format (env_msg (te_cache e)) utf8_msg"
    using healthyD [OF flush.hyps(2)] wf by simp_all
  let ?u = "if pushed then [Stored h (stored msg)] else []"
  have "\<exists>f'. trk_ok env f' (entries s') s' \<and> held f' (entries s') = held f (entries s) + accepted ?u"
    if f: "trk_ok env f (entries s) s" for f
  proof -
    have ok: "trk_ok e f (entries s) s" using f e(2) by simp
    have "if pushed then stored_once e h msg f (entries s) s' else stored_none e h f (entries s) s'"
      by (rule flush_outcome [OF e(1,3) flush.hyps(4,3) ok flush.hyps(5)])
    then show ?thesis using stored_once_held [OF ok] stored_none_held [OF ok] unfolding e(2) by (cases pushed) auto
  qed
  moreover have "requests ?u = []" by simp
  ultimately show ?case by (rule balanced_same [OF flush.IH])
next
  case (check t s e order u s')
  have e: "trk_ok env = trk_ok e" "wire_format (env_msg (te_cache e)) utf8_msg"
    using healthyD [OF check.hyps(2)] wf by simp_all
  have "\<exists>f'. trk_ok env f' (entries s') s' \<and> held f' (entries s') = held f (entries s) + accepted []"
    if f: "trk_ok env f (entries s) s" for f
  proof -
    have "trk_ok e f (entries s) s'"
      using io_specD(1) [OF check_upload_event_ok [OF e(2)] _ check.hyps(3)] f unfolding e(1) by blast
    moreover have "entries s' = entries s" using calculation by (simp add: trk_ok_def)
    ultimately show ?thesis unfolding e(1) by auto
  qed
  from balanced_same [OF check.IH this] show ?case by simp
next
  case (uploaded t s e h i k rq success u s')
  then show ?case by (intro balanced_uploaded)
next
  case (restart t s e fs group_size dir objs u s')
  have e: "\<forall>n. env_os (te_cache e) n" "trk_ok env = trk_ok e" "wire_format (env_cfg (te_cache e)) utf8_cfg"
    using healthyD [OF restart.hyps(2)] wf by simp_all
  have "\<exists>f'. trk_ok env f' (entries s') s' \<and> held f' (entries s') = held f (entries s) + accepted []"
    if f: "trk_ok env f (entries s) s" for f
  proof -
    have "trk_ok e f (entries s) s" using f e(2) by simp
    from restart_ok [OF e(1,3) this restart.hyps(3,4), of group_size dir objs] restart.hyps(5)
    show ?thesis unfolding e(2) by auto
  qed
  from balanced_same [OF restart.IH this] show ?case by simp
qed


section \<open>Properties\<close>

text \<open>
  C1: no message is lost but those that cannot be read, and none is kept once the server has it. On a system whose
  calls succeed, after any sequence of flushes, timer checks, accepted and failed uploads, and new starts
  of the process while all configurations are UTF-8, the messages that were stored at the beginning and those
  a flush accepted are, counted with repetitions, exactly the messages now in the cache files, those of the
  requests the server accepted, and lost ones, each of which has a string that is not UTF-8; each accepted
  request carries its messages under a configuration with the hash under which they were flushed. An upload
  whose answer is not seen before the process ends counts as not accepted, and its messages are sent again.
\<close>

theorem messages_conserved:
  assumes "wire_format (env_msg (te_cache env)) utf8_msg" and "wire_format (env_cfg (te_cache env)) utf8_cfg"
    and "trk_ok env f0 E0 s0" and "trk_run env s0 t s"
  shows "\<exists>f bs lost. trk_ok env f (entries s) s \<and> list_all2 (sent env) (requests t) bs
     \<and> (\<forall>(h, time, m)\<in>#lost. \<not> utf8_msg m)
     \<and> held f0 E0 + accepted t = held f (entries s) + (\<Sum>b\<leftarrow>bs. batch_messages b) + lost"
  using trk_run_balanced [OF assms] unfolding balanced_def unreadable_def readable_def by (simp add: split_def)

text \<open>Examples: a message is flushed and the process starts again; a message is uploaded and accepted.\<close>

lemma demo_healthy: "te_cache demo_track_env = demo_env" "healthy demo_track_env demo_track_env"
  using demo_env_ok by (simp_all add: healthy_def same_lib_def demo_track_env_def)

lemma demo_flushed:
  "\<exists>s i k. trk_run demo_track_env demo_tracker [Stored demo_hash (stored demo_msg)] s \<and> entries s = {(demo_hash, i, k)}
     \<and> trk_pending s = None \<and> utf8_configs s"
proof -
  note env = demo_healthy(1)
  have m: "tm_config demo_msg = Some demo_config" "\<not> flushed demo_msg"
    by (simp_all add: demo_msg_def new_TrackMessageImpl_def)
  moreover have "used_size demo_env (demo_config\<lparr>cfg_hash := demo_hash\<rparr>) [] + msg_bytes demo_env demo_msg \<le> cache_capability"
    by (simp add: demo_sizes used_size_def cache_capability_def)
  ultimately obtain msg' s' where r: "FlushTracker demo_track_env (Some demo_msg) demo_tracker = Ret (True, msg') s'"
      "uploading s' = uploading demo_tracker" "trackers_cache s' demo_hash = [(0, trk_next demo_tracker)]"
      "cache_holds demo_env (demo_config\<lparr>cfg_hash := demo_hash\<rparr>) [stored demo_msg] (trk_objs s' (trk_next demo_tracker))"
    using flush_first [OF _ _ _ demo_tracker_ok] demo_env_ok(1) demo_ready unfolding env by blast
  have run: "trk_run demo_track_env demo_tracker [Stored demo_hash (stored demo_msg)] s'"
    using trk_run.flush [OF trk_run.start demo_healthy(2) m(1) _ r(1)] demo_ready env by simp
  have "stored_once demo_track_env demo_hash demo_msg (\<lambda>_. (demo_config, [])) {} s'"
    using flush_outcome [OF _ _ _ m(1) demo_tracker_ok(1) r(1)] demo_env_ok demo_ready unfolding env by auto
  then obtain i k f where ok: "entries s' = {(demo_hash, i, k)}" "trk_ok demo_track_env f (entries s') s'"
    unfolding stored_once_def by auto
  have "\<not> uploading s'" using r(2) by (simp add: demo_tracker_def tracker_start_def)
  moreover have "trk_inv s'" using ok(2) by (simp add: trk_ok_def)
  ultimately have "trk_pending s' = None" using trk_invD(6) by metis
  moreover have "(demo_hash, 0, trk_next demo_tracker) \<in> entries s'" using r(3) by (simp add: entries_def)
  then have "k = trk_next demo_tracker" using ok(1) by simp
  then have "utf8_configs s'" using r(4) demo_utf8(3) ok(1) by (simp add: utf8_configs_def cache_holds_def)
  ultimately show ?thesis using run ok(1) by blast
qed

lemma demo_restarted:
  assumes "trk_run demo_track_env demo_tracker t s"
    and "trk_ok demo_track_env f (entries s) s" and "entries s = {(h, i, k)}" and "utf8_configs s"
  shows "\<exists>u s'. Tracker_Init demo_track_env 0 True (Some [(DiskCachePath h i, False)]) (tracker_start (disk_of s) True objs) = Ret u s'
     \<and> trk_run demo_track_env demo_tracker t s'"
proof -
  have inv: "trk_inv s" using assms(2) by (simp add: trk_ok_def)
  let ?fs = "[(DiskCachePath h i, False)]"
  have "object_at s h' i' \<noteq> None \<longleftrightarrow> h' = h \<and> i' = i" for h' i'
    using object_at_entry [OF inv, of h' i'] assms(3) by (cases "object_at s h' i'") auto
  then have fs: "listing_of s ?fs" by (simp add: listing_of_def cache_name_roundtrip)
  obtain s' where "Tracker_Init demo_track_env 0 True (Some ?fs) (tracker_start (disk_of s) True objs) = Ret () s'"
    using restart_ok [OF _ _ assms(2) fs assms(4)] demo_env_ok(1,3) unfolding demo_healthy(1) by blast
  then show ?thesis using trk_run.restart [OF assms(1) demo_healthy(2) fs assms(4)] by blast
qed

lemma demo_upload_ready:
  "\<exists>s i k f. trk_run demo_track_env demo_tracker [Stored demo_hash (stored demo_msg)] s \<and> trk_ok demo_track_env f (entries s) s
     \<and> held f (entries s) = {#(demo_hash, stored demo_msg)#} \<and> \<not> uploading s \<and> (i, k) \<in> set (trackers_cache s demo_hash)
     \<and> entries s = {(demo_hash, i, k)} \<and> snd (f k) \<noteq> [] \<and> uploadable demo_track_env (f k)"
proof -
  note env = demo_healthy(1)
  obtain s i k where s: "trk_run demo_track_env demo_tracker [Stored demo_hash (stored demo_msg)] s" "entries s = {(demo_hash, i, k)}"
      "trk_pending s = None"
    using demo_flushed by blast
  have m: "readable (stored demo_msg)" using demo_utf8(1) by (simp add: readable_def stored_def)
  from trk_run_balanced [OF _ _ demo_tracker_ok(1) s(1)] demo_env_ok
  obtain f lost where f: "trk_ok demo_track_env f (entries s) s" "unreadable lost" "held f (entries s) + lost = {#(demo_hash, stored demo_msg)#}"
    unfolding env by (auto simp: balanced_def held_def [of _ "{}"])
  then have "lost = {#}" using m by (auto intro: unreadable_none)
  with f have f: "trk_ok demo_track_env f (entries s) s" "held f (entries s) = {#(demo_hash, stored demo_msg)#}" by simp_all
  then have "image_mset (Pair demo_hash) (mset (snd (f k))) = {#(demo_hash, stored demo_msg)#}" using s(2) by (simp add: held_def)
  then have "image_mset snd (image_mset (Pair demo_hash) (mset (snd (f k)))) = {#stored demo_msg#}" by simp
  then have fk: "snd (f k) = [stored demo_msg]" by (simp add: multiset.map_comp comp_def)
  have "\<not> uploading s" using s(3) f(1) trk_invD(6) [of s] by (simp add: trk_ok_def)
  moreover have "(demo_hash, i, k) \<in> entries s" using s(2) by simp
  then have "(i, k) \<in> set (trackers_cache s demo_hash)" using s(3) by (simp add: entries_def)
  moreover have "snd (f k) \<noteq> []" using fk by simp
  moreover have "uploadable demo_track_env (f k)"
    using m by (simp add: uploadable_def split_def Let_def SerializeToUpload_def demo_track_env_def fk)
  ultimately show ?thesis using s(1,2) f by blast
qed

lemma demo_uploaded:
  "\<exists>s0 s f rq. trk_ok demo_track_env f (entries s0) s0 \<and> held f (entries s0) = {#(demo_hash, stored demo_msg)#}
     \<and> trk_run demo_track_env s0 [Delivered rq] s"
proof -
  let ?env = demo_track_env
  note env = demo_healthy(1)
  obtain s i k f where f: "trk_ok ?env f (entries s) s" "held f (entries s) = {#(demo_hash, stored demo_msg)#}"
    and ready: "\<not> uploading s" "(i, k) \<in> set (trackers_cache s demo_hash)" "uploadable ?env (f k)" "snd (f k) \<noteq> []"
    using demo_upload_ready by blast
  then obtain s0 rq where up: "UploadTrackerCacheAsync ?env demo_hash i s = Ret () s0" "trk_pending s0 = Some (demo_hash, i, k, rq)"
      "trk_ok ?env f (entries s) s0"
    using Upload_starts [OF _ f(1), of i k demo_hash] demo_env_ok(2) unfolding env by blast
  have "entries s0 = entries s" using up(3) by (simp add: trk_ok_def)
  moreover obtain s1 where "UploadFinished ?env True s0 = Ret () s1"
    using UploadFinished_ok [OF _ up(3,2), of True] demo_env_ok(1) env by auto
  then have "trk_run ?env s0 [Delivered rq] s1"
    using trk_run.uploaded [OF trk_run.start demo_healthy(2) up(2), of True] by simp
  ultimately show ?thesis using f(2) up(3) by metis
qed

theorem messages_conserved_witness:
  "\<exists>s s' u f i. trk_run demo_track_env demo_tracker [Stored demo_hash (stored demo_msg)] s
     \<and> Tracker_Init demo_track_env 0 True (Some [(DiskCachePath demo_hash i, False)])
          (tracker_start (disk_of s) True (\<lambda>_. new_DiskCache None True 0 0 None)) = Ret u s'
     \<and> trk_ok demo_track_env f (entries s') s' \<and> held f (entries s') = {#(demo_hash, stored demo_msg)#}"
proof -
  obtain s i k where s: "trk_run demo_track_env demo_tracker [Stored demo_hash (stored demo_msg)] s" "entries s = {(demo_hash, i, k)}"
      "utf8_configs s"
    using demo_flushed by blast
  have wf: "wire_format (env_msg (te_cache demo_track_env)) utf8_msg" "wire_format (env_cfg (te_cache demo_track_env)) utf8_cfg"
    using demo_env_ok demo_healthy by simp_all
  have "balanced demo_track_env (held (\<lambda>_. (demo_config, [])) {}) [Stored demo_hash (stored demo_msg)] s"
    by (rule trk_run_balanced [OF wf demo_tracker_ok(1) s(1)])
  then obtain f0 where "trk_ok demo_track_env f0 (entries s) s" by (auto simp: balanced_def)
  then obtain u s' where s': "Tracker_Init demo_track_env 0 True (Some [(DiskCachePath demo_hash i, False)])
        (tracker_start (disk_of s) True (\<lambda>_. new_DiskCache None True 0 0 None)) = Ret u s'"
      "trk_run demo_track_env demo_tracker [Stored demo_hash (stored demo_msg)] s'"
    using demo_restarted [OF s(1) _ s(2,3)] by blast
  from messages_conserved [OF wf demo_tracker_ok(1) s'(2)]
  obtain f lost where f: "trk_ok demo_track_env f (entries s') s'" "unreadable lost" "held f (entries s') + lost = {#(demo_hash, stored demo_msg)#}"
    by (elim exE conjE) (simp add: held_def [of _ "{}"] unreadable_def readable_def split_def eq_commute)
  moreover have "lost = {#}"
    by (rule unreadable_none [OF f(2,3)]) (use demo_utf8(1) in \<open>simp add: readable_def stored_def\<close>)
  ultimately show ?thesis using s(1) s'(1) by auto
qed

end
