(* ===== verification/Tracker_Drain.thy ===== *)
theory Tracker_Drain
  imports Tracker_Delivery
begin

text \<open>
  Which cache the timer check uploads (\<^verbatim>\<open>CheckAndUploadTrackers\<close> in \<^verbatim>\<open>source/tracker/tracker_impl.cpp\<close>): rounds
  of a check and the answer to the upload it starts. When the server accepts, the caches are emptied one
  by one; a cache that the server refuses is sent again and again, and no other.
\<close>

section \<open>The choice\<close>

lemma holds_count:
  assumes "cache_holds env cfg ms c"
  shows "(of_nat (length ms) > (0 :: u32)) \<longleftrightarrow> ms \<noteq> []"
proof -
  have "used_size env cfg ms \<le> max_cache_size" using assms by (auto simp: cache_holds_def file_holds_def)
  then have "length ms < 2 ^ 32" using length_records [of ms env] by (simp add: used_size_def max_cache_size_def)
  then have "unat (of_nat (length ms) :: u32) = length ms" by (simp add: unat_of_nat take_bit_eq_mod)
  then have "(of_nat (length ms) :: u32) \<noteq> 0 \<longleftrightarrow> length ms \<noteq> 0" by (metis unat_eq_zero)
  then show ?thesis by (simp add: word_gt_0)
qed

text \<open>The first cache that has messages and failed last, otherwise the last one with messages.\<close>

fun chosen :: "nat option \<Rightarrow> (nat \<Rightarrow> bool) \<Rightarrow> (u64 \<times> u32 \<times> nat) list \<Rightarrow> u64 \<times> u32 \<Rightarrow> u64 \<times> u32" where
  "chosen failed full [] cur = cur"
| "chosen failed full ((h, i, k) # xs) cur =
     (if full k then if failed = Some k then (h, i) else chosen failed full xs (h, i) else chosen failed full xs cur)"

lemma check_loop_chosen:
  "trk_ok env f E s \<Longrightarrow> \<forall>(h, i, k)\<in>set xs. (h, i, k) \<in> E \<Longrightarrow>
    \<exists>s'. check_loop xs cur s = Ret (chosen (latest_upload_failed s) (\<lambda>k. snd (f k) \<noteq> []) xs cur) s'
      \<and> trk_ok env f E s' \<and> shape s' = shape s \<and> latest_upload_failed s' = latest_upload_failed s"
proof (induction xs arbitrary: cur s)
  case Nil
  then show ?case by (simp add: io_ret_def)
next
  case (Cons x xs)
  obtain h i k where x: "x = (h, i, k)" by (cases x)
  have k: "(h, i, k) \<in> E" using Cons.prems(2) x by simp
  obtain s1 where s1: "on_cache k GetCount s = Ret (of_nat (length (snd (f k)))) s1" "trk_ok env f E s1" "shape s1 = shape s"
      "s1 = s\<lparr>trk_objs := trk_objs s1\<rparr>"
    using on_cache_reads [OF Cons.prems(1) k, of GetCount] GetCount_holds by blast
  have l: "latest_upload_failed s1 = latest_upload_failed s" by (subst s1(4)) simp
  have full: "(of_nat (length (snd (f k))) > (0 :: u32)) \<longleftrightarrow> snd (f k) \<noteq> []"
    by (rule holds_count [OF trk_ok_object(1) [OF Cons.prems(1) k]])
  have IH: "\<exists>s'. check_loop xs cur' s1 = Ret (chosen (latest_upload_failed s) (\<lambda>k. snd (f k) \<noteq> []) xs cur') s'
      \<and> trk_ok env f E s' \<and> shape s' = shape s \<and> latest_upload_failed s' = latest_upload_failed s" for cur'
    using Cons.IH [OF s1(2), of cur'] Cons.prems(2) s1(3) l by simp
  show ?case
  proof (cases "snd (f k) = []")
    case True
    then show ?thesis using IH [of cur] s1(1) full by (simp add: x io_bind_def)
  next
    case False
    then show ?thesis using IH [of "(h, i)"] s1 full l by (simp add: x io_bind_def io_get_def io_ret_def)
  qed
qed

lemma chosen_none: "\<forall>(h, i, k)\<in>set xs. \<not> full k \<Longrightarrow> chosen failed full xs cur = cur"
  by (induction xs arbitrary: cur) auto

lemma chosen_full:
  "\<exists>h i k. (h, i, k) \<in> set xs \<and> full k \<Longrightarrow>
    \<exists>h i k. (h, i, k) \<in> set xs \<and> full k \<and> chosen failed full xs cur = (h, i)"
proof (induction xs arbitrary: cur)
  case (Cons x xs)
  obtain h i k where x: "x = (h, i, k)" by (cases x)
  show ?case
  proof (cases "\<exists>h i k. (h, i, k) \<in> set xs \<and> full k")
    case True
    note IH = Cons.IH [OF True]
    show ?thesis
    proof (cases "full k \<and> failed = Some k")
      case True
      then show ?thesis by (intro exI [of _ h] exI [of _ i] exI [of _ k]) (simp add: x)
    next
      case False
      then have "chosen failed full (x # xs) cur = chosen failed full xs (if full k then (h, i) else cur)" by (auto simp: x)
      then show ?thesis using IH [of "if full k then (h, i) else cur"] by (metis list.set_intros(2))
    qed
  next
    case False
    then have "full k" using Cons.prems x by auto
    moreover have "\<forall>(h, i, k)\<in>set xs. \<not> full k" using False by auto
    note chosen_none [OF this]
    ultimately show ?thesis by (auto simp: x)
  qed
qed simp

lemma chosen_failed:
  "(h, i, k) \<in> set xs \<Longrightarrow> full k \<Longrightarrow> \<forall>(h', i', k')\<in>set xs. k' = k \<longrightarrow> h' = h \<and> i' = i \<Longrightarrow>
    chosen (Some k) full xs cur = (h, i)"
  by (induction xs arbitrary: cur) auto

text \<open>The caches in the order of the walk.\<close>

definition walk :: "u64 list \<Rightarrow> tracker \<Rightarrow> (u64 \<times> u32 \<times> nat) list" where
  "walk order s = concat (map (\<lambda>hash. map (\<lambda>(idx, k). (hash, idx, k)) (trackers_cache s hash)) order)"

lemma set_walk: "(h, i, k) \<in> set (walk order s) \<longleftrightarrow> h \<in> set order \<and> (i, k) \<in> set (trackers_cache s h)"
  by (auto simp: walk_def)

lemma CheckAndUploadTrackers_idle:
  assumes "\<not> uploading s" and "check_loop (walk order s) (0, 0) s = Ret (h, i) s'"
  shows "CheckAndUploadTrackers e order s = (if h \<noteq> 0 then UploadTrackerCacheAsync e h i s' else Ret () s')"
  using assms unfolding CheckAndUploadTrackers_def walk_def [symmetric] by (simp add: io_bind_def io_ret_def)

section \<open>Rounds\<close>

text \<open>
  A timer check, and the answer to the upload it started, if it started one. The result lists the requests
  the server accepted.
\<close>

definition upload_round :: "track_env \<Rightarrow> u64 list \<Rightarrow> bool \<Rightarrow> (string \<times> pairs \<times> u8 list) list trk_io" where
  "upload_round e order success =
     io_seq (check_upload_event e order)
    (io_bind (io_get trk_pending) (\<lambda>p. case p of
       None \<Rightarrow> io_ret []
     | Some (_, _, _, rq) \<Rightarrow> io_seq (UploadFinished e success) (io_ret (if success then [rq] else []))))"

fun upload_rounds :: "(track_env \<times> u64 list) list \<Rightarrow> bool \<Rightarrow> (string \<times> pairs \<times> u8 list) list trk_io" where
  "upload_rounds [] success = io_ret []"
| "upload_rounds ((e, order) # rs) success =
     io_bind (upload_round e order success) (\<lambda>rqs. io_bind (upload_rounds rs success) (\<lambda>rqs'. io_ret (rqs @ rqs')))"

text \<open>The check walks over every configuration, whose hash is not 0.\<close>

definition covers :: "u64 list \<Rightarrow> (u64 \<times> u32 \<times> nat) set \<Rightarrow> bool" where
  "covers order E \<longleftrightarrow> fst ` E \<subseteq> set order - {0}"

lemma idle_entries: "trk_ok e f E s \<Longrightarrow> trk_pending s = None \<Longrightarrow> (h, i, k) \<in> E \<longleftrightarrow> (i, k) \<in> set (trackers_cache s h)"
  by (auto simp: trk_ok_def entries_def)

lemma check_event_posts:
  assumes "wire_format (env_msg (te_cache e)) utf8_msg" and "trk_ok e f E s" and "CheckAndUploadTrackers e order s = Ret () s0"
  shows "\<exists>s1. check_upload_event e order s = Ret () s1 \<and> trk_pending s1 = trk_pending s0 \<and> trk_ok e f E s1"
proof -
  have "check_upload_event e order s = Ret () (s0\<lparr>check_posts := check_posts s0 @ [check_ms]\<rparr>)"
    using assms(3) by (simp add: check_upload_event_def io_seq_def io_bind_def io_upd_def)
  then show ?thesis using io_specD(1) [OF check_upload_event_ok [OF assms(1)] assms(2)] by fastforce
qed

lemma check_starts:
  assumes e: "wire_format (env_msg (te_cache e)) utf8_msg" and ok: "trk_ok e f E s" and idle: "trk_pending s = None"
    and order: "covers order E" and up: "\<forall>(h, i, k)\<in>E. uploadable e (f k)"
    and k: "(h, i, k) \<in> E" "snd (f k) \<noteq> []"
      "chosen (latest_upload_failed s) (\<lambda>k. snd (f k) \<noteq> []) (walk order s) (0, 0) = (h, i)"
  shows "\<exists>s1 rq. check_upload_event e order s = Ret () s1 \<and> trk_pending s1 = Some (h, i, k, rq) \<and> trk_ok e f E s1"
proof -
  have inv: "trk_inv s" using ok by (simp add: trk_ok_def)
  have idle': "\<not> uploading s" using idle trk_invD(6) [OF inv] by simp
  have "\<forall>(h, i, k)\<in>set (walk order s). (h, i, k) \<in> E" using idle_entries [OF ok idle] by (auto simp: set_walk)
  from check_loop_chosen [OF ok this, of "(0, 0)"] k(3) obtain s' where s': "check_loop (walk order s) (0, 0) s = Ret (h, i) s'"
      "trk_ok e f E s'" "shape s' = shape s"
    by auto
  have t: "trackers_cache s' = trackers_cache s" "uploading s' = uploading s" using s'(3) by (simp_all add: shape_def)
  have u: "uploadable e (f k)" using up k(1) by blast
  have "h \<noteq> 0" using order k(1) by (force simp: covers_def)
  moreover have "(i, k) \<in> set (trackers_cache s' h)" using k(1) idle_entries [OF ok idle] t by simp
  then obtain s0 rq where s0: "UploadTrackerCacheAsync e h i s' = Ret () s0" "trk_pending s0 = Some (h, i, k, rq)"
    using Upload_starts [OF e s'(2) _ _ u k(2)] idle' t(2) by blast
  ultimately have "CheckAndUploadTrackers e order s = Ret () s0"
    using CheckAndUploadTrackers_idle [OF idle' s'(1)] by simp
  from check_event_posts [OF e ok this] show ?thesis using s0(2) by metis
qed

lemma check_nothing:
  assumes e: "wire_format (env_msg (te_cache e)) utf8_msg" and ok: "trk_ok e f E s" and idle: "trk_pending s = None"
    and none: "\<forall>(h, i, k)\<in>E. snd (f k) = []"
  shows "\<exists>s1. check_upload_event e order s = Ret () s1 \<and> trk_pending s1 = None \<and> trk_ok e f E s1"
proof -
  have inv: "trk_inv s" using ok by (simp add: trk_ok_def)
  have idle': "\<not> uploading s" using idle trk_invD(6) [OF inv] by simp
  have xs: "\<forall>(h, i, k)\<in>set (walk order s). (h, i, k) \<in> E" using idle_entries [OF ok idle] by (auto simp: set_walk)
  have "chosen (latest_upload_failed s) (\<lambda>k. snd (f k) \<noteq> []) (walk order s) (0, 0) = (0, 0)"
    by (rule chosen_none) (use xs none in fastforce)
  then obtain s' where s': "check_loop (walk order s) (0, 0) s = Ret (0, 0) s'" "shape s' = shape s"
    using check_loop_chosen [OF ok xs, of "(0, 0)"] by auto
  have "CheckAndUploadTrackers e order s = Ret () s'" using CheckAndUploadTrackers_idle [OF idle' s'(1)] by simp
  from check_event_posts [OF e ok this] show ?thesis using s'(2) idle by (simp add: shape_def)
qed

text \<open>An accepted round sends and empties a cache that has messages, if there is one.\<close>

definition filled :: "(nat \<Rightarrow> TrackerConfig \<times> (u32 \<times> TrackMsgCacheProto) list) \<Rightarrow> (u64 \<times> u32 \<times> nat) set \<Rightarrow> nat set" where
  "filled f E = {k. (\<exists>h i. (h, i, k) \<in> E) \<and> snd (f k) \<noteq> []}"

definition sends :: "track_env \<Rightarrow> (nat \<Rightarrow> TrackerConfig \<times> (u32 \<times> TrackMsgCacheProto) list) \<Rightarrow> (u64 \<times> u32 \<times> nat) set \<Rightarrow> nat
    \<Rightarrow> (string \<times> pairs \<times> u8 list) list \<Rightarrow> bool" where
  "sends env f E k rqs \<longleftrightarrow> (\<exists>rq b lost. rqs = [rq] \<and> sent env rq b \<and> unreadable lost
     \<and> held f E = held (f(k := (fst (f k), []))) E + batch_messages b + lost)"

lemma round_accepted:
  assumes e: "wire_format (env_msg (te_cache e)) utf8_msg" and os: "\<forall>n. env_os (te_cache e) n" and ok: "trk_ok e f E s" and idle: "trk_pending s = None"
    and order: "covers order E" and up: "\<forall>(h, i, k)\<in>E. uploadable e (f k)"
  shows "\<exists>rqs s'. upload_round e order True s = Ret rqs s' \<and> trk_pending s' = None
     \<and> (if filled f E = {} then rqs = [] \<and> trk_ok e f E s'
        else \<exists>k\<in>filled f E. trk_ok e (f(k := (fst (f k), []))) E s' \<and> sends e f E k rqs)"
proof (cases "filled f E = {}")
  case True
  then have "\<forall>(h, i, k)\<in>E. snd (f k) = []" by (auto simp: filled_def)
  then obtain s1 where "check_upload_event e order s = Ret () s1" "trk_pending s1 = None" "trk_ok e f E s1"
    using check_nothing [OF e ok idle] by blast
  then show ?thesis using True by (simp add: upload_round_def io_seq_def io_bind_def io_get_def io_ret_def)
next
  case False
  then obtain h0 i0 k0 where k0: "(h0, i0, k0) \<in> E" "snd (f k0) \<noteq> []" by (auto simp: filled_def)
  have "h0 \<in> set order" using k0(1) order by (force simp: covers_def)
  then have "\<exists>h i k. (h, i, k) \<in> set (walk order s) \<and> snd (f k) \<noteq> []"
    using k0 idle_entries [OF ok idle] by (auto simp: set_walk)
  from chosen_full [OF this] obtain h i k where k: "(h, i, k) \<in> set (walk order s)" "snd (f k) \<noteq> []"
      "chosen (latest_upload_failed s) (\<lambda>k. snd (f k) \<noteq> []) (walk order s) (0, 0) = (h, i)"
    by blast
  have kE: "(h, i, k) \<in> E" using k(1) idle_entries [OF ok idle] by (simp add: set_walk)
  obtain s1 rq where s1: "check_upload_event e order s = Ret () s1" "trk_pending s1 = Some (h, i, k, rq)" "trk_ok e f E s1"
    using check_starts [OF e ok idle order up kE k(2,3)] by blast
  obtain s2 where s2: "UploadFinished e True s1 = Ret () s2" "trk_pending s2 = None" "trk_ok e (f(k := (fst (f k), []))) E s2"
    using UploadFinished_ok [OF os s1(3,2), of True] by auto
  have "upload_round e order True s = Ret [rq] s2"
    using s1(1,2) s2(1) by (simp add: upload_round_def io_seq_def io_bind_def io_get_def io_ret_def)
  moreover have "k \<in> filled f E" using kE k(2) by (auto simp: filled_def)
  moreover have "sends e f E k [rq]" unfolding sends_def using accepted_parts [OF s1(3,2)] batch_parts_sum(2) by blast
  ultimately show ?thesis using s2 False by auto
qed


definition rounds_ok :: "track_env \<Rightarrow> (nat \<Rightarrow> TrackerConfig \<times> (u32 \<times> TrackMsgCacheProto) list) \<Rightarrow> (u64 \<times> u32 \<times> nat) set
    \<Rightarrow> (track_env \<times> u64 list) list \<Rightarrow> bool" where
  "rounds_ok env f E rs \<longleftrightarrow>
     (\<forall>(e, order)\<in>set rs. healthy env e \<and> covers order E \<and> (\<forall>(h, i, k)\<in>E. uploadable e (f k)))"

lemma drain:
  assumes wf: "wire_format (env_msg (te_cache env)) utf8_msg" and fin: "finite E"
  shows "trk_ok env f E s \<Longrightarrow> trk_pending s = None \<Longrightarrow> rounds_ok env f E rs \<Longrightarrow> card (filled f E) \<le> length rs \<Longrightarrow>
    \<exists>rqs s' f' bs lost. upload_rounds rs True s = Ret rqs s' \<and> trk_ok env f' E s' \<and> trk_pending s' = None \<and> filled f' E = {}
      \<and> list_all2 (sent env) rqs bs \<and> unreadable lost \<and> held f E = held f' E + (\<Sum>b\<leftarrow>bs. batch_messages b) + lost"
proof (induction rs arbitrary: s f)
  case Nil
  have "filled f E \<subseteq> (\<lambda>(h, i, k). k) ` E" by (force simp: filled_def)
  then have "finite (filled f E)" using fin finite_subset by blast
  then have "filled f E = {}" using Nil by simp
  then show ?case using Nil by (intro exI [of _ "[]"] exI [of _ s] exI [of _ f] exI [of _ "{#}"]) (simp add: io_ret_def)
next
  case (Cons r rs)
  obtain e order where r: "r = (e, order)" by (cases r)
  have h: "healthy env e" "covers order E" and up: "\<forall>(h, i, k)\<in>E. uploadable e (f k)" and rs: "rounds_ok env f E rs"
    using Cons.prems(3) by (auto simp: r rounds_ok_def)
  note e = healthyD [OF h(1)]
  have same: "sent e = sent env" by (rule sent_lib) (use h(1) in \<open>simp add: healthy_def\<close>)
  obtain rqs s1 where s1: "upload_round e order True s = Ret rqs s1" "trk_pending s1 = None"
      "if filled f E = {} then rqs = [] \<and> trk_ok env f E s1 else \<exists>k\<in>filled f E. trk_ok env (f(k := (fst (f k), []))) E s1
          \<and> sends env f E k rqs"
    using round_accepted [OF e(3) [OF wf] e(1) _ Cons.prems(2) h(2) up] Cons.prems(1) unfolding e(2) sends_def same by blast
  have step: "upload_rounds (r # rs) True s = Ret (rqs @ rqs') s'" if "upload_rounds rs True s1 = Ret rqs' s'" for rqs' s'
    using s1(1) that by (simp add: r io_bind_def io_ret_def)
  show ?case
  proof (cases "filled f E = {}")
    case True
    then have "rqs = []" "trk_ok env f E s1" using s1(3) by simp_all
    then show ?thesis using Cons.IH [OF _ s1(2) rs] step True by fastforce
  next
    case False
    then obtain k where k: "k \<in> filled f E" "trk_ok env (f(k := (fst (f k), []))) E s1" "sends env f E k rqs"
      using s1(3) by auto
    then obtain rq b lost where rq: "rqs = [rq]" "sent env rq b" "unreadable lost"
        "held f E = held (f(k := (fst (f k), []))) E + batch_messages b + lost"
      unfolding sends_def by blast
    let ?f = "f(k := (fst (f k), []))"
    have "filled ?f E = filled f E - {k}" by (auto simp: filled_def)
    then have "card (filled ?f E) \<le> length rs" using k(1) Cons.prems(4) by (simp add: card_Diff_singleton)
    moreover have "uploadable e' (?f k')" if "uploadable e' (f k')" for e' k' using that by (simp add: uploadable_def split_def)
    then have "rounds_ok env ?f E rs" using rs unfolding rounds_ok_def by blast
    ultimately obtain rqs' s' f' bs lost' where "upload_rounds rs True s1 = Ret rqs' s'" "trk_ok env f' E s'" "trk_pending s' = None"
        "filled f' E = {}" "list_all2 (sent env) rqs' bs" "unreadable lost'" "held ?f E = held f' E + (\<Sum>b\<leftarrow>bs. batch_messages b) + lost'"
      using Cons.IH [OF k(2) s1(2)] by blast
    then show ?thesis
      using step rq by (intro exI [of _ "rqs @ rqs'"] exI [of _ s'] exI [of _ f'] exI [of _ "b # bs"] exI [of _ "lost + lost'"]) (simp add: ac_simps)
  qed
qed

lemma refused:
  assumes wf: "wire_format (env_msg (te_cache env)) utf8_msg" and k: "(h, i, k) \<in> E" "snd (f k) \<noteq> []"
    and ok: "trk_ok env f E s" and idle: "trk_pending s = None" and failed: "latest_upload_failed s = Some k"
    and r: "rounds_ok env f E [(e, order)]"
  shows "\<exists>s1 rq. check_upload_event e order s = Ret () s1 \<and> trk_pending s1 = Some (h, i, k, rq) \<and> trk_ok env f E s1"
proof -
  have h: "healthy env e" "covers order E" and up: "\<forall>(h, i, k)\<in>E. uploadable e (f k)" using r by (auto simp: rounds_ok_def)
  note e = healthyD [OF h(1)]
  have ok': "trk_ok e f E s" using ok e(2) by simp
  have inv: "trk_inv s" and E: "entries s = E" using ok by (simp_all add: trk_ok_def)
  have "h \<in> set order" using k(1) h(2) by (force simp: covers_def)
  then have "(h, i, k) \<in> set (walk order s)" using k(1) idle_entries [OF ok' idle] by (simp add: set_walk)
  moreover have "\<forall>(h', i', k')\<in>set (walk order s). k' = k \<longrightarrow> h' = h \<and> i' = i"
    using idle_entries [OF ok' idle] trk_invD(4) [OF inv] k(1) E by (auto simp: set_walk)
  ultimately have "chosen (latest_upload_failed s) (\<lambda>k. snd (f k) \<noteq> []) (walk order s) (0, 0) = (h, i)"
    unfolding failed using chosen_failed k(2) by simp
  from check_starts [OF e(3) [OF wf] ok' idle h(2) up k this] show ?thesis unfolding e(2) .
qed

lemma refused_rounds:
  assumes wf: "wire_format (env_msg (te_cache env)) utf8_msg" and k: "(h, i, k) \<in> E" "snd (f k) \<noteq> []"
  shows "trk_ok env f E s \<Longrightarrow> trk_pending s = None \<Longrightarrow> latest_upload_failed s = Some k \<Longrightarrow> rounds_ok env f E rs \<Longrightarrow>
    \<exists>s'. upload_rounds rs False s = Ret [] s' \<and> trk_ok env f E s' \<and> trk_pending s' = None \<and> latest_upload_failed s' = Some k"
proof (induction rs arbitrary: s)
  case Nil
  then show ?case by (simp add: io_ret_def)
next
  case (Cons r rs)
  obtain e order where r: "r = (e, order)" by (cases r)
  have one: "rounds_ok env f E [(e, order)]" and rs: "rounds_ok env f E rs" and h: "healthy env e"
    using Cons.prems(4) by (auto simp: r rounds_ok_def)
  note e = healthyD [OF h]
  obtain s1 rq where s1: "check_upload_event e order s = Ret () s1" "trk_pending s1 = Some (h, i, k, rq)" "trk_ok e f E s1"
    using refused [OF wf k Cons.prems(1,2,3) one] unfolding e(2) by blast
  obtain s2 where s2: "UploadFinished e False s1 = Ret () s2" "trk_pending s2 = None" "trk_ok env f E s2" "latest_upload_failed s2 = Some k"
    using UploadFinished_ok [OF e(1) s1(3,2), of False] unfolding e(2) by auto
  have "upload_round e order False s = Ret [] s2"
    using s1(1,2) s2(1) by (simp add: upload_round_def io_seq_def io_bind_def io_get_def io_ret_def)
  then show ?case using Cons.IH [OF s2(3,2,4) rs] by (auto simp: r io_bind_def io_ret_def)
qed


section \<open>Properties\<close>

text \<open>
  C5: stored messages are sent. On a system whose calls succeed, when nothing is being uploaded and the server
  accepts every request, as many timer checks as there are caches with messages send and empty all of them,
  whichever way each check walks over the configurations: the requests the server accepted carry exactly
  the messages that were stored, counted with repetitions, less those with a string that is not UTF-8, which
  are deleted unsent. The readable messages of each cache with messages must give a request, and the hash
  of a configuration must not be 0, the value the check takes for none.
\<close>

theorem caches_drained:
  assumes "wire_format (env_msg (te_cache env)) utf8_msg" and "trk_ok env f E s" and "trk_pending s = None"
    and "rounds_ok env f E rs" and "card (filled f E) \<le> length rs"
  shows "\<exists>rqs s' f' bs lost. upload_rounds rs True s = Ret rqs s' \<and> trk_ok env f' E s' \<and> trk_pending s' = None \<and> held f' E = {#}
     \<and> list_all2 (sent env) rqs bs \<and> (\<forall>(h, time, m)\<in>#lost. \<not> utf8_msg m) \<and> held f E = (\<Sum>b\<leftarrow>bs. batch_messages b) + lost"
proof -
  have "finite E" using assms(2) finite_entries by (auto simp: trk_ok_def)
  from drain [OF assms(1) this assms(2-5)]
  obtain rqs s' f' bs lost where s': "upload_rounds rs True s = Ret rqs s'" "trk_ok env f' E s'" "trk_pending s' = None" "filled f' E = {}"
      "list_all2 (sent env) rqs bs" "unreadable lost" "held f E = held f' E + (\<Sum>b\<leftarrow>bs. batch_messages b) + lost" by blast
  have "snd (f' k) = []" if "(h, i, k) \<in> E" for h i k using s'(4) that by (auto simp: filled_def)
  then have h: "held f' E = {#}" unfolding held_def by (intro sum.neutral) auto
  moreover have "\<forall>(h, time, m)\<in>#lost. \<not> utf8_msg m" using s'(6) by (simp add: unreadable_def readable_def split_def)
  ultimately show ?thesis using s'(1,2,3,5,7) by (intro exI [of _ rqs] exI [of _ s'] exI [of _ f'] exI [of _ bs] exI [of _ lost]) simp
qed

section \<open>An example whose hash is not 0\<close>

text \<open>The hash of six words, as \<^verbatim>\<open>HashLen33to64\<close> computes it.\<close>

definition mix48 :: "u64 \<Rightarrow> u64 \<Rightarrow> u64 \<Rightarrow> u64 \<Rightarrow> u64 \<Rightarrow> u64 \<Rightarrow> u64" where
  "mix48 t e k s p l =
     (let mul = k2 + 96; a = t * k2; b = e; c = s; d = k; e = k * k2; f = s * 9; g = l; h = p * mul;
          u = Rotate (a + g) 43 + (Rotate b 30 + c) * 9;
          v = ((a + g) XOR d) + f + 1;
          w = swap64 ((u + v) * mul) + h;
          x = Rotate (e + f) 42 + c;
          y = (swap64 ((v + w) * mul) + g) * mul;
          z = e + f + c;
          a = swap64 ((x + z) * mul + y) + b;
          b = ShiftMix ((z + a) * mul + d + h) * mul
      in b + x)"

lemma Fetch64_words:
  assumes "i < length ws"
  shows "Fetch64 (concat (map (\<lambda>w. le_digits 8 (unat w)) ws)) (8 * int i) = Some (ws ! i)"
proof -
  have len: "length (concat (map (\<lambda>w. le_digits 8 (unat w)) ws)) = 8 * length ws" for ws :: "u64 list"
    by (induction ws) simp_all
  have "take 8 (drop (8 * i) (concat (map (\<lambda>w. le_digits 8 (unat w)) ws))) = le_digits 8 (unat (ws ! i))"
    using assms
  proof (induction ws arbitrary: i)
    case (Cons w ws)
    then show ?case by (cases i) simp_all
  qed simp
  moreover have "unat (ws ! i) < 2 ^ 64" using unsigned_less [of "ws ! i"] by simp
  then have "unat (ws ! i) mod 256 ^ 8 = unat (ws ! i)" by simp
  ultimately show ?thesis using assms by (simp add: Fetch64_def len nat_mult_distrib)
qed

lemma CityHash64_words:
  "CityHash64 (concat (map (\<lambda>w. le_digits 8 (unat w)) [t, e, k, s, p, l])) 0 48 = Some (mix48 t e k s p l)"
proof -
  let ?ws = "[t, e, k, s, p, l]"
  note F = Fetch64_words [of _ ?ws]
  show ?thesis
    using F [of 0] F [of 1] F [of 2] F [of 3] F [of 4] F [of 5]
    by (simp add: CityHash64_def HashLen33to64_def mix48_def Let_def del: concat.simps list.map)
qed

definition hash_char :: "u8 \<Rightarrow> u64" where
  "hash_char b = ShiftMix (ucast (257 * ucast b :: u32) * k2 XOR ucast (1 + 4 * ucast b :: u32) * k0) * k2"

lemma city_string_char: "city_string [c] = Some (hash_char (of_char c))"
  by (simp add: city_string_def CityHash64_def HashLen0to16_def byte_at_def bytes_of_def push_bit_eq_mult hash_char_def mult.commute)

lemma demo_hash_value: "demo_hash = mix48 (hash_char 116) (hash_char 101) 0 0 (hash_char 112) 0"
proof -
  have "city_string [] = Some 0" by (simp add: city_string_def CityHash64_def)
  moreover have "of_char (CHR ''t'') = (116 :: u8)" "of_char (CHR ''e'') = (101 :: u8)" "of_char (CHR ''p'') = (112 :: u8)" by simp_all
  ultimately show ?thesis
    using CityHash64_words [of "hash_char 116" "hash_char 101" 0 0 "hash_char 112" 0]
    unfolding demo_hash_def Config_Hash_def demo_config_def by (simp add: city_string_char del: concat.simps list.map)
qed

lemma demo_hash_not_0: "demo_hash \<noteq> 0"
  unfolding demo_hash_value by code_simp


lemma demo_rounds:
  assumes "E = {(demo_hash, i, k)}" and "uploadable demo_track_env (f k)"
  shows "rounds_ok demo_track_env f E [(demo_track_env, [demo_hash])]"
  using demo_healthy(2) demo_hash_not_0 assms by (simp add: rounds_ok_def covers_def)

lemma demo_idle:
  "\<exists>s f i k. entries s = {(demo_hash, i, k)} \<and> trk_ok demo_track_env f (entries s) s \<and> trk_pending s = None
     \<and> held f (entries s) = {#(demo_hash, stored demo_msg)#} \<and> snd (f k) \<noteq> [] \<and> uploadable demo_track_env (f k)"
proof -
  obtain s i k f where s: "trk_ok demo_track_env f (entries s) s" "held f (entries s) = {#(demo_hash, stored demo_msg)#}" "\<not> uploading s"
      "entries s = {(demo_hash, i, k)}" "snd (f k) \<noteq> []" "uploadable demo_track_env (f k)"
    using demo_upload_ready by blast
  moreover have "trk_pending s = None" using s(1,3) trk_invD(6) [of s] by (cases "trk_pending s") (auto simp: trk_ok_def)
  ultimately show ?thesis by blast
qed

theorem caches_drained_witness:
  "\<exists>s f rqs s' f' bs. held f (entries s) = {#(demo_hash, stored demo_msg)#} \<and> trk_ok demo_track_env f (entries s) s
     \<and> upload_rounds [(demo_track_env, [demo_hash])] True s = Ret rqs s'
     \<and> trk_ok demo_track_env f' (entries s) s' \<and> held f' (entries s) = {#}
     \<and> list_all2 (sent demo_track_env) rqs bs \<and> (\<Sum>b\<leftarrow>bs. batch_messages b) = {#(demo_hash, stored demo_msg)#}"
proof -
  obtain s f i k where s: "entries s = {(demo_hash, i, k)}" "trk_ok demo_track_env f (entries s) s" "trk_pending s = None"
      "held f (entries s) = {#(demo_hash, stored demo_msg)#}" "uploadable demo_track_env (f k)"
    using demo_idle by blast
  have "filled f (entries s) \<subseteq> {k}" using s(1) by (auto simp: filled_def)
  then have "card (filled f (entries s)) \<le> length [(demo_track_env, [demo_hash])]" using card_mono [of "{k}"] by fastforce
  moreover have "wire_format (env_msg (te_cache demo_track_env)) utf8_msg" using demo_env_ok(2) demo_healthy(1) by simp
  ultimately obtain rqs s' f' bs lost where d: "upload_rounds [(demo_track_env, [demo_hash])] True s = Ret rqs s'"
      "trk_ok demo_track_env f' (entries s) s'" "held f' (entries s) = {#}" "list_all2 (sent demo_track_env) rqs bs"
      and lost: "\<forall>(h, time, m)\<in>#lost. \<not> utf8_msg m" "held f (entries s) = (\<Sum>b\<leftarrow>bs. batch_messages b) + lost"
    using caches_drained [OF _ s(2,3) demo_rounds [of _ i k f, OF s(1,5)]] by blast
  have u: "unreadable lost" using lost(1) by (simp add: unreadable_def readable_def split_def)
  have "lost = {#}"
    by (rule unreadable_none [OF u lost(2) [symmetric]]) (use demo_utf8(1) s(4) in \<open>simp add: readable_def stored_def\<close>)
  then have "(\<Sum>b\<leftarrow>bs. batch_messages b) = {#(demo_hash, stored demo_msg)#}" using lost(2) s(4) by simp
  with d s(2,4) show ?thesis by blast
qed

text \<open>
  C33: a refused cache blocks the others. When the upload of a cache with messages has failed, each timer check
  chooses this cache again, as long as the server refuses it: after any number of refused rounds the next check
  uploads it once more, and no other cache of any configuration has been tried.
\<close>

theorem failed_cache_starves:
  assumes "wire_format (env_msg (te_cache env)) utf8_msg" and "trk_ok env f E s" and "trk_pending s = None"
    and "(h, i, k) \<in> E" and "snd (f k) \<noteq> []" and "latest_upload_failed s = Some k"
    and "rounds_ok env f E (rs @ [(e, order)])"
  shows "\<exists>s' s1 rq. upload_rounds rs False s = Ret [] s' \<and> trk_ok env f E s'
     \<and> check_upload_event e order s' = Ret () s1 \<and> trk_pending s1 = Some (h, i, k, rq)"
proof -
  have rs: "rounds_ok env f E rs" "rounds_ok env f E [(e, order)]" using assms(7) by (auto simp: rounds_ok_def)
  obtain s' where s': "upload_rounds rs False s = Ret [] s'" "trk_ok env f E s'" "trk_pending s' = None" "latest_upload_failed s' = Some k"
    using refused_rounds [OF assms(1,4,5,2,3,6) rs(1)] by blast
  from refused [OF assms(1,4,5) s'(2,3,4) rs(2)] s'(1,2) show ?thesis by blast
qed

theorem failed_cache_starves_witness:
  "\<exists>s s' s1 i k rq. upload_rounds [(demo_track_env, [demo_hash])] False s = Ret [] s'
     \<and> check_upload_event demo_track_env [demo_hash] s' = Ret () s1 \<and> trk_pending s1 = Some (demo_hash, i, k, rq)"
proof -
  obtain s f i k where s: "entries s = {(demo_hash, i, k)}" "trk_ok demo_track_env f (entries s) s" "trk_pending s = None" "snd (f k) \<noteq> []"
      "uploadable demo_track_env (f k)"
    using demo_idle by blast
  let ?s = "s\<lparr>latest_upload_failed := Some k\<rparr>"
  have e: "entries ?s = entries s" "shape ?s = shape s" by (simp_all add: entries_def shape_def)
  have "trk_ok demo_track_env f (entries s) ?s"
    using s(2) trk_inv_shape [OF e(2)] e(1) by (simp add: trk_ok_def holds_all_def pending_ok_def free_files_def)
  note ok = this
  have rs: "rounds_ok demo_track_env f (entries s) ([(demo_track_env, [demo_hash])] @ [(demo_track_env, [demo_hash])])"
    using demo_rounds [of _ i k f, OF s(1,5)] by (simp add: rounds_ok_def)
  have wf: "wire_format (env_msg (te_cache demo_track_env)) utf8_msg" using demo_env_ok(2) demo_healthy(1) by simp
  have k: "(demo_hash, i, k) \<in> entries s" "trk_pending ?s = None" "latest_upload_failed ?s = Some k" using s(1,3) by simp_all
  show ?thesis using failed_cache_starves [OF wf ok k(2,1) s(4) k(3) rs] by blast
qed

end
