(* ===== verification/Tracker_Net.thy ===== *)
theory Tracker_Net
  imports Tracker_Delivery Http_Calls
begin

text \<open>
  An upload over the network: the client that a tracker cache owns, the request it puts on the wire, and the
  answer that decides what becomes of the messages. \<^verbatim>\<open>Tracker\<close> leaves open how an upload ends; here
  the end is computed from the response, by the HTTP client of \<^verbatim>\<open>Http_Calls\<close>.
\<close>

section \<open>The client of a cache\<close>

text \<open>The host is passed as \<^verbatim>\<open>endpoint.c_str()\<close>, so a NUL ends it.\<close>

definition c_str :: "string \<Rightarrow> string" where
  "c_str s = takeWhile (\<lambda>c. c \<noteq> CHR 0x00) s"

definition TrackerCache_client :: "(string \<Rightarrow> json option) \<Rightarrow> TrackerConfig \<Rightarrow> coro_client" where
  "TrackerCache_client parse config = SetResultUnwrap tracker_unwrap (CoroHttpClient parse (c_str (endpoint config)) True)"

definition UploadResult_new :: "json \<Rightarrow> unit may" where
  "UploadResult_new j = Some (Inr ())"

text \<open>
  The \<^verbatim>\<open>co_await\<close> of \<^verbatim>\<open>UploadTopicTrackers\<close>, in two parts: the request that goes out, on the connection
  with the number returned, and the answer. \<open>UploadAnswered\<close> is the callback given to \<^verbatim>\<open>start\<close>.
\<close>

definition upload_post ::
    "((string \<rightharpoonup> string) \<Rightarrow> pairs) \<Rightarrow> string \<Rightarrow> string \<times> pairs \<times> u8 list \<Rightarrow> coro_client \<Rightarrow> nat \<times> wire_request \<times> coro_client" where
  "upload_post listing ca rq c =
     (case rq of (path, headers, body) \<Rightarrow> begin_coroutine listing ca POST path headers [] (string_of body) NONE c)"

definition upload_result :: "nat \<Rightarrow> response \<Rightarrow> coro_client \<Rightarrow> (net_error + unit) option \<times> coro_client" where
  "upload_result j value c =
     (let (res, c) = end_request j value c in (MakeResult UploadResult_new res, c))"

definition UploadAnswered :: "track_env \<Rightarrow> (net_error + unit) option \<Rightarrow> unit trk_io" where
  "UploadAnswered env result =
     (case result of
        None \<Rightarrow> io_undef
      | Some res \<Rightarrow> UploadFinished env (case res of Inr _ \<Rightarrow> True | Inl _ \<Rightarrow> False))"

section \<open>Lemmas\<close>

lemma bytes_of_string_of [simp]: "bytes_of (string_of bs) = bs"
proof -
  have "of_char (char_of (unat b)) = b" for b :: u8
  proof -
    have "unat b < 2 ^ LENGTH(8)" by (rule unsigned_less)
    then have "(of_char (char_of (unat b)) :: nat) = unat b" by simp
    then have "(of_nat (of_char (char_of (unat b))) :: u8) = of_nat (unat b)" by (rule arg_cong)
    then show ?thesis by (simp only: of_nat_of_char) simp
  qed
  then show ?thesis by (induction bs) (simp_all add: bytes_of_def string_of_def)
qed

text \<open>The client of a cache after some uploads, one at a time.\<close>

inductive used_client :: "(string \<Rightarrow> json option) \<Rightarrow> ((string \<rightharpoonup> string) \<Rightarrow> pairs) \<Rightarrow> TrackerConfig \<Rightarrow> coro_client \<Rightarrow> bool"
  for parse listing config where
  fresh: "used_client parse listing config (TrackerCache_client parse config)"
| again: "used_client parse listing config c \<Longrightarrow> upload_post listing ca rq c = (j, r, c')
     \<Longrightarrow> used_client parse listing config (snd (upload_result j value c'))"

definition idle_client :: "string \<Rightarrow> coro_client \<Rightarrow> bool" where
  "idle_client host c \<longleftrightarrow> client_ok host True {} c \<and> common_headers c = Map.empty \<and> common_params c = Map.empty
     \<and> unwrap_result c = tracker_unwrap"

lemma upload_post_eq:
  assumes "idle_client host c" and "listing Map.empty = []" and "upload_post listing ca (path, headers, body) c = (j, r, c')"
  shows "wr_method r = POST" "wr_url r = ''https://'' @ host @ ''/'' @ path" "wr_content r = string_of body"
    "wr_headers r = header_map headers" "wr_parts r = Map.empty" "unwrap_result c' = tracker_unwrap"
    "idle_client host (snd (upload_result j value c'))"
proof -
  have c: "client_ok host True {} c" "common_headers c = Map.empty" "common_params c = Map.empty" "unwrap_result c = tracker_unwrap"
    using assms(1) by (simp_all add: idle_client_def)
  have b: "begin_request listing ca POST path headers [] (string_of body) (cina_content_type NONE) c = (j, r, c')"
    using assms(3) by (simp add: upload_post_def begin_coroutine_def)
  note e = begin_request_eq [OF c(1) b]
  show "wr_method r = POST" using b by (auto simp: begin_request_def Let_def split: prod.splits)
  show "wr_url r = ''https://'' @ host @ ''/'' @ path" using e(5) c(1) by (simp add: request_url_def client_ok_def)
  show "wr_content r = string_of body" "wr_headers r = header_map headers" "wr_parts r = Map.empty"
    using e(3,4,6) c assms(2) by (simp_all add: part_map_def)
  obtain cn where c': "c' = (snd (AcquireClient c))\<lparr>conns := (conns c)(j := cn)\<rparr>" using e(2) by blast
  then show u: "unwrap_result c' = tracker_unwrap" using c(4) by (auto simp: AcquireClient_def split: list.split)
  have "common_headers c' = Map.empty" "common_params c' = Map.empty" using c c' by (auto simp: AcquireClient_def split: list.split)
  moreover have "client_ok host True ({j} - {j}) (RecycleClient j c')"
    by (rule client_ok_recycle) (use client_ok_begin(1) [OF c(1) b] in simp_all)
  ultimately show "idle_client host (snd (upload_result j value c'))"
    using u by (simp add: idle_client_def upload_result_def end_request_def RecycleClient_def)
qed

lemma used_client_idle:
  assumes "used_client parse listing config c" and l: "listing Map.empty = []"
  shows "idle_client (c_str (endpoint config)) c"
  using assms(1)
proof induction
  case fresh
  show ?case
    by (simp add: idle_client_def TrackerCache_client_def SetResultUnwrap_def CoroHttpClient_def CreateHttpClient_def http_client.extend_def
        client_ok_def pool_ok_def)
next
  case (again c ca rq j r c' v)
  then show ?case using upload_post_eq(7) [of _ c listing] l by (cases rq) blast
qed

lemma upload_result_eq:
  assumes "unwrap_result c = tracker_unwrap"
  shows "\<exists>res. fst (upload_result j value c) = Some res \<and> (case res of Inr _ \<Rightarrow> True | Inl _ \<Rightarrow> False) = (rs_status value = 200)"
  using assms by (simp add: upload_result_def end_request_def answer_with_def tracker_unwrap_def MakeResult_def UploadResult_new_def)

lemma upload_header_map:
  "header_map (upload_headers config tm md5 n raw sig) ''Content-MD5'' = Some md5"
  "header_map (upload_headers config tm md5 n raw sig) ''Authorization'' = Some sig"
  "header_map (upload_headers config tm md5 n raw sig) ''Content-Length'' = Some (dec n)"
  "header_map (upload_headers config tm md5 n raw sig) ''Host'' = None"
  by (simp_all add: header_map_def upload_headers_def)

section \<open>Properties\<close>


text \<open>Example: a message flushed, its upload refused with status 500 and, from the same state, accepted.\<close>

definition demo_response :: "int \<Rightarrow> response" where
  "demo_response status = \<lparr>rs_status = status, rs_net_err = 0, rs_net_msg = [], rs_body = []\<rparr>"


end
