(* ===== verification/Log_Thread.thy ===== *)
theory Log_Thread
  imports Decimal
begin

text \<open>
  Logging (\<^verbatim>\<open>source/base/logging.*\<close>) and the set-up of threads (\<^verbatim>\<open>source/base/thread.*\<close>). What is written to
  the platform's log is a list; whether the build is for Android and whether it has \<^verbatim>\<open>CONFIG_DEBUG_MSG\<close>
  are arguments. The range of priorities and the result of \<^verbatim>\<open>pthread_setname_np\<close> come from the system.
\<close>

section \<open>Logging\<close>

datatype Level = Info | Debug | Warning | Error | Level_Max

definition level_value :: "Level \<Rightarrow> nat" where
  "level_value l = (case l of Info \<Rightarrow> 0 | Debug \<Rightarrow> 1 | Warning \<Rightarrow> 2 | Error \<Rightarrow> 3 | Level_Max \<Rightarrow> 4)"

datatype LogPriority = ANDROID_LOG_DEFAULT | ANDROID_LOG_DEBUG | ANDROID_LOG_INFO | ANDROID_LOG_WARN | ANDROID_LOG_ERROR

definition GetAndroidLogLevel :: "Level \<Rightarrow> LogPriority" where
  "GetAndroidLogLevel log_level =
     (case log_level of
        Debug \<Rightarrow> ANDROID_LOG_DEBUG
      | Info \<Rightarrow> ANDROID_LOG_INFO
      | Warning \<Rightarrow> ANDROID_LOG_WARN
      | Error \<Rightarrow> ANDROID_LOG_ERROR
      | Level_Max \<Rightarrow> ANDROID_LOG_DEFAULT)"

datatype log_line = AndroidLog LogPriority string string | Cout string

record log_state =
  log_level :: Level
  log_written :: "log_line list"

definition log_start :: log_state where
  "log_start = \<lparr>log_level = Info, log_written = []\<rparr>"

definition SetLogLevel :: "Level \<Rightarrow> log_state \<Rightarrow> log_state" where
  "SetLogLevel level s = s\<lparr>log_level := level\<rparr>"

definition LogMessage :: "bool \<Rightarrow> Level \<Rightarrow> string \<Rightarrow> log_state \<Rightarrow> log_state" where
  "LogMessage android level message s =
     (if level_value (log_level s) \<ge> level_value level then s
      else s\<lparr>log_written := log_written s @
        [if android then AndroidLog (GetAndroidLogLevel level) ''TapSDK'' message else Cout message]\<rparr>)"

text \<open>The overload the macros call; \<open>info\<close> is the formatted text.\<close>

definition LogMessage_at :: "bool \<Rightarrow> bool \<Rightarrow> Level \<Rightarrow> string \<Rightarrow> nat \<Rightarrow> string \<Rightarrow> string \<Rightarrow> log_state \<Rightarrow> log_state" where
  "LogMessage_at android debug_msg level filename line_num function_name info =
     (if debug_msg then LogMessage android level (filename @ '':'' @ dec line_num @ '':'' @ function_name @ '': '' @ info)
      else LogMessage android level info)"

text \<open>Any sequence of calls.\<close>

datatype log_call = SetLevel Level | LogCall Level string nat string string

fun log_step :: "bool \<Rightarrow> bool \<Rightarrow> log_call \<Rightarrow> log_state \<Rightarrow> log_state" where
  "log_step android debug_msg (SetLevel l) s = SetLogLevel l s"
| "log_step android debug_msg (LogCall l file n f info) s = LogMessage_at android debug_msg l file n f info s"

definition log_run :: "bool \<Rightarrow> bool \<Rightarrow> log_call list \<Rightarrow> log_state" where
  "log_run android debug_msg cs = fold (log_step android debug_msg) cs log_start"

lemma LogMessage_at_level [simp]:
  "log_level (LogMessage_at android d l file n f info s) = log_level s"
  by (simp add: LogMessage_at_def LogMessage_def)

lemma LogMessage_at_written:
  "log_written (LogMessage_at android d l file n f info s) =
     (if level_value l \<le> level_value (log_level s) then log_written s
      else log_written s @ [if android then AndroidLog (GetAndroidLogLevel l) ''TapSDK'' (if d then file @ '':'' @ dec n @ '':'' @ f @ '': '' @ info else info)
                            else Cout (if d then file @ '':'' @ dec n @ '':'' @ f @ '': '' @ info else info)])"
  by (simp add: LogMessage_at_def LogMessage_def)

text \<open>
  No information message is ever written: the first level is the lowest, and a message is dropped when
  its level is not above the one that is set. With the level the program starts with, debug messages
  are written and information messages are not.
\<close>

theorem info_never_logged:
  "AndroidLog ANDROID_LOG_INFO tag msg \<notin> set (log_written (log_run True debug_msg cs))"
  and "log_written (log_run android debug_msg (cs @ [LogCall Info file n f info])) = log_written (log_run android debug_msg cs)"
proof -
  have "AndroidLog ANDROID_LOG_INFO tag msg \<notin> set (log_written (fold (log_step True debug_msg) cs s))"
    if "AndroidLog ANDROID_LOG_INFO tag msg \<notin> set (log_written s)" for s
    using that
  proof (induction cs arbitrary: s)
    case (Cons c cs)
    have "AndroidLog ANDROID_LOG_INFO tag msg \<notin> set (log_written (log_step True debug_msg c s))"
      using Cons.prems
      by (cases c) (auto simp: SetLogLevel_def LogMessage_at_written level_value_def GetAndroidLogLevel_def split: Level.splits)
    then show ?case using Cons.IH by simp
  qed simp
  then show "AndroidLog ANDROID_LOG_INFO tag msg \<notin> set (log_written (log_run True debug_msg cs))"
    by (simp add: log_run_def log_start_def)
  show "log_written (log_run android debug_msg (cs @ [LogCall Info file n f info])) = log_written (log_run android debug_msg cs)"
    by (simp add: log_run_def LogMessage_at_written level_value_def)
qed

theorem errors_logged_by_default:
  assumes "\<forall>l. SetLevel l \<notin> set cs" and "l = Debug \<or> l = Warning \<or> l = Error"
  shows "log_written (log_run android False (cs @ [LogCall l file n f info])) =
     log_written (log_run android False cs) @ [if android then AndroidLog (GetAndroidLogLevel l) ''TapSDK'' info else Cout info]"
proof -
  have "log_level (fold (log_step android False) cs s) = log_level s" for s
    using assms(1)
  proof (induction cs arbitrary: s)
    case (Cons c cs)
    then have "log_level (log_step android False c s) = log_level s" by (cases c) auto
    then show ?case using Cons by simp
  qed simp
  then show ?thesis
    using assms(2) by (auto simp: log_run_def log_start_def LogMessage_at_written level_value_def)
qed

section \<open>Threads\<close>

datatype ThreadPriority = Low | Normal | High | VeryHigh | Critical

definition priority_value :: "ThreadPriority \<Rightarrow> u32" where
  "priority_value p = (case p of Low \<Rightarrow> 0 | Normal \<Rightarrow> 1 | High \<Rightarrow> 2 | VeryHigh \<Rightarrow> 3 | Critical \<Rightarrow> 4)"

text \<open>
  The POSIX version: the product of a signed and an unsigned number is unsigned, and so is the sum, before
  it becomes the \<^verbatim>\<open>int\<close> of \<^verbatim>\<open>sched_param\<close>. Words that are read as signed numbers are the \<^verbatim>\<open>int32_t\<close> values.
\<close>

definition sched_priority :: "u32 \<Rightarrow> u32 \<Rightarrow> ThreadPriority \<Rightarrow> u32" where
  "sched_priority min_prio max_prio new_priority =
     (let level = priority_value new_priority + 1
      in if sint max_prio > sint min_prio then min_prio + ((max_prio - min_prio) * level) div 4
         else min_prio - ((min_prio - max_prio) * level) div 4)"

text \<open>The Windows version.\<close>

datatype win_priority = THREAD_PRIORITY_BELOW_NORMAL | THREAD_PRIORITY_NORMAL | THREAD_PRIORITY_ABOVE_NORMAL | THREAD_PRIORITY_HIGHEST

definition windows_priority :: "ThreadPriority \<Rightarrow> win_priority" where
  "windows_priority new_priority =
     (case new_priority of
        Low \<Rightarrow> THREAD_PRIORITY_BELOW_NORMAL
      | Normal \<Rightarrow> THREAD_PRIORITY_NORMAL
      | High \<Rightarrow> THREAD_PRIORITY_ABOVE_NORMAL
      | VeryHigh \<Rightarrow> THREAD_PRIORITY_HIGHEST
      | Critical \<Rightarrow> THREAD_PRIORITY_NORMAL)"

text \<open>The Linux version: the name given to the system and the new value of \<^verbatim>\<open>errno\<close>.\<close>

definition SetCurrentThreadName :: "(string \<Rightarrow> int) \<Rightarrow> string \<Rightarrow> int \<Rightarrow> string \<times> int" where
  "SetCurrentThreadName pthread_setname_np name errno =
     (let truncated = take (min (length name) 15) name;
          e = pthread_setname_np truncated
      in (truncated, if e \<noteq> 0 then e else errno))"

lemma sched_priority_value:
  fixes lo hi :: u32 and p :: ThreadPriority
  defines "a \<equiv> sint lo" and "b \<equiv> sint hi" and "n \<equiv> int (unat (priority_value p + 1))"
  assumes "a < b" and "(b - a) * 5 < 2 ^ 31" and "a + (b - a) * 5 div 4 < 2 ^ 31"
  shows "sint (sched_priority lo hi p) = a + (b - a) * n div 4"
proof -
  have small: "0 \<le> z \<Longrightarrow> z < 2 ^ 31 \<Longrightarrow> uint (word_of_int z :: u32) = z" for z by (simp add: uint_word_of_int)
  have signed: "- (2 ^ 31) \<le> z \<Longrightarrow> z < 2 ^ 31 \<Longrightarrow> sint (word_of_int z :: u32) = z" for z
    by (simp add: sint_sbintrunc' signed_take_bit_int_eq_self)
  have n: "1 \<le> n" "n \<le> 5" by (cases p; simp add: n_def priority_value_def)+
  have lo: "lo = word_of_int a" and hi: "hi = word_of_int b" by (simp_all add: a_def b_def)
  have N: "priority_value p + 1 = word_of_int n" by (simp add: n_def)
  have r: "0 \<le> (b - a) * n" "(b - a) * n \<le> (b - a) * 5" using assms(4) n by (simp, intro mult_left_mono) simp_all
  then have u: "uint (word_of_int ((b - a) * n) :: u32) = (b - a) * n"
    using assms(5) small [of "(b - a) * n"] by linarith
  have "(hi - lo) * (priority_value p + 1) = word_of_int ((b - a) * n)" unfolding lo hi N by simp
  moreover have "(word_of_int ((b - a) * n) :: u32) div 4 = word_of_int ((b - a) * n div 4)"
    using u by (simp add: word_div_def)
  ultimately have eq: "sched_priority lo hi p = word_of_int (a + (b - a) * n div 4)"
    using assms(4) by (simp add: sched_priority_def Let_def a_def b_def)
  have "- (2 ^ 31) \<le> a" using sint_ge [of lo] by (simp add: a_def)
  moreover have "(b - a) * n div 4 \<le> (b - a) * 5 div 4" "0 \<le> (b - a) * n div 4" using r by (simp_all add: zdiv_mono1)
  ultimately have "- (2 ^ 31) \<le> a + (b - a) * n div 4" "a + (b - a) * n div 4 < 2 ^ 31" using assms(6) by linarith+
  from signed [OF this] eq show ?thesis by simp
qed

text \<open>
  The four first priorities divide the range of the system in quarters and end at its maximum; the last
  one is above the maximum, which the system refuses. The Windows version gives it the middle priority.
\<close>

theorem thread_priorities:
  fixes lo hi :: u32
  assumes "sint lo + 4 \<le> sint hi" and "(sint hi - sint lo) * 5 < 2 ^ 31" and "sint lo + (sint hi - sint lo) * 5 div 4 < 2 ^ 31"
  shows "sint lo < sint (sched_priority lo hi Low) \<and> sint (sched_priority lo hi Low) < sint (sched_priority lo hi Normal)
     \<and> sint (sched_priority lo hi Normal) < sint (sched_priority lo hi High)
     \<and> sint (sched_priority lo hi High) < sint (sched_priority lo hi VeryHigh)
     \<and> sint (sched_priority lo hi VeryHigh) = sint hi \<and> sint hi < sint (sched_priority lo hi Critical)
     \<and> windows_priority Critical = windows_priority Normal"
proof -
  have v: "sint (sched_priority lo hi p) = sint lo + (sint hi - sint lo) * int (unat (priority_value p + 1)) div 4" for p
    using sched_priority_value [of lo hi p] assms by simp
  have q: "0 < d div 4 \<and> d div 4 < d * 2 div 4 \<and> d * 2 div 4 < d * 3 div 4 \<and> d * 3 div 4 < d \<and> d < d * 5 div 4" if "4 \<le> d" for d :: int
    by (intro conjI) (use that in linarith)+
  have w: "sint (sched_priority lo hi Low) = sint lo + (sint hi - sint lo) div 4"
    "sint (sched_priority lo hi Normal) = sint lo + (sint hi - sint lo) * 2 div 4"
    "sint (sched_priority lo hi High) = sint lo + (sint hi - sint lo) * 3 div 4"
    "sint (sched_priority lo hi VeryHigh) = sint hi"
    "sint (sched_priority lo hi Critical) = sint lo + (sint hi - sint lo) * 5 div 4"
    unfolding v by (simp_all add: priority_value_def)
  show ?thesis
    using q [of "sint hi - sint lo"] assms(1) unfolding w by (simp add: windows_priority_def)
qed

theorem thread_name_fits:
  assumes "\<And>name. length name \<le> 15 \<Longrightarrow> pthread_setname_np name \<noteq> ERANGE" and "errno \<noteq> ERANGE"
  shows "snd (SetCurrentThreadName pthread_setname_np name errno) \<noteq> ERANGE"
    and "length name \<le> 15 \<Longrightarrow> fst (SetCurrentThreadName pthread_setname_np name errno) = name"
  using assms(1) [of "take (min (length name) 15) name"] assms(2) by (auto simp: SetCurrentThreadName_def Let_def)

end
