(* ===== verification/Stack_Alloc.thy ===== *)
theory Stack_Alloc
  imports Tap_Prelude
begin

text \<open>
  The allocator of \<^verbatim>\<open>source/base/stack_container.h\<close>: the first allocation that fits takes a buffer that the
  owner keeps on the stack, all others go to the heap. The allocators of one \<^verbatim>\<open>Source\<close> share it; an allocator
  without a source uses the heap only. The heap is \<^verbatim>\<open>std::allocator\<close>: it gives blocks that are not in use.
\<close>

datatype pointer = StackBuffer nat | Heap nat

record sa_state =
  used_stack_buffer :: "nat \<Rightarrow> bool"
  heap_blocks :: "nat \<rightharpoonup> nat"
  heap_next :: nat

text \<open>An allocator is its \<^verbatim>\<open>source_\<close>: the number of a \<^verbatim>\<open>Source\<close>, or None.\<close>

type_synonym StackAllocator = "nat option"

definition StackAllocator_copy :: "StackAllocator \<Rightarrow> StackAllocator" where
  "StackAllocator_copy rhs = rhs"

definition StackAllocator_other :: "StackAllocator \<Rightarrow> StackAllocator" where
  "StackAllocator_other rhs = None"

definition StackAllocator_default :: StackAllocator where
  "StackAllocator_default = None"

definition new_Source :: "nat \<Rightarrow> sa_state \<Rightarrow> sa_state" where
  "new_Source k s = s\<lparr>used_stack_buffer := (used_stack_buffer s)(k := False)\<rparr>"

definition heap_allocate :: "nat \<Rightarrow> sa_state \<Rightarrow> pointer \<times> sa_state" where
  "heap_allocate n s = (Heap (heap_next s), s\<lparr>heap_blocks := (heap_blocks s)(heap_next s \<mapsto> n), heap_next := Suc (heap_next s)\<rparr>)"

text \<open>Freeing what is not allocated, or with another size, is undefined.\<close>

definition heap_deallocate :: "pointer \<Rightarrow> nat \<Rightarrow> sa_state \<Rightarrow> sa_state option" where
  "heap_deallocate p n s =
     (case p of
        Heap a \<Rightarrow> if heap_blocks s a = Some n then Some (s\<lparr>heap_blocks := (heap_blocks s)(a := None)\<rparr>) else None
      | StackBuffer _ \<Rightarrow> None)"

definition sa_allocate :: "nat \<Rightarrow> StackAllocator \<Rightarrow> nat \<Rightarrow> sa_state \<Rightarrow> pointer \<times> sa_state" where
  "sa_allocate stack_capacity source n s =
     (case source of
        Some k \<Rightarrow> if \<not> used_stack_buffer s k \<and> n \<le> stack_capacity
                  then (StackBuffer k, s\<lparr>used_stack_buffer := (used_stack_buffer s)(k := True)\<rparr>)
                  else heap_allocate n s
      | None \<Rightarrow> heap_allocate n s)"

definition sa_deallocate :: "StackAllocator \<Rightarrow> pointer \<Rightarrow> nat \<Rightarrow> sa_state \<Rightarrow> sa_state option" where
  "sa_deallocate source p n s =
     (case source of
        Some k \<Rightarrow> if p = StackBuffer k then Some (s\<lparr>used_stack_buffer := (used_stack_buffer s)(k := False)\<rparr>)
                  else heap_deallocate p n s
      | None \<Rightarrow> heap_deallocate p n s)"

text \<open>
  The users of the allocators: the blocks that are live, with the allocator they came from and their
  size. A block is freed by an allocator of the same source, or by a copy of it.
\<close>

inductive sa_run :: "nat \<Rightarrow> (pointer \<rightharpoonup> StackAllocator \<times> nat) \<Rightarrow> sa_state \<Rightarrow> bool" for cap where
  start: "sa_run cap Map.empty \<lparr>used_stack_buffer = (\<lambda>_. False), heap_blocks = Map.empty, heap_next = 0\<rparr>"
| alloc: "sa_run cap live s \<Longrightarrow> sa_allocate cap src n s = (p, s') \<Longrightarrow> sa_run cap (live(p \<mapsto> (src, n))) s'"
| free: "sa_run cap live s \<Longrightarrow> live p = Some (src, n) \<Longrightarrow> sa_deallocate (StackAllocator_copy src) p n s = Some s' \<Longrightarrow>
    sa_run cap (live(p := None)) s'"

definition sa_inv :: "nat \<Rightarrow> (pointer \<rightharpoonup> StackAllocator \<times> nat) \<Rightarrow> sa_state \<Rightarrow> bool" where
  "sa_inv cap live s \<longleftrightarrow>
     (\<forall>k. live (StackBuffer k) = None \<longleftrightarrow> \<not> used_stack_buffer s k)
     \<and> (\<forall>k src n. live (StackBuffer k) = Some (src, n) \<longrightarrow> src = Some k \<and> n \<le> cap)
     \<and> (\<forall>a. heap_blocks s a = map_option snd (live (Heap a))) \<and> (\<forall>a\<ge>heap_next s. live (Heap a) = None)"

lemmas sa_defs = sa_inv_def sa_allocate_def sa_deallocate_def heap_allocate_def heap_deallocate_def StackAllocator_copy_def

lemma sa_allocate_fresh:
  "sa_inv cap live s \<Longrightarrow> sa_allocate cap src n s = (p, s') \<Longrightarrow> live p = None"
  by (auto simp: sa_defs split: option.splits if_splits)

lemma sa_allocate_inv:
  assumes "sa_inv cap live s" and "sa_allocate cap src n s = (p, s')"
  shows "sa_inv cap (live(p \<mapsto> (src, n))) s'"
  using assms by (auto simp: sa_defs split: option.splits if_splits)

lemma sa_deallocate_inv:
  assumes "sa_inv cap live s" and "live p = Some (src, n)"
  shows "\<exists>s'. sa_deallocate (StackAllocator_copy src) p n s = Some s' \<and> sa_inv cap (live(p := None)) s'"
proof (cases p)
  case (StackBuffer k)
  then have "src = Some k" using assms by (simp add: sa_inv_def)
  then have "sa_deallocate (StackAllocator_copy src) p n s = Some (s\<lparr>used_stack_buffer := (used_stack_buffer s)(k := False)\<rparr>)"
    using StackBuffer by (simp add: sa_deallocate_def StackAllocator_copy_def)
  moreover have "sa_inv cap (live(p := None)) (s\<lparr>used_stack_buffer := (used_stack_buffer s)(k := False)\<rparr>)"
    using assms(1) StackBuffer by (simp add: sa_inv_def)
  ultimately show ?thesis by blast
next
  case (Heap a)
  then have "heap_blocks s a = Some n" using assms by (simp add: sa_inv_def)
  then have "sa_deallocate (StackAllocator_copy src) p n s = Some (s\<lparr>heap_blocks := (heap_blocks s)(a := None)\<rparr>)"
    using Heap by (simp add: sa_deallocate_def heap_deallocate_def StackAllocator_copy_def split: option.split)
  moreover have "sa_inv cap (live(p := None)) (s\<lparr>heap_blocks := (heap_blocks s)(a := None)\<rparr>)"
    using assms(1) Heap by (simp add: sa_inv_def)
  ultimately show ?thesis by blast
qed

lemma sa_run_inv: "sa_run cap live s \<Longrightarrow> sa_inv cap live s"
proof (induction rule: sa_run.induct)
  case start
  then show ?case by (simp add: sa_inv_def)
next
  case (alloc live s src n p s')
  then show ?case by (intro sa_allocate_inv)
next
  case (free live s p src n s')
  from sa_deallocate_inv [OF free.IH free.hyps(2)] free.hyps(3) show ?case by (metis option.inject)
qed

text \<open>
  No block is given to two users: an allocation returns a pointer that is not in use, the stack buffer only
  for a request that fits in it, and every live block can be freed, whatever came before.
\<close>

theorem stack_allocator_exclusive:
  assumes "sa_run cap live s"
  shows "sa_allocate cap src n s = (p, s') \<Longrightarrow> live p = None \<and> (\<forall>k. p = StackBuffer k \<longrightarrow> src = Some k \<and> n \<le> cap)"
    and "live q = Some (src', m) \<Longrightarrow> \<exists>s'. sa_deallocate src' q m s = Some s'"
proof -
  have inv: "sa_inv cap live s" by (rule sa_run_inv [OF assms])
  show "live p = None \<and> (\<forall>k. p = StackBuffer k \<longrightarrow> src = Some k \<and> n \<le> cap)" if "sa_allocate cap src n s = (p, s')"
    using sa_allocate_fresh [OF inv that] that
    by (auto simp: sa_allocate_def heap_allocate_def split: option.splits if_splits)
  show "\<exists>s'. sa_deallocate src' q m s = Some s'" if "live q = Some (src', m)"
    using sa_deallocate_inv [OF inv that] by (auto simp: StackAllocator_copy_def)
qed

text \<open>An allocator of another type frees to the heap what it did not take there.\<close>

theorem stack_buffer_other_allocator:
  "sa_deallocate (StackAllocator_other src) (StackBuffer k) n s = None"
  by (simp add: sa_deallocate_def StackAllocator_other_def heap_deallocate_def)

section \<open>StackVector\<close>

text \<open>
  A \<^verbatim>\<open>std::vector\<close> with the allocator: its block (none before the first allocation), the capacity and
  the elements. \<^verbatim>\<open>reserve\<close> and \<^verbatim>\<open>assign\<close> take a new block, of the size they need, when the old one is too small.
\<close>

record 'a stack_vector =
  sv_allocator :: StackAllocator
  sv_block :: "pointer option"
  sv_capacity :: nat
  sv_items :: "'a list"

definition vector_grow :: "nat \<Rightarrow> nat \<Rightarrow> 'a stack_vector \<Rightarrow> sa_state \<Rightarrow> ('a stack_vector \<times> sa_state) option" where
  "vector_grow stack_capacity n v s =
     (if n \<le> sv_capacity v then Some (v, s)
      else
        let (p, s1) = sa_allocate stack_capacity (sv_allocator v) n s;
            v' = v\<lparr>sv_block := Some p, sv_capacity := n\<rparr>
        in case sv_block v of
             None \<Rightarrow> Some (v', s1)
           | Some q \<Rightarrow> map_option (Pair v') (sa_deallocate (sv_allocator v) q (sv_capacity v) s1))"

text \<open>The object \<open>k\<close>: its buffer is the source \<open>k\<close>.\<close>

definition StackContainer_new :: "nat \<Rightarrow> nat \<Rightarrow> sa_state \<Rightarrow> ('a stack_vector \<times> sa_state) option" where
  "StackContainer_new stack_capacity k s =
     vector_grow stack_capacity stack_capacity
       \<lparr>sv_allocator = Some k, sv_block = None, sv_capacity = 0, sv_items = []\<rparr> (new_Source k s)"

definition vector_assign :: "nat \<Rightarrow> 'a list \<Rightarrow> 'a stack_vector \<Rightarrow> sa_state \<Rightarrow> ('a stack_vector \<times> sa_state) option" where
  "vector_assign stack_capacity xs v s =
     map_option (\<lambda>(v, s). (v\<lparr>sv_items := xs\<rparr>, s)) (vector_grow stack_capacity (length xs) v s)"

definition StackVector_copy :: "nat \<Rightarrow> nat \<Rightarrow> 'a stack_vector \<Rightarrow> sa_state \<Rightarrow> ('a stack_vector \<times> sa_state) option" where
  "StackVector_copy stack_capacity k other s =
     Option.bind (StackContainer_new stack_capacity k s) (\<lambda>(v, s). vector_assign stack_capacity (sv_items other) v s)"

definition StackVector_index :: "'a stack_vector \<Rightarrow> nat \<Rightarrow> 'a option" where
  "StackVector_index v i = (if i < length (sv_items v) then Some (sv_items v ! i) else None)"

text \<open>
  A copy has its own buffer and the same elements. It stays off the heap when they fit; otherwise it
  takes one block of the heap and gives its buffer back.
\<close>

theorem stack_vector_copy:
  assumes "0 < stack_capacity"
  shows "\<exists>v s'. StackVector_copy stack_capacity k other s = Some (v, s') \<and> sv_items v = sv_items other
    \<and> (if length (sv_items other) \<le> stack_capacity
       then sv_block v = Some (StackBuffer k) \<and> s' = s\<lparr>used_stack_buffer := (used_stack_buffer s)(k := True)\<rparr>
       else sv_block v = Some (Heap (heap_next s)) \<and> \<not> used_stack_buffer s' k
         \<and> heap_blocks s' = (heap_blocks s)(heap_next s \<mapsto> length (sv_items other)))"
  using assms
  by (simp add: StackVector_copy_def StackContainer_new_def vector_assign_def vector_grow_def new_Source_def
      sa_allocate_def sa_deallocate_def heap_allocate_def)

end
