(* ===== verification/Spec2Isabelle.thy ===== *)
theory Spec2Isabelle
  imports Hmac Md5 City_Hash Spin_Lock Http_Calls Play_Time Dur_Timer Sdk_Flush Tracker_Drain Tracker_Net Log_Thread Stack_Alloc
begin

text \<open>
  \<^bold>\<open>A verification of the TapSDK client library.\<close>

  TapSDK (\<^verbatim>\<open>source/\<close>) is the C++ library games link to for Tap accounts, statistics of playing time and event
  tracking. An application calls a C interface, which sets the device, the game and the user, and hands
  over tracked messages. Inside, an event bus passes game and user changes to the duration statistics,
  which store events in SQLite tables and report them over HTTP from a thread of their own; the
  tracker keeps messages in cache files on disk, several per configuration, and uploads one file at a
  time, signed with HMAC-SHA1; the login shows a QR code and polls for a token. A timer thread runs
  everything periodic.

  \<^bold>\<open>The theories\<close>, from the bottom up:

  \<^item> \<open>Tap_Prelude\<close>: the exception type, machine words, bytes and texts, and the lemmas all share.
  \<^item> \<open>Encoding\<close>: \<^verbatim>\<open>base/base64.*\<close> and the helpers of \<^verbatim>\<open>alignment.h\<close>, \<^verbatim>\<open>types.h\<close>, \<^verbatim>\<open>common_funcs.h\<close> and \<^verbatim>\<open>uuid.cpp\<close>.
  \<^item> \<open>Md_Blocks\<close>, \<open>Sha1\<close>, \<open>Md5\<close>, \<open>Hmac\<close>: \<^verbatim>\<open>base/sha1.*\<close>, \<^verbatim>\<open>base/md5.*\<close>, \<^verbatim>\<open>base/hmac.h\<close>. \<open>Md_Blocks\<close> has what the two hash
    functions share, their padding and the splitting into blocks; the streaming objects are proved to
    compute the digests of FIPS 180-4 and RFC 1321, and \<^verbatim>\<open>hmac<SHA1>\<close> that of RFC 2104.
  \<^item> \<open>Swap\<close>, \<open>City_Hash\<close>: \<^verbatim>\<open>base/swap.h\<close> (the integer type in the other byte order, over the locale
    \<open>byte_swap\<close>) and \<^verbatim>\<open>base/cityhash.cpp\<close>, with proofs that no hash reads outside its input.
  \<^item> \<open>Blocking_Queue\<close>: \<^verbatim>\<open>base/blocking_queue.h\<close> as a step relation of threads with condition variables; whether
    assertions are compiled in and whether the capacity is changed are arguments.
  \<^item> \<open>Std_Heap\<close>, \<open>Core_Timer\<close>: \<^verbatim>\<open>base/timer.*\<close> and \<^verbatim>\<open>event.h\<close>; the heap of \<^verbatim>\<open><algorithm>\<close> is a locale that is
    interpreted on the message queue. The control of the timer thread is a transition system.
  \<^item> \<open>Timer_Rounds\<close>: the timer with callbacks that use it. The locale \<open>advance_rounds\<close> gives the rules for callbacks
    that post to the timer that runs them (invariants, termination by a measure, loops that never end); it is
    interpreted on callbacks that leave a removed event alone, and in \<open>Dur_Timer\<close> on those of the statistics.
  \<^item> \<open>Sdk_Result\<close>: \<^verbatim>\<open>sdk/result.h\<close>, results and futures.
  \<^item> \<open>Spin_Lock\<close>: \<^verbatim>\<open>base/spin_lock.*\<close>, mutual exclusion.
  \<^item> \<open>Log_Thread\<close>, \<open>Stack_Alloc\<close>: \<^verbatim>\<open>base/logging.*\<close>, \<^verbatim>\<open>base/thread.*\<close> and \<^verbatim>\<open>base/stack_container.h\<close>.
  \<^item> \<open>Tap_Json\<close>, \<open>Http_Client\<close>, \<open>Http_Calls\<close>: \<^verbatim>\<open>net/\<close>, requests, answers and the pool of connections, with the settings
    and headers each connection carries, the callback and blocking overloads, and downloads.
  \<^item> \<open>Dur_Store\<close>, \<open>Duration\<close>, \<open>Report_Post\<close>: \<^verbatim>\<open>duration/\<close>, the tables (locale \<open>sql_table\<close>, interpreted on a
    table in memory), every handler and the report thread, and the thread together with the HTTP client.
  \<^item> \<open>Play_Time\<close>, \<open>Dur_Timer\<close>: handlers, heart beats and rounds of the report thread in any order, and the playing time
    they account for; the heart beats and the request of the configuration as events of the timer. The state
    of the statistics extends the record of the timer, so that \<open>Advance\<close> itself runs on both.
  \<^item> \<open>Disk_File\<close>, \<open>Track_Message\<close>, \<open>Proto_Wire\<close>, \<open>Disk_Cache\<close>, \<open>Cache_Durability\<close>: \<^verbatim>\<open>base/file.*\<close> and \<^verbatim>\<open>tracker/cache.*\<close>;
    programs that may throw or be undefined, with rules of partial correctness; the protobuf wire
    format as the locale \<open>wire_format\<close>, interpreted on an encoder and decoder of the format. The fields are proto3
    strings: a message is parsed back exactly when all its texts are UTF-8 (\<open>utf8_msg\<close>), and rejected otherwise.
  \<^item> \<open>Decimal\<close>, \<open>Track_Upload\<close>, \<open>Tracker\<close>, \<open>Tracker_Flush\<close>: \<^verbatim>\<open>tracker/tracker_impl.*\<close>, file names, the signed
    upload request, the caches and their uploads, and what flushing a message guarantees.
  \<^item> \<open>Tracker_Delivery\<close>: the account of the messages over runs of flushes, timer checks, uploads and new starts of
    the process. The clock, the system calls and the uninitialised memory may differ in each step;
    the library functions (\<open>same_lib\<close>) are the same.
  \<^item> \<open>Tracker_Drain\<close>: which cache a timer check uploads, and what rounds of checks and answers do.
  \<^item> \<open>Tracker_Net\<close>: an upload together with the HTTP client of its cache, from the stored messages to the request on the
    wire and from the response back to the cache file.
  \<^item> \<open>Login\<close>: \<^verbatim>\<open>login/\<close>, the QR-code login.
  \<^item> \<open>Sdk_Api\<close>, \<open>Sdk_Calls\<close>, \<open>Sdk_Flush\<close>: \<^verbatim>\<open>sdk/\<close> and \<^verbatim>\<open>core/\<close>, initialisation, the event bus, the C interface, and the
    properties of whole sequences of API calls, and the way of a tracked message from the API to the disk.

  \<^bold>\<open>How the code is modelled.\<close> Classes are records and their methods functions on them; integers have
  their width where it matters. Errors are values: \<^verbatim>\<open>throws\<close> for code that raises, \<open>option\<close> for code that
  may read outside an array, \<open>outcome\<close> (\<open>Disk_File\<close>) for code with state that may return, throw or be
  undefined. Undefined behaviour of the sources (a freed pointer, a null event bus, a mutex locked
  twice, a missing field of a constant JSON value) is never given a meaning. Time, random numbers,
  network answers, system calls and the scheduling of threads are arguments, so the theorems hold
  for all of them: \<open>os n\<close> decides the n-th system call, a list of rounds what the network answered.
  Loops that may not end are partial functions (\<open>advance_loop\<close>) or run over such a list; then the
  theorems say when they end. No fuel is used to cut a loop of the code short.

  \<^bold>\<open>What is shown.\<close> The digests, signatures and encodings are those of their standards. Messages pushed
  into a cache are read back after a restart if their texts are UTF-8, with the file damaged or the disk failing no wrong
  message is loaded (though a damaged length makes the loader read past the end of the file); the caches of the tracker never share a file or an index, and a flushed message
  is stored once, as the application wrote it through the C interface; over any run, with restarts, what
  was flushed is either still in a file or in a request the server accepted, and not in both, except for messages with texts that are not
  UTF-8, which are wiped unsent with the cache they are in; while the server accepts every cache is sent;
  the request on the wire is signed over exactly the body it carries, and only status 200 empties a cache. Events and accepted heart beats of
  the duration statistics tile the playing time, also as seen through the C interface, and leave the stored log only when the server has
  answered. The timer delivers due messages in order and none of an event that was removed, the heart beats neither stop nor multiply, and its
  thread ends; requests in flight share nothing; the queue is first-in first-out without lost wake-ups. The
  state of the SDK stays well formed under any calls, and only the tracker's work on its files can make a call of its C interface undefined.
  Several theorems state what the code does where this is not what it means to do; they are listed as
  findings in the manifest (for instance \<open>bad_user_blocks_reports\<close>, \<open>EventExpired_after_minutes\<close>,
  \<open>flush_full_cache\<close>, \<open>heart_beat_overlap\<close>, \<open>zero_frequency_spins\<close>, \<open>config_requests_kept\<close>, \<open>login_clock_set_back\<close>,
  \<open>info_never_logged\<close>, \<open>failed_cache_starves\<close>, \<open>Load_overruns\<close>, \<open>unreadable_cache_locks\<close>).

  \<^bold>\<open>What the model relies on.\<close> Tables keep rows by increasing identifiers (\<open>sql_table\<close>); protobuf gives back what it
  encoded, up to 2 GB, unless a text is not UTF-8 (\<open>wire_format\<close>); LZ4, the JSON
  parser and printer and the HTTP transport are arbitrary functions; a conversion of a floating point JSON number to an
  integer type gives some value of that type; texts are shorter than the
  address space; the machine is little-endian, as all targets of the build are.

  \<^bold>\<open>Not modelled.\<close> Vendored libraries; \<^verbatim>\<open>base/expected.h\<close> (a vendored template, sums here);
  \<^verbatim>\<open>base/scoped_generic.h\<close>, which nothing includes and which needs a macro that is not defined; the
  transport and TLS of cinatra; the signed, floating-point and enumeration instances of
  \<^verbatim>\<open>swap.h\<close>, which nothing uses; the SWIG bindings, platform projects and tests.
\<close>

end
